(* ===== verification/Prelude.thy ===== *)
theory Prelude
  imports Main "HOL-Library.Word" "HOL-Library.Finite_Map"
begin

text \<open>
  Shared vocabulary of the development: the machine types of the Go sources, errors and
  panics as values, Go maps as finite maps and the orders in which \<open>range\<close> may visit
  them, big-endian byte encodings, and the generic lemmas every component uses.
\<close>

section \<open>Machine types\<close>

type_synonym byte = "8 word"
type_synonym bytes = "byte list"
type_synonym u32 = "32 word"
type_synonym u64 = "64 word"
type_synonym i64 = "64 word" \<comment> \<open>read with \<open>sint\<close>\<close>

text \<open>\<open>[32]byte\<close> and \<open>[20]byte\<close> are in bijection with these words (see \<open>be_bytes\<close>).\<close>

type_synonym hash = "256 word"
type_synonym address = "160 word"

text \<open>SHA-256 as the code uses it: some function from byte strings to 32 bytes.\<close>

type_synonym digest = "bytes \<Rightarrow> hash"

section \<open>Collections of facts\<close>

named_theorems go_defs \<open>definitions that proofs about single operations unfold\<close>
named_theorems inv_intros \<open>operations that keep a component's invariant\<close>
named_theorems map_facts \<open>facts about finite maps and their range orders\<close>

section \<open>Errors and panics\<close>

text \<open>
  \<open>errors.New s\<close> is \<open>ErrorString s\<close>; the errors built by \<open>fmt.Errorf\<close> keep their
  arguments. A Go panic is a value too: no code under \<open>src/\<close> recovers from one.
\<close>

datatype go_error =
    ErrorString string
  | ErrBlockHeight u64 u64        \<comment> \<open>expected, got\<close>
  | ErrApplyTx hash go_error      \<comment> \<open>transaction ID, cause\<close>
  | ErrUnsupportedType string     \<comment> \<open>\<open>json.UnsupportedTypeError\<close>\<close>

datatype go_panic = NilDereference | SliceToArray | IndexOutOfRange | SliceOutOfRange | DivideByZero | CloseOfClosed

datatype 'a res = Ok 'a | Fail go_error | Panic go_panic

fun bind_res :: "'a res \<Rightarrow> ('a \<Rightarrow> 'b res) \<Rightarrow> 'b res" where
  "bind_res (Ok x) f = f x"
| "bind_res (Fail e) f = Fail e"
| "bind_res (Panic p) f = Panic p"

fun is_Ok :: "'a res \<Rightarrow> bool" where
  "is_Ok (Ok _) = True"
| "is_Ok _ = False"

lemma bind_res_Ok_iff: "bind_res r f = Ok y \<longleftrightarrow> (\<exists>x. r = Ok x \<and> f x = Ok y)"
  by (cases r) auto

lemma is_Ok_iff: "is_Ok r \<longleftrightarrow> (\<exists>x. r = Ok x)"
  by (cases r) auto

text \<open>A loop whose body may fail or panic.\<close>

fun fold_res :: "('a \<Rightarrow> 's \<Rightarrow> 's res) \<Rightarrow> 'a list \<Rightarrow> 's \<Rightarrow> 's res" where
  "fold_res f [] s = Ok s"
| "fold_res f (x # xs) s = bind_res (f x s) (fold_res f xs)"

lemma fold_res_append: "fold_res f (xs @ ys) s = bind_res (fold_res f xs s) (fold_res f ys)"
proof (induction xs arbitrary: s)
  case (Cons x xs)
  then show ?case by (cases "f x s") simp_all
qed simp

lemma fold_res_Ok: "(\<And>x s. f x s = Ok (g x s)) \<Longrightarrow> fold_res f xs s = Ok (fold g xs s)"
  by (induction xs arbitrary: s) simp_all

lemma fold_res_inv:
  assumes "\<And>x s. P s \<Longrightarrow> \<exists>s'. f x s = Ok s' \<and> P s'" and "P s"
  shows "\<exists>s'. fold_res f xs s = Ok s' \<and> P s'"
  using assms(2)
proof (induction xs arbitrary: s)
  case (Cons x xs)
  from assms(1) [OF Cons.prems] obtain t where "f x s = Ok t" "P t" by blast
  with Cons.IH show ?case by simp
qed simp

section \<open>Go maps\<close>

text \<open>
  A Go map is a finite map. \<open>range\<close> visits its entries once each in an order the language
  leaves open: \<open>range_order es m\<close> says that the list \<open>es\<close> is one of these orders. An
  operation that ranges over a map takes the order as an argument.
\<close>

definition range_order :: "('k \<times> 'v) list \<Rightarrow> ('k, 'v) fmap \<Rightarrow> bool" where
  "range_order es m \<longleftrightarrow> distinct (map fst es) \<and> fmap_of_list es = m"

lemma range_order_lookup [map_facts]:
  "range_order es m \<Longrightarrow> (k, v) \<in> set es \<longleftrightarrow> fmlookup m k = Some v"
  by (auto simp: range_order_def fmlookup_of_list map_of_eq_Some_iff)

lemma range_order_keys [map_facts]: "range_order es m \<Longrightarrow> fst ` set es = fmdom' m"
  by (force simp: range_order_def fmdom'_alt_def fmdom_of_list fset_of_list.rep_eq)

lemma range_order_distinct: "range_order es m \<Longrightarrow> distinct es"
  by (auto simp: range_order_def distinct_map)

lemma range_order_ex: "\<exists>es. range_order es m"
proof -
  obtain xs where "m = fmap_of_list xs"
    using fmap_of_list_surj by (metis surjD)
  then have "range_order (AList.clearjunk xs) m"
    by (simp add: range_order_def fmap_ext fmlookup_of_list AList.map_of_clearjunk)
  then show ?thesis ..
qed

lemma range_order_empty [simp]: "range_order es fmempty \<longleftrightarrow> es = []"
  using range_order_keys [of es fmempty] by (auto simp: range_order_def)

text \<open>Two range orders of one map visit the same entries, in possibly different orders.\<close>

lemma range_order_set: "range_order es m \<Longrightarrow> range_order fs m \<Longrightarrow> set es = set fs"
  by (auto simp: map_facts)

lemma range_order_upd:
  assumes "range_order es m" and "k |\<notin>| fmdom m"
  shows "range_order ((k, v) # es) (fmupd k v m)"
proof -
  have "k \<notin> fst ` set es"
    using assms by (simp add: range_order_keys fmdom'_alt_def)
  with assms(1) show ?thesis
    by (auto simp: range_order_def)
qed

lemma fmdom'_lookup: "k \<in> fmdom' m \<longleftrightarrow> fmlookup m k \<noteq> None"
  by (simp add: fmlookup_dom'_iff)

text \<open>The length of a Go map.\<close>

definition fmlen :: "('k, 'v) fmap \<Rightarrow> nat" where
  "fmlen m = card (fmdom' m)"

lemma fmlen_empty [simp]: "fmlen fmempty = 0"
  by (simp add: fmlen_def)

lemma fmlen_upd [simp]:
  "fmlen (fmupd k v m) = (if fmlookup m k = None then Suc (fmlen m) else fmlen m)"
  by (simp add: fmlen_def fmdom'_lookup card_insert_if)

lemma fmlen_drop [simp]:
  "fmlen (fmdrop k m) = (if fmlookup m k = None then fmlen m else fmlen m - 1)"
  by (simp add: fmlen_def fmdom'_lookup card_Diff_singleton_if)

lemma fmlen_drop_less: "fmlookup m k = Some v \<Longrightarrow> fmlen (fmdrop k m) < fmlen m"
  by (simp only: fmlen_def fmdom'_drop) (rule card_Diff1_less, simp_all add: fmdom'I)

text \<open>
  Copying a map entry by entry under other keys. With an injective key function the order of the
  range does not matter, so the increasing one is taken.
\<close>

definition rekey :: "('k::linorder \<Rightarrow> 'l) \<Rightarrow> ('v \<Rightarrow> 'w) \<Rightarrow> ('k, 'v) fmap \<Rightarrow> ('l, 'w) fmap" where
  "rekey f g m =
     fmap_of_list (map (\<lambda>k. (f k, g (the (fmlookup m k)))) (sorted_list_of_fset (fmdom m)))"

lemma rekey_lookup:
  assumes "inj f"
  shows "fmlookup (rekey f g m) (f k) = map_option g (fmlookup m k)"
proof -
  have "map_of (map (\<lambda>k. (f k, g (the (fmlookup m k)))) ks) (f k) =
      (if k \<in> set ks then Some (g (the (fmlookup m k))) else None)" for ks
    using assms by (induction ks) (auto dest: injD)
  then show ?thesis
    by (cases "fmlookup m k") (auto simp: rekey_def fmlookup_of_list fmdomI fmdom_notI)
qed

lemma rekey_inj:
  assumes "inj f" and "inj g" and "rekey f g m = rekey f g m'"
  shows "m = m'"
proof (rule fmap_ext)
  fix k
  have "map_option g (fmlookup m k) = map_option g (fmlookup m' k)"
    using assms(3) rekey_lookup [OF assms(1), of g m k] rekey_lookup [OF assms(1), of g m' k] by simp
  then show "fmlookup m k = fmlookup m' k"
    using assms(2) by (auto simp: inj_eq dest: option.inj_map [THEN injD])
qed

lemma sorted_list_of_fset_empty [simp]: "sorted_list_of_fset {||} = []"
proof -
  have "set (sorted_list_of_fset {||}) = {}"
    unfolding sorted_list_of_fset_simps by simp
  then show ?thesis unfolding set_empty .
qed

lemma rekey_empty [simp]: "rekey f g fmempty = fmempty"
  by (simp add: rekey_def)

section \<open>Byte encodings\<close>

text \<open>\<open>binary.BigEndian\<close> and the \<open>[:]\<close> slices of hashes and addresses.\<close>

definition be_bytes :: "'a::len word \<Rightarrow> bytes" where
  "be_bytes w = map (\<lambda>i. ucast (drop_bit (8 * i) w)) (rev [0..<LENGTH('a) div 8])"

lemma length_be_bytes [simp]: "length (be_bytes (w :: 'a::len word)) = LENGTH('a) div 8"
  by (simp add: be_bytes_def)

lemma be_bytes_bit:
  fixes w :: "'a::len word"
  assumes "n < LENGTH('a)" and "8 dvd LENGTH('a)"
  shows "bit w n \<longleftrightarrow> bit (rev (be_bytes w) ! (n div 8)) (n mod 8)"
proof -
  have "n div 8 < LENGTH('a) div 8"
    using assms by (metis dvd_div_mult_self less_mult_imp_div_less)
  then have "rev (be_bytes w) ! (n div 8) = ucast (drop_bit (8 * (n div 8)) w)"
    by (simp add: be_bytes_def rev_map)
  then show ?thesis
    using assms by (simp add: bit_ucast_iff bit_drop_bit_eq)
qed

lemma be_bytes_inj:
  assumes "8 dvd LENGTH('a::len)" and "be_bytes (v :: 'a word) = be_bytes w"
  shows "v = w"
  by (rule bit_word_eqI) (use assms be_bytes_bit in metis)

lemma be_bytes_eq_iff [simp]:
  "be_bytes (h :: hash) = be_bytes h' \<longleftrightarrow> h = h'"
  "be_bytes (a :: address) = be_bytes a' \<longleftrightarrow> a = a'"
  "be_bytes (x :: u64) = be_bytes x' \<longleftrightarrow> x = x'"
  "be_bytes (y :: u32) = be_bytes y' \<longleftrightarrow> y = y'"
  by (auto intro: be_bytes_inj [rotated])

text \<open>\<open>[]byte(s)\<close> for a string literal.\<close>

definition string_bytes :: "string \<Rightarrow> bytes" where
  "string_bytes s = map of_char s"

text \<open>Fixed-length prefixes of a concatenation are determined by it.\<close>

lemma append_prefix_eq: "length xs = length ys \<Longrightarrow> xs @ us = ys @ vs \<longleftrightarrow> xs = ys \<and> us = vs"
  by simp

end
