(* ===== verification/Core_Types.thy ===== *)
theory Core_Types
  imports Prelude
begin

text \<open>
  \<open>core/types.go\<close> and \<open>core/block.go\<close>: hashes and addresses with their hexadecimal
  \<open>String\<close> methods, transactions, blocks and headers, accounts and shard states, and the
  byte encoding a header is hashed from.
\<close>

section \<open>Hexadecimal strings (\<open>encoding/hex\<close>)\<close>

definition hex_digit :: "nat \<Rightarrow> char" where
  "hex_digit n = (if n < 10 then char_of (48 + n) else char_of (87 + n))"

definition unhex_digit :: "char \<Rightarrow> nat option" where
  "unhex_digit c =
     (let n = of_char c :: nat in
      if 48 \<le> n \<and> n \<le> 57 then Some (n - 48)
      else if 97 \<le> n \<and> n \<le> 102 then Some (n - 87)
      else if 65 \<le> n \<and> n \<le> 70 then Some (n - 55)
      else None)"

fun hex_encode :: "bytes \<Rightarrow> string" where
  "hex_encode [] = []"
| "hex_encode (b # bs) = hex_digit (unat b div 16) # hex_digit (unat b mod 16) # hex_encode bs"

text \<open>\<open>hex.DecodeString\<close>; every use under \<open>src/\<close> drops the bytes decoded before an error.\<close>

fun hex_decode :: "string \<Rightarrow> bytes option" where
  "hex_decode [] = Some []"
| "hex_decode [_] = None"
| "hex_decode (c # d # cs) =
     (case (unhex_digit c, unhex_digit d, hex_decode cs) of
        (Some hi, Some lo, Some bs) \<Rightarrow> Some (of_nat (16 * hi + lo) # bs)
      | _ \<Rightarrow> None)"

lemma unhex_hex_digit: "n < 16 \<Longrightarrow> unhex_digit (hex_digit n) = Some n"
  by (simp add: hex_digit_def unhex_digit_def Let_def)

lemma hex_decode_encode [simp]: "hex_decode (hex_encode bs) = Some bs"
proof (induction bs)
  case Nil
  then show ?case by simp
next
  case (Cons b bs)
  have "unat b < 256"
    using unsigned_less [of b, where ?'a = nat] by simp
  then have "unat b div 16 < 16" and "unat b mod 16 < 16"
    by auto
  moreover have "16 * (unat b div 16) + unat b mod 16 = unat b"
    by simp
  ultimately show ?case
    using Cons.IH by (simp add: unhex_hex_digit del: of_nat_add of_nat_mult)
qed

lemma length_hex_encode [simp]: "length (hex_encode bs) = 2 * length bs"
  by (induction bs) auto

lemma hex_encode_inj: "hex_encode bs = hex_encode cs \<Longrightarrow> bs = cs"
  by (metis hex_decode_encode option.inject)

section \<open>Hashes and addresses\<close>

text \<open>\<open>copy(h[:], bs)\<close> into a zero array whose length is that of \<open>bs\<close>.\<close>

definition of_be_bytes :: "bytes \<Rightarrow> 'a::len word" where
  "of_be_bytes bs = word_rcat bs"

lemma of_be_bytes_be_bytes:
  assumes "8 dvd LENGTH('a::len)"
  shows "of_be_bytes (be_bytes (w :: 'a word)) = w"
proof (rule bit_word_eqI)
  fix n
  assume n: "n < LENGTH('a)"
  then have "n div 8 < LENGTH('a) div 8"
    using assms by (metis dvd_div_mult_self less_mult_imp_div_less)
  then have "bit (horner_sum uint (2 ^ LENGTH(8)) (rev (be_bytes w))) n \<longleftrightarrow>
      bit (rev (be_bytes w) ! (n div 8)) (n mod 8)"
    by (subst bit_horner_sum_uint_exp_iff) simp
  also have "\<dots> \<longleftrightarrow> bit w n"
    using be_bytes_bit [OF n assms, of w] by simp
  finally show "bit (of_be_bytes (be_bytes w) :: 'a word) n = bit w n"
    using n by (simp add: of_be_bytes_def word_rcat_def bit_word_of_int_iff)
qed

definition Hash_String :: "hash \<Rightarrow> string" where
  "Hash_String h = hex_encode (be_bytes h)"

function pad_right :: "string \<Rightarrow> string" where
  "pad_right s = (if length s < 40 then pad_right (s @ ''0'') else s)"
  by pat_completeness auto
termination
  by (relation "measure (\<lambda>s. 40 - length s)") auto

declare pad_right.simps [simp del]

definition Address_String :: "address \<Rightarrow> string" where
  "Address_String a = pad_right (hex_encode (be_bytes a))"

definition ComputeHash :: "digest \<Rightarrow> bytes \<Rightarrow> hash" where
  "ComputeHash sha d = sha d"

lemma Address_String_eq: "Address_String a = hex_encode (be_bytes a)"
  by (simp add: Address_String_def pad_right.simps)

lemma Hash_String_inj: "Hash_String h = Hash_String h' \<Longrightarrow> h = h'"
  by (auto simp: Hash_String_def dest: hex_encode_inj)

lemma Address_String_inj: "Address_String a = Address_String a' \<Longrightarrow> a = a'"
  by (auto simp: Address_String_eq dest: hex_encode_inj)

section \<open>Blocks, transactions, accounts\<close>

record transaction =
  tx_ID :: hash
  tx_From :: address
  tx_To :: address
  tx_Value :: u64
  tx_Nonce :: u64
  tx_Timestamp :: i64
  tx_Signature :: bytes

record cross_shard_link =
  csl_ShardID :: u32
  csl_BlockHash :: hash
  csl_StateProof :: bytes

record block_header =
  hdr_Version :: u32
  hdr_Height :: u64
  hdr_Timestamp :: i64
  hdr_PrevBlockHash :: hash
  hdr_MerkleRoot :: hash
  hdr_StateRoot :: hash
  hdr_AccumulatorRoot :: hash
  hdr_Nonce :: u64
  hdr_Difficulty :: u64
  hdr_ShardID :: u32
  hdr_CrossShardLinks :: "cross_shard_link list"

record block =
  blk_Header :: block_header
  blk_Transactions :: "transaction list"

record account_state =
  acc_Balance :: u64
  acc_Nonce :: u64
  acc_CodeHash :: hash
  acc_Storage :: "(hash, hash) fmap"

text \<open>A \<open>time.Time\<close> is the integer number of nanoseconds since the Unix epoch.\<close>

type_synonym go_time = int

definition Unix :: "go_time \<Rightarrow> i64" where
  "Unix t = word_of_int (t div 1000000000)"

record shard_state =
  ss_ShardID :: u32
  ss_StateRoot :: hash
  ss_Accounts :: "(address, account_state) fmap"
  ss_LastModified :: go_time

section \<open>The hash of a block header\<close>

definition link_bytes :: "cross_shard_link \<Rightarrow> bytes" where
  "link_bytes l = be_bytes (csl_ShardID l) @ be_bytes (csl_BlockHash l) @ csl_StateProof l"

definition header_prefix :: "block_header \<Rightarrow> bytes" where
  "header_prefix bh =
     be_bytes (hdr_Version bh) @ be_bytes (hdr_Height bh) @ be_bytes (hdr_Timestamp bh) @
     be_bytes (hdr_PrevBlockHash bh) @ be_bytes (hdr_MerkleRoot bh) @
     be_bytes (hdr_StateRoot bh) @ be_bytes (hdr_AccumulatorRoot bh) @
     be_bytes (hdr_Nonce bh) @ be_bytes (hdr_Difficulty bh) @ be_bytes (hdr_ShardID bh)"

definition header_bytes :: "block_header \<Rightarrow> bytes" where
  "header_bytes bh = header_prefix bh @ concat (map link_bytes (hdr_CrossShardLinks bh))"

definition header_hash :: "digest \<Rightarrow> block_header \<Rightarrow> hash" where
  "header_hash sha bh = ComputeHash sha (header_bytes bh)"

lemma length_header_prefix [simp]: "length (header_prefix bh) = 168"
  by (simp add: header_prefix_def)

lemma header_prefix_eq_iff:
  "header_prefix b = header_prefix b' \<longleftrightarrow>
     hdr_Version b = hdr_Version b' \<and> hdr_Height b = hdr_Height b' \<and>
     hdr_Timestamp b = hdr_Timestamp b' \<and> hdr_PrevBlockHash b = hdr_PrevBlockHash b' \<and>
     hdr_MerkleRoot b = hdr_MerkleRoot b' \<and> hdr_StateRoot b = hdr_StateRoot b' \<and>
     hdr_AccumulatorRoot b = hdr_AccumulatorRoot b' \<and> hdr_Nonce b = hdr_Nonce b' \<and>
     hdr_Difficulty b = hdr_Difficulty b' \<and> hdr_ShardID b = hdr_ShardID b'"
  by (simp add: header_prefix_def)

text \<open>Equal encodings agree on everything before the cross-shard links.\<close>

lemma header_bytes_prefix:
  "header_bytes b = header_bytes b' \<Longrightarrow> header_prefix b = header_prefix b'"
  by (simp add: header_bytes_def)

lemma links_bytes_inj:
  assumes "map (length \<circ> csl_StateProof) ls = map (length \<circ> csl_StateProof) ls'"
    and "concat (map link_bytes ls) = concat (map link_bytes ls')"
  shows "ls = ls'"
  using assms
proof (induction ls arbitrary: ls')
  case Nil
  then show ?case by simp
next
  case (Cons l ls)
  then obtain l' ms where ls': "ls' = l' # ms"
    by (cases ls') auto
  with Cons.prems have "length (link_bytes l) = length (link_bytes l')"
    by (simp add: link_bytes_def)
  with Cons.prems ls' have "link_bytes l = link_bytes l'"
      and "concat (map link_bytes ls) = concat (map link_bytes ms)"
    by simp_all
  with Cons.IH [of ms] Cons.prems ls' show ?case
    by (simp add: link_bytes_def cross_shard_link.equality)
qed

section \<open>What a header hash commits to\<close>

text \<open>
  The bytes a header is hashed from determine the header, once the lengths of the state
  proofs in its cross-shard links are fixed: every field is written at full width, in order.
\<close>

theorem header_bytes_commits:
  assumes "header_bytes b = header_bytes b'"
    and "map (length \<circ> csl_StateProof) (hdr_CrossShardLinks b) =
         map (length \<circ> csl_StateProof) (hdr_CrossShardLinks b')"
  shows "b = b'"
proof -
  have "concat (map link_bytes (hdr_CrossShardLinks b)) =
      concat (map link_bytes (hdr_CrossShardLinks b'))"
    using assms(1) by (simp add: header_bytes_def)
  with assms(2) have "hdr_CrossShardLinks b = hdr_CrossShardLinks b'"
    by (rule links_bytes_inj)
  moreover have "header_prefix b = header_prefix b'"
    using assms(1) by (rule header_bytes_prefix)
  ultimately show ?thesis
    by (simp add: header_prefix_eq_iff block_header.equality)
qed

definition zero_header :: block_header where
  "zero_header =
     \<lparr>hdr_Version = 0, hdr_Height = 0, hdr_Timestamp = 0, hdr_PrevBlockHash = 0,
      hdr_MerkleRoot = 0, hdr_StateRoot = 0, hdr_AccumulatorRoot = 0, hdr_Nonce = 0,
      hdr_Difficulty = 0, hdr_ShardID = 0, hdr_CrossShardLinks = []\<rparr>"

theorem header_bytes_commits_witness:
  "header_bytes zero_header = header_bytes zero_header \<and> zero_header = zero_header"
  using header_bytes_commits [of zero_header zero_header] by simp

text \<open>
  The length of a state proof is not part of the encoding, so cross-shard links can be
  regrouped: there are two different headers, with different numbers of links, that have the same
  hash whatever the hash function is.
\<close>

theorem cross_shard_links_ambiguous:
  "\<exists>b b'. length (hdr_CrossShardLinks b) \<noteq> length (hdr_CrossShardLinks b') \<and>
     (\<forall>sha. header_hash sha b = header_hash sha b')"
proof -
  let ?l = "\<lparr>csl_ShardID = 0, csl_BlockHash = 0, csl_StateProof = []\<rparr>"
  let ?m = "\<lparr>csl_ShardID = 0, csl_BlockHash = 0, csl_StateProof = link_bytes ?l\<rparr>"
  let ?b = "zero_header\<lparr>hdr_CrossShardLinks := [?l, ?l]\<rparr>"
  let ?b' = "zero_header\<lparr>hdr_CrossShardLinks := [?m]\<rparr>"
  have "header_bytes ?b = header_bytes ?b'"
    by (simp add: header_bytes_def header_prefix_def link_bytes_def)
  then have "\<forall>sha. header_hash sha ?b = header_hash sha ?b'"
    by (simp add: header_hash_def)
  then show ?thesis
    by (intro exI [of _ ?b] exI [of _ ?b']) simp
qed

text \<open>
  \<open>Address.String\<close> writes exactly 40 hexadecimal digits (its padding loop never runs),
  \<open>Hash.String\<close> 64, and decoding the text and copying the bytes into an array of the right length
  gives the address or the hash back.
\<close>

theorem address_hash_string_roundtrip:
  "length (Address_String a) = 40 \<and> length (Hash_String h) = 64 \<and>
   map_option of_be_bytes (hex_decode (Address_String a)) = Some a \<and>
   map_option of_be_bytes (hex_decode (Hash_String h)) = Some h"
  by (simp add: Address_String_eq Hash_String_def of_be_bytes_be_bytes)

section \<open>A digest for examples\<close>

text \<open>
  Witnesses need some hash function. This one reads the height of a header, so that the hash of
  a header is its height and different heights do not collide.
\<close>

definition height_digest :: digest where
  "height_digest m = of_be_bytes (take 8 (drop 4 m))"

lemma of_be_bytes_u64: "of_be_bytes (be_bytes (w :: u64)) = (ucast w :: hash)"
proof (rule bit_word_eqI)
  fix n
  assume n: "n < LENGTH(256)"
  have "bit (horner_sum uint (2 ^ LENGTH(8)) (rev (be_bytes w))) n \<longleftrightarrow>
      n div 8 < 8 \<and> bit (rev (be_bytes w) ! (n div 8)) (n mod 8)"
    by (subst bit_horner_sum_uint_exp_iff) simp
  also have "\<dots> \<longleftrightarrow> n < 64 \<and> bit w n"
    using be_bytes_bit [of n w] by auto
  finally show "bit (of_be_bytes (be_bytes w) :: hash) n = bit (ucast w :: hash) n"
    using n by (auto simp: of_be_bytes_def word_rcat_def bit_word_of_int_iff bit_ucast_iff
        dest: bit_imp_le_length)
qed

lemma header_hash_height_digest [simp]:
  "header_hash height_digest bh = ucast (hdr_Height bh)"
  by (simp add: header_hash_def ComputeHash_def height_digest_def header_bytes_def
      header_prefix_def of_be_bytes_u64)

end
