(* ===== verification/Go_Float.thy ===== *)
theory Go_Float
  imports Complex_Main "HOL-Library.Log_Nat"
begin

text \<open>
  Go's \<open>float64\<close>: rationals with round-to-nearest-even after every operation, infinities and
  NaN. The sign of a zero is not kept: no code under \<open>src/\<close> divides by a zero of either sign in
  a way that shows it.
\<close>

datatype f64 = Fin rat | PInf | NInf | NaN

section \<open>Rounding\<close>

definition round_even :: "rat \<Rightarrow> int" where
  "round_even x =
     (let f = \<lfloor>x\<rfloor>; d = x - of_int f in
      if d < 1 / 2 then f else if 1 / 2 < d then f + 1 else if even f then f else f + 1)"

definition pow2 :: "int \<Rightarrow> rat" where
  "pow2 k = (if 0 \<le> k then 2 ^ nat k else 1 / 2 ^ nat (- k))"

definition flog2 :: "rat \<Rightarrow> int" where \<comment> \<open>for positive arguments\<close>
  "flog2 x =
     (let (n, d) = quotient_of x; e = bitlen n - bitlen d in if pow2 e \<le> x then e else e - 1)"

text \<open>53 significant bits, the last of weight at least \<open>2 ^ (- 1074)\<close>.\<close>

definition ulp :: "rat \<Rightarrow> int" where
  "ulp x = max (flog2 \<bar>x\<bar> - 52) (- 1074)"

definition rnd :: "rat \<Rightarrow> rat" where
  "rnd x = (if x = 0 then 0 else of_int (round_even (x / pow2 (ulp x))) * pow2 (ulp x))"

definition f64_round :: "rat \<Rightarrow> f64" where
  "f64_round x =
     (let y = rnd x in
      if 2 ^ 1024 \<le> y then PInf else if y \<le> - (2 ^ 1024) then NInf else Fin y)"

section \<open>Operations\<close>

definition f64_of_int :: "int \<Rightarrow> f64" where
  "f64_of_int n = f64_round (of_int n)"

fun f64_neg :: "f64 \<Rightarrow> f64" where
  "f64_neg (Fin x) = Fin (- x)"
| "f64_neg PInf = NInf"
| "f64_neg NInf = PInf"
| "f64_neg NaN = NaN"

fun f64_add :: "f64 \<Rightarrow> f64 \<Rightarrow> f64" where
  "f64_add (Fin x) (Fin y) = f64_round (x + y)"
| "f64_add NaN _ = NaN"
| "f64_add _ NaN = NaN"
| "f64_add PInf NInf = NaN"
| "f64_add NInf PInf = NaN"
| "f64_add PInf _ = PInf"
| "f64_add _ PInf = PInf"
| "f64_add NInf _ = NInf"
| "f64_add _ NInf = NInf"

definition f64_sub :: "f64 \<Rightarrow> f64 \<Rightarrow> f64" where
  "f64_sub x y = f64_add x (f64_neg y)"

fun f64_sign :: "f64 \<Rightarrow> int" where
  "f64_sign (Fin x) = (if x < 0 then - 1 else if x = 0 then 0 else 1)"
| "f64_sign NInf = - 1"
| "f64_sign PInf = 1"
| "f64_sign NaN = 0"

definition f64_inf :: "int \<Rightarrow> f64" where
  "f64_inf s = (if s < 0 then NInf else if s = 0 then NaN else PInf)"

fun f64_mul :: "f64 \<Rightarrow> f64 \<Rightarrow> f64" where
  "f64_mul (Fin x) (Fin y) = f64_round (x * y)"
| "f64_mul NaN _ = NaN"
| "f64_mul _ NaN = NaN"
| "f64_mul x y = f64_inf (f64_sign x * f64_sign y)"

fun f64_div :: "f64 \<Rightarrow> f64 \<Rightarrow> f64" where
  "f64_div (Fin x) (Fin y) = (if y = 0 then f64_inf (f64_sign (Fin x)) else f64_round (x / y))"
| "f64_div NaN _ = NaN"
| "f64_div _ NaN = NaN"
| "f64_div (Fin _) _ = Fin 0"
| "f64_div x (Fin y) = f64_inf (f64_sign x * (if y < 0 then - 1 else 1))"
| "f64_div _ _ = NaN"

fun f64_less :: "f64 \<Rightarrow> f64 \<Rightarrow> bool" where
  "f64_less (Fin x) (Fin y) \<longleftrightarrow> x < y"
| "f64_less NInf (Fin _) \<longleftrightarrow> True"
| "f64_less NInf PInf \<longleftrightarrow> True"
| "f64_less (Fin _) PInf \<longleftrightarrow> True"
| "f64_less _ _ \<longleftrightarrow> False"

text \<open>\<open>math.Max\<close> and \<open>math.Min\<close>: the infinity that decides comes before NaN.\<close>

definition f64_max :: "f64 \<Rightarrow> f64 \<Rightarrow> f64" where
  "f64_max x y = (if x = PInf \<or> y = PInf then PInf else if x = NaN \<or> y = NaN then NaN
     else if f64_less y x then x else y)"

definition f64_min :: "f64 \<Rightarrow> f64 \<Rightarrow> f64" where
  "f64_min x y = (if x = NInf \<or> y = NInf then NInf else if x = NaN \<or> y = NaN then NaN
     else if f64_less x y then x else y)"

definition f64_le :: "f64 \<Rightarrow> f64 \<Rightarrow> bool" where
  "f64_le x y \<longleftrightarrow> f64_less x y \<or> x = y \<and> x \<noteq> NaN"

lemma f64_le_Fin [simp]: "f64_le (Fin x) (Fin y) \<longleftrightarrow> x \<le> y"
  by (auto simp: f64_le_def)

lemma f64_less_irrefl [simp]: "\<not> f64_less x x"
  by (cases x) auto

lemma f64_less_trans: "f64_less x y \<Longrightarrow> f64_less y z \<Longrightarrow> f64_less x z"
  by (cases x; cases y; cases z) auto

section \<open>Rounding concrete values\<close>

lemma pow2_pos [simp]: "0 < pow2 k"
  by (simp add: pow2_def)

lemma pow2_nonzero [simp]: "pow2 k \<noteq> 0"
  using pow2_pos [of k] by linarith

lemma pow2_Suc: "pow2 (k + 1) = 2 * pow2 k"
proof (cases "0 \<le> k")
  case True
  then show ?thesis by (simp add: pow2_def nat_add_distrib)
next
  case False
  then have "nat (- k) = Suc (nat (- (k + 1)))" by simp
  with False show ?thesis by (cases "k = - 1") (simp_all add: pow2_def)
qed

lemma pow2_add: "pow2 (k + int n) = pow2 k * 2 ^ n"
proof (induction n)
  case (Suc n)
  have "pow2 (k + int (Suc n)) = 2 * pow2 (k + int n)"
    using pow2_Suc [of "k + int n"] by (simp only: of_nat_Suc ac_simps)
  with Suc show ?case by simp
qed simp

lemma pow2_mono: "k \<le> l \<Longrightarrow> pow2 k \<le> pow2 l"
proof -
  assume "k \<le> l"
  then have "pow2 l = pow2 k * 2 ^ nat (l - k)"
    using pow2_add [of k "nat (l - k)"] by simp
  moreover have "pow2 k * 1 \<le> pow2 k * 2 ^ nat (l - k)"
    by (rule mult_left_mono) (simp_all add: less_imp_le)
  ultimately show ?thesis by simp
qed

lemma pow2_bracket_unique:
  assumes "pow2 e \<le> x" "x < pow2 (e + 1)" "pow2 e' \<le> x" "x < pow2 (e' + 1)"
  shows "e = e'"
  using assms pow2_mono [of "e + 1" e'] pow2_mono [of "e' + 1" e] by linarith

lemma pow2_diff: "pow2 (int a - int b) = 2 ^ a / 2 ^ b"
  by (cases "b \<le> a") (simp_all add: pow2_def nat_diff_distrib' power_diff flip: of_nat_diff)

lemma flog2_bracket:
  assumes "0 < x"
  shows "pow2 (flog2 x) \<le> x \<and> x < pow2 (flog2 x + 1)"
proof -
  obtain n d where nd: "quotient_of x = (n, d)" by fastforce
  then have d: "0 < d" and x: "x = of_int n / of_int d"
    by (simp_all add: quotient_of_denom_pos quotient_of_div)
  with assms have n: "0 < n" by (simp add: zero_less_divide_iff)
  define a b where "a = nat (bitlen n)" and "b = nat (bitlen d)"
  with n d have ab: "bitlen n = int a" "bitlen d = int b"
    by (simp_all add: bitlen_nonneg)
  have bounds: "2 ^ (nat (bitlen k) - 1) \<le> k \<and> k < 2 ^ nat (bitlen k)" if "0 < k" for k :: int
  proof -
    have "nat (bitlen k - 1) = nat (bitlen k) - 1" by (simp add: nat_diff_distrib)
    with bitlen_bounds [OF that] show ?thesis by simp
  qed
  have pos: "0 < a" "0 < b"
    using bitlen_eq_zero_iff [of n] bitlen_eq_zero_iff [of d] n d ab by (auto intro: Suc_leI)
  have "of_int (2 ^ (a - 1)) \<le> (of_int n :: rat)" "of_int n < (of_int (2 ^ a) :: rat)"
      "of_int (2 ^ (b - 1)) \<le> (of_int d :: rat)" "of_int d < (of_int (2 ^ b) :: rat)"
    using bounds [OF n] bounds [OF d] ab unfolding of_int_le_iff of_int_less_iff by simp_all
  then have an: "2 ^ a \<le> 2 * (of_int n :: rat)" "of_int n < (2 ^ a :: rat)"
      and bd: "2 ^ b \<le> 2 * (of_int d :: rat)" "of_int d < (2 ^ b :: rat)"
    using pos by (simp_all add: power_eq_if [of 2 a] power_eq_if [of 2 b])
  have d': "0 < (of_int d :: rat)" and n': "0 < (of_int n :: rat)" using d n by simp_all
  have "of_int n * 2 ^ b < 2 * 2 ^ a * (of_int d :: rat)"
    using mult_left_mono [OF bd(1), of "of_int n"] mult_strict_right_mono [OF an(2) d'] n' by linarith
  then have "x < 2 * (2 ^ a / 2 ^ b)"
    using d' unfolding x by (simp add: field_simps)
  moreover have "2 ^ a * of_int d \<le> 2 * of_int n * (2 ^ b :: rat)"
    using mult_left_mono [OF less_imp_le [OF bd(2)], of "2 * of_int n"]
      mult_right_mono [OF an(1) less_imp_le [OF d']] n' by linarith
  then have "2 ^ a / 2 ^ b \<le> 2 * x"
    using d' unfolding x by (simp add: field_simps)
  ultimately have u: "x < pow2 (int a - int b + 1)" and l: "pow2 (int a - int b) \<le> 2 * x"
    by (simp_all add: pow2_diff pow2_Suc)
  have "flog2 x = (if pow2 (int a - int b) \<le> x then int a - int b else int a - int b - 1)"
    by (simp add: flog2_def nd ab Let_def)
  with u l pow2_Suc [of "int a - int b - 1"] show ?thesis by auto
qed

lemma flog2_eqI: "pow2 e \<le> x \<Longrightarrow> x < pow2 (e + 1) \<Longrightarrow> flog2 x = e"
  using flog2_bracket [of x] pow2_bracket_unique [of "flog2 x" x e] pow2_pos [of e] by linarith

lemma round_evenI: "\<bar>x - of_int m\<bar> < 1 / 2 \<Longrightarrow> round_even x = m"
proof -
  assume near: "\<bar>x - of_int m\<bar> < 1 / 2"
  then have "\<lfloor>x\<rfloor> = m \<or> \<lfloor>x\<rfloor> = m - 1"
    unfolding floor_eq_iff by (simp add: abs_if split: if_splits)
  then show ?thesis
    using near by (auto simp: round_even_def Let_def abs_if split: if_splits)
qed

lemma round_even_of_int [simp]: "round_even (of_int m) = m"
  by (rule round_evenI) simp

lemma f64_roundI:
  assumes "pow2 e \<le> \<bar>x\<bar>" and "\<bar>x\<bar> < pow2 (e + 1)" and "- 1022 \<le> e"
    and "\<bar>x / pow2 (e - 52) - of_int m\<bar> < 1 / 2"
    and "\<bar>of_int m * pow2 (e - 52)\<bar> < 2 ^ 1024"
  shows "f64_round x = Fin (of_int m * pow2 (e - 52))"
proof -
  have "x \<noteq> 0" using assms(1) pow2_pos [of e] by (metis abs_zero linorder_not_less)
  moreover have "flog2 \<bar>x\<bar> = e" using assms by (intro flog2_eqI)
  moreover have "round_even (x / pow2 (e - 52)) = m" using assms(4) by (rule round_evenI)
  moreover have "max (e - 52) (- 1074) = e - 52" using assms(3) by simp
  ultimately show ?thesis
    using assms(5) by (simp add: f64_round_def rnd_def ulp_def Let_def abs_less_iff)
qed

section \<open>Rounding is monotone and exact on small integers\<close>

lemma round_even_near: "\<lfloor>x\<rfloor> \<le> round_even x \<and> round_even x \<le> \<lfloor>x\<rfloor> + 1"
  by (simp add: round_even_def Let_def)

lemma round_even_mono: "x \<le> y \<Longrightarrow> round_even x \<le> round_even y"
proof -
  assume le: "x \<le> y"
  then have "\<lfloor>x\<rfloor> \<le> \<lfloor>y\<rfloor>" by (rule floor_mono)
  then consider "\<lfloor>x\<rfloor> = \<lfloor>y\<rfloor>" | "\<lfloor>x\<rfloor> + 1 \<le> \<lfloor>y\<rfloor>" by linarith
  then show ?thesis
  proof cases
    case 1
    with le show ?thesis by (simp add: round_even_def Let_def)
  next
    case 2
    with round_even_near [of x] round_even_near [of y] show ?thesis by linarith
  qed
qed

lemma round_even_le_int: "x \<le> of_int n \<Longrightarrow> round_even x \<le> n"
  using round_even_mono [of x "of_int n"] by simp

lemma round_even_ge_int: "of_int n \<le> x \<Longrightarrow> n \<le> round_even x"
  using round_even_mono [of "of_int n" x] by simp

lemma pow2_split: "k \<le> l \<Longrightarrow> pow2 l = of_int (2 ^ nat (l - k)) * pow2 k"
  using pow2_add [of k "nat (l - k)"] by simp

lemma rnd_mono:
  assumes "0 \<le> x" and "x \<le> y"
  shows "rnd x \<le> rnd y"
proof (cases "x = 0")
  case True
  have "0 \<le> round_even (y / pow2 (ulp y))"
    using assms by (intro round_even_ge_int) (simp add: less_imp_le)
  with True show ?thesis by (simp add: rnd_def less_imp_le)
next
  case False
  with assms have pos: "0 < x" "0 < y" by auto
  note bx = flog2_bracket [OF pos(1)] and by' = flog2_bracket [OF pos(2)]
  have e: "flog2 x \<le> flog2 y"
    using bx by' assms(2) pow2_mono [of "flog2 y + 1" "flog2 x"] by linarith
  have ux: "ulp x = max (flog2 x - 52) (- 1074)" and uy: "ulp y = max (flog2 y - 52) (- 1074)"
    using pos by (simp_all add: ulp_def)
  show ?thesis
  proof (cases "ulp x = ulp y")
    case True
    have "round_even (x / pow2 (ulp y)) \<le> round_even (y / pow2 (ulp y))"
      using assms by (intro round_even_mono divide_right_mono) (simp_all add: less_imp_le)
    with True pos show ?thesis by (simp add: rnd_def mult_right_mono less_imp_le)
  next
    case False
    with e ux uy have less: "flog2 x + 1 \<le> flog2 y" "ulp x \<le> flog2 y"
        "ulp y \<le> flog2 y" by (auto simp: max_def split: if_splits)
    have "x \<le> pow2 (flog2 y)" using bx pow2_mono [OF less(1)] by linarith
    then have "x / pow2 (ulp x) \<le> of_int (2 ^ nat (flog2 y - ulp x))"
      unfolding pow2_split [OF less(2)] by (simp add: pos_divide_le_eq)
    then have "of_int (round_even (x / pow2 (ulp x))) \<le> (of_int (2 ^ nat (flog2 y - ulp x)) :: rat)"
      unfolding of_int_le_iff by (rule round_even_le_int)
    then have "of_int (round_even (x / pow2 (ulp x))) * pow2 (ulp x) \<le> pow2 (flog2 y)"
      unfolding pow2_split [OF less(2)] by (rule mult_right_mono) (simp add: less_imp_le)
    moreover have "of_int (2 ^ nat (flog2 y - ulp y)) \<le> y / pow2 (ulp y)"
      using by' unfolding pow2_split [OF less(3)] by (simp add: pos_le_divide_eq)
    then have "(of_int (2 ^ nat (flog2 y - ulp y)) :: rat) \<le> of_int (round_even (y / pow2 (ulp y)))"
      unfolding of_int_le_iff by (rule round_even_ge_int)
    then have "pow2 (flog2 y) \<le> of_int (round_even (y / pow2 (ulp y))) * pow2 (ulp y)"
      unfolding pow2_split [OF less(3)] by (rule mult_right_mono) (simp add: less_imp_le)
    ultimately show ?thesis using pos by (simp add: rnd_def)
  qed
qed

lemma rnd_of_int:
  assumes "0 \<le> n" and "n < 2 ^ 53"
  shows "rnd (of_int n) = of_int n"
proof (cases "n = 0")
  case False
  with assms have pos: "0 < (of_int n :: rat)" by simp
  note b = flog2_bracket [OF pos]
  have "flog2 (of_int n) < 53"
  proof (rule ccontr)
    assume "\<not> flog2 (of_int n) < 53"
    then have "pow2 53 \<le> pow2 (flog2 (of_int n))" by (intro pow2_mono) simp
    also have "\<dots> \<le> of_int n" using b by simp
    finally have "of_int (2 ^ 53) \<le> (of_int n :: rat)" by (simp add: pow2_def)
    with assms(2) show False unfolding of_int_le_iff by simp
  qed
  moreover have "0 \<le> flog2 (of_int n)"
  proof (rule ccontr)
    assume "\<not> 0 \<le> flog2 (of_int n)"
    then have "pow2 (flog2 (of_int n) + 1) \<le> pow2 0" by (intro pow2_mono) simp
    with b have "(of_int n :: rat) < 1" by (simp add: pow2_def)
    with False assms(1) show False by simp
  qed
  ultimately have u: "ulp (of_int n) = flog2 (of_int n) - 52" "ulp (of_int n) \<le> 0"
    using pos by (simp_all add: ulp_def)
  define k where "k = nat (- ulp (of_int n))"
  have "pow2 0 = of_int (2 ^ nat (0 - ulp (of_int n))) * pow2 (ulp (of_int n))"
    using u(2) by (rule pow2_split)
  then have one: "1 = 2 ^ k * pow2 (ulp (of_int n))" by (simp add: pow2_def k_def)
  then have "of_int n / pow2 (ulp (of_int n)) = of_int (n * 2 ^ k)"
    by (simp add: divide_eq_eq mult.assoc flip: one)
  then have "rnd (of_int n) = of_int (n * 2 ^ k) * pow2 (ulp (of_int n))"
    using False by (simp only: rnd_def round_even_of_int) simp
  also have "\<dots> = of_int n * (2 ^ k * pow2 (ulp (of_int n)))" by simp
  finally show ?thesis by (simp flip: one)
qed (simp add: rnd_def)

lemma f64_round_Fin: "\<bar>rnd x\<bar> < 2 ^ 1024 \<Longrightarrow> f64_round x = Fin (rnd x)"
  by (simp add: f64_round_def Let_def abs_less_iff)

lemma rnd_range:
  assumes "0 \<le> x" and "x \<le> of_int n" and "n < 2 ^ 53"
  shows "0 \<le> rnd x \<and> rnd x \<le> of_int n \<and> f64_round x = Fin (rnd x)"
proof -
  have n: "0 \<le> n" using assms by (metis of_int_0_le_iff order_trans)
  have "rnd 0 \<le> rnd x" "rnd x \<le> rnd (of_int n)" using assms by (auto intro: rnd_mono)
  then have b: "0 \<le> rnd x" "rnd x \<le> of_int n"
    using rnd_of_int [OF n assms(3)] by (simp_all add: rnd_def)
  have "of_int n < (of_int (2 ^ 1024) :: rat)"
    unfolding of_int_less_iff using assms(3) by (rule less_trans) simp
  with b have "\<bar>rnd x\<bar> < 2 ^ 1024" by simp
  with b show ?thesis by (simp add: f64_round_Fin)
qed

lemma f64_of_int_exact: "0 \<le> n \<Longrightarrow> n < 2 ^ 53 \<Longrightarrow> f64_of_int n = Fin (of_int n)"
  using rnd_range [of "of_int n" n] rnd_of_int [of n] by (simp add: f64_of_int_def)

text \<open>The constants of the sources, as their nearest doubles.\<close>

lemma f64_constants:
  "f64_round (9 / 10) = Fin (8106479329266893 / 9007199254740992)"
  "f64_round (8 / 10) = Fin (3602879701896397 / 4503599627370496)"
  "f64_round (7 / 10) = Fin (3152519739159347 / 4503599627370496)"
  "f64_round (2 / 10) = Fin (3602879701896397 / 18014398509481984)"
  using f64_roundI [of "- 1" "9 / 10" 8106479329266893]
    f64_roundI [of "- 1" "8 / 10" 7205759403792794]
    f64_roundI [of "- 1" "7 / 10" 6305039478318694]
    f64_roundI [of "- 3" "2 / 10" 7205759403792794]
  by (simp_all add: pow2_def)

section \<open>Representable values\<close>

definition dyadic53 :: "rat \<Rightarrow> bool" where
  "dyadic53 x \<longleftrightarrow> (\<exists>m k. x = of_int m * pow2 k \<and> \<bar>m\<bar> \<le> 2 ^ 53 \<and> - 1074 \<le> k)"

lemma pow2_abs [simp]: "\<bar>pow2 k\<bar> = pow2 k"
  by (simp add: less_imp_le)

lemma round_even_minus: "round_even (- x) = - round_even x"
proof (cases "x = of_int \<lfloor>x\<rfloor>")
  case True
  then have "round_even x = \<lfloor>x\<rfloor>" "round_even (- x) = - \<lfloor>x\<rfloor>"
    by (metis round_even_of_int) (metis True of_int_minus round_even_of_int)
  then show ?thesis by simp
next
  case False
  then have "\<lfloor>- x\<rfloor> = - \<lfloor>x\<rfloor> - 1"
    by (simp add: floor_minus ceiling_altdef)
  then show ?thesis
    by (simp add: round_even_def Let_def)
qed

lemma rnd_minus: "rnd (- x) = - rnd x"
  by (simp add: rnd_def ulp_def round_even_minus)

lemma rnd_mono': "x \<le> y \<Longrightarrow> rnd x \<le> rnd y"
proof -
  assume le: "x \<le> y"
  have z: "rnd 0 = 0" by (simp add: rnd_def)
  consider "0 \<le> x" | "x \<le> 0" "0 \<le> y" | "y \<le> 0" by linarith
  then show ?thesis
  proof cases
    case 1
    then show ?thesis using le by (rule rnd_mono)
  next
    case 2
    then have "rnd 0 \<le> rnd y" "rnd 0 \<le> rnd (- x)" by (simp_all add: rnd_mono)
    with z show ?thesis by (simp add: rnd_minus)
  next
    case 3
    with le have "rnd (- y) \<le> rnd (- x)" by (intro rnd_mono) simp_all
    then show ?thesis by (simp add: rnd_minus)
  qed
qed

lemma dyadic53_rnd: "dyadic53 (rnd x)"
proof (cases "x = 0")
  case True
  have "rnd x = of_int 0 * pow2 0" using True by (simp add: rnd_def)
  then show ?thesis unfolding dyadic53_def by (intro exI [of _ 0] exI) auto
next
  case False
  let ?u = "ulp x"
  have pos: "0 < \<bar>x\<bar>" using False by simp
  have "flog2 \<bar>x\<bar> + 1 \<le> ?u + int 53" by (simp add: ulp_def)
  then have "\<bar>x\<bar> < pow2 (?u + int 53)"
    using flog2_bracket [OF pos] pow2_mono by (metis order_less_le_trans)
  then have "\<bar>x / pow2 ?u\<bar> < of_int (2 ^ 53)"
    unfolding pow2_add by (simp add: pos_divide_less_eq mult.commute)
  then have "x / pow2 ?u \<le> of_int (2 ^ 53)" "of_int (- (2 ^ 53)) \<le> x / pow2 ?u"
    unfolding abs_less_iff of_int_minus by linarith+
  then have "round_even (x / pow2 ?u) \<le> 2 ^ 53" "- (2 ^ 53) \<le> round_even (x / pow2 ?u)"
    by (blast intro: round_even_le_int round_even_ge_int)+
  then have "\<bar>round_even (x / pow2 ?u)\<bar> \<le> 2 ^ 53" by (simp add: abs_le_iff)
  moreover have "- 1074 \<le> ?u" by (simp add: ulp_def)
  ultimately show ?thesis using False unfolding dyadic53_def rnd_def by auto
qed

lemma rnd_exact_below:
  assumes "x = of_int m * pow2 k" and "\<bar>m\<bar> < 2 ^ 53" and "- 1074 \<le> k"
  shows "rnd x = x"
proof (cases "x = 0")
  case False
  define u where "u = ulp x"
  have pos: "0 < \<bar>x\<bar>" using False by simp
  have "of_int \<bar>m\<bar> < (of_int (2 ^ 53) :: rat)" using assms(2) by (simp only: of_int_less_iff)
  then have "\<bar>x\<bar> < pow2 (k + int 53)"
    unfolding pow2_add assms(1) abs_mult pow2_abs by (simp add: mult.commute)
  then have "flog2 \<bar>x\<bar> < k + 53"
    using flog2_bracket [OF pos] pow2_mono [of "k + 53" "flog2 \<bar>x\<bar>"]
    by (metis linorder_not_less of_nat_numeral order_less_le_trans order_less_irrefl order_trans)
  with assms(3) have u: "u \<le> k" by (simp add: ulp_def u_def)
  have xu: "x = of_int (m * 2 ^ nat (k - u)) * pow2 u"
    unfolding assms(1) pow2_split [OF u] by simp
  then have "x / pow2 u = of_int (m * 2 ^ nat (k - u))" by (metis nonzero_eq_divide_eq pow2_nonzero)
  then have "round_even (x / pow2 u) = m * 2 ^ nat (k - u)" by (simp only: round_even_of_int)
  then have "rnd x = of_int (m * 2 ^ nat (k - u)) * pow2 u" using False by (simp add: rnd_def u_def)
  also have "\<dots> = x" using xu by (rule sym)
  finally show ?thesis .
qed (simp add: rnd_def)

lemma rnd_dyadic53: "dyadic53 x \<Longrightarrow> rnd x = x"
proof -
  assume "dyadic53 x"
  then obtain m k where x: "x = of_int m * pow2 k" "\<bar>m\<bar> \<le> 2 ^ 53" "- 1074 \<le> k"
    by (auto simp: dyadic53_def)
  show ?thesis
  proof (cases "\<bar>m\<bar> < 2 ^ 53")
    case True
    with x show ?thesis by (blast intro: rnd_exact_below)
  next
    case False
    with x(2) have "\<bar>m\<bar> = 2 * 2 ^ 52" by simp
    then have "m = 2 * (sgn m * 2 ^ 52)" by (auto simp: abs_if sgn_if split: if_splits)
    then have "x = of_int (sgn m * 2 ^ 52) * pow2 (k + 1)"
      unfolding x(1) pow2_Suc by (metis (no_types, opaque_lifting) mult.assoc mult.left_commute of_int_mult of_int_numeral)
    then show ?thesis
    proof (rule rnd_exact_below)
      show "\<bar>sgn m * 2 ^ 52\<bar> < 2 ^ 53" by (simp add: sgn_if)
      show "- 1074 \<le> k + 1" using x(3) by simp
    qed
  qed
qed

lemma rnd_bound: "dyadic53 b \<Longrightarrow> x \<le> b \<Longrightarrow> rnd x \<le> b"
  using rnd_mono' [of x b] rnd_dyadic53 by simp

lemma rnd_bound_ge: "dyadic53 b \<Longrightarrow> b \<le> x \<Longrightarrow> b \<le> rnd x"
  using rnd_mono' [of b x] rnd_dyadic53 by simp

lemma dyadic53_int: "\<bar>n\<bar> \<le> 2 ^ 53 \<Longrightarrow> dyadic53 (of_int n)"
  unfolding dyadic53_def by (intro exI [of _ n] exI [of _ 0]) (simp add: pow2_def)

lemma dyadic53_pow2: "- 1074 \<le> k \<Longrightarrow> dyadic53 (pow2 k)"
  unfolding dyadic53_def by (intro exI [of _ 1] exI [of _ k]) simp

text \<open>Rounding never gives NaN, and is finite well below the largest value.\<close>

lemma f64_round_not_NaN [simp]: "f64_round x \<noteq> NaN"
  by (simp add: f64_round_def Let_def)

lemma f64_round_finite:
  assumes "\<bar>x\<bar> \<le> pow2 1000"
  shows "f64_round x = Fin (rnd x) \<and> \<bar>rnd x\<bar> \<le> pow2 1000"
proof -
  have "dyadic53 (pow2 1000)" by (rule dyadic53_pow2) simp
  then have "rnd x \<le> pow2 1000" "rnd (- x) \<le> pow2 1000"
    using assms by (auto intro: rnd_bound simp: abs_le_iff)
  then have "\<bar>rnd x\<bar> \<le> pow2 1000" by (simp add: rnd_minus abs_le_iff)
  moreover have "pow2 1000 < 2 ^ 1024"
  proof -
    have "(2 :: rat) ^ 1000 < 2 ^ 1024" by (rule power_strict_increasing) simp_all
    then show ?thesis by (simp add: pow2_def del: power_numeral)
  qed
  ultimately show ?thesis by (simp add: f64_round_Fin)
qed


section \<open>Magnitudes\<close>

text \<open>A finite value of magnitude at most \<open>2 ^ k\<close>.\<close>

definition bounded :: "int \<Rightarrow> f64 \<Rightarrow> bool" where
  "bounded k x \<longleftrightarrow> (\<exists>r. x = Fin r \<and> \<bar>r\<bar> \<le> pow2 k)"

lemma pow2_mult: "pow2 (j + k) = pow2 j * pow2 k"
proof (cases "0 \<le> k")
  case True
  then show ?thesis using pow2_add [of j "nat k"] by (simp add: pow2_def [of k])
next
  case False
  then have "pow2 j = pow2 (j + k) * 2 ^ nat (- k)" using pow2_add [of "j + k" "nat (- k)"] by simp
  with False show ?thesis by (simp add: pow2_def [of k])
qed

lemma bounded_Fin: "bounded k (Fin r) \<longleftrightarrow> \<bar>r\<bar> \<le> pow2 k"
  by (simp add: bounded_def)

lemma boundedE: "bounded k x \<Longrightarrow> (\<And>r. x = Fin r \<Longrightarrow> \<bar>r\<bar> \<le> pow2 k \<Longrightarrow> P) \<Longrightarrow> P"
  by (auto simp: bounded_def)

lemma bounded_mono: "bounded j x \<Longrightarrow> j \<le> k \<Longrightarrow> bounded k x"
  using pow2_mono [of j k] by (auto simp: bounded_def)

lemma bounded_round:
  assumes "\<bar>r\<bar> \<le> pow2 k" and "- 1074 \<le> k" and "k \<le> 1000"
  shows "bounded k (f64_round r)"
proof -
  have "\<bar>r\<bar> \<le> pow2 1000" using assms(1) pow2_mono [OF assms(3)] by linarith
  then have "f64_round r = Fin (rnd r)" using f64_round_finite by blast
  moreover have "rnd r \<le> pow2 k" "rnd (- r) \<le> pow2 k"
    using assms by (auto intro: rnd_bound dyadic53_pow2 simp: abs_le_iff)
  ultimately show ?thesis by (simp add: bounded_Fin rnd_minus abs_le_iff)
qed

lemma bounded_add:
  assumes "bounded k x" and "bounded k y" and "- 1074 \<le> k" and "k < 1000"
  shows "bounded (k + 1) (f64_add x y)"
proof -
  from assms obtain r s where "x = Fin r" "y = Fin s" "\<bar>r\<bar> \<le> pow2 k" "\<bar>s\<bar> \<le> pow2 k"
    by (auto simp: bounded_def)
  moreover have "\<bar>r + s\<bar> \<le> pow2 (k + 1)"
    using calculation abs_triangle_ineq [of r s] unfolding pow2_Suc by linarith
  ultimately show ?thesis using assms by (simp add: bounded_round)
qed

lemma bounded_mul:
  assumes "bounded j x" and "bounded k y" and "- 1074 \<le> j + k" and "j + k \<le> 1000"
  shows "bounded (j + k) (f64_mul x y)"
proof -
  from assms obtain r s where "x = Fin r" "y = Fin s" "\<bar>r\<bar> \<le> pow2 j" "\<bar>s\<bar> \<le> pow2 k"
    by (auto simp: bounded_def)
  moreover have "\<bar>r * s\<bar> \<le> pow2 (j + k)"
    unfolding pow2_mult abs_mult using calculation by (intro mult_mono) (simp_all add: less_imp_le)
  ultimately show ?thesis using assms by (simp add: bounded_round)
qed

lemma bounded_div:
  assumes "bounded k x" and "1 \<le> \<bar>s\<bar>" and "- 1074 \<le> k" and "k \<le> 1000"
  shows "bounded k (f64_div x (Fin s))"
proof -
  from assms(1) obtain r where r: "x = Fin r" "\<bar>r\<bar> \<le> pow2 k" by (rule boundedE)
  have "\<bar>r / s\<bar> \<le> \<bar>r\<bar> / 1"
    unfolding abs_divide using assms(2) by (intro divide_left_mono) auto
  with r assms show ?thesis by (auto intro: bounded_round)
qed

lemma bounded_neg [simp]: "bounded k (f64_neg x) \<longleftrightarrow> bounded k x"
  by (cases x) (simp_all add: bounded_def)

lemma f64_add_not_NaN:
  "bounded k y \<Longrightarrow> x \<noteq> NaN \<Longrightarrow> f64_add x y \<noteq> NaN"
  "bounded k x \<Longrightarrow> y \<noteq> NaN \<Longrightarrow> f64_add x y \<noteq> NaN"
  by (cases x; cases y; simp add: bounded_def)+

lemma f64_sub_not_NaN: "bounded k y \<Longrightarrow> x \<noteq> NaN \<Longrightarrow> f64_sub x y \<noteq> NaN"
  unfolding f64_sub_def by (rule f64_add_not_NaN(1)) simp_all

lemma f64_of_int_rep: "\<bar>n\<bar> \<le> 2 ^ 53 \<Longrightarrow> f64_round (of_int n) = Fin (of_int n)"
proof -
  assume n: "\<bar>n\<bar> \<le> 2 ^ 53"
  have "of_int \<bar>n\<bar> \<le> (of_int (2 ^ 53) :: rat)" using n by (simp only: of_int_le_iff)
  also have "\<dots> = pow2 53" by (simp add: pow2_def)
  also have "\<dots> \<le> pow2 1000" by (rule pow2_mono) simp
  finally have "f64_round (of_int n) = Fin (rnd (of_int n))" using f64_round_finite by simp
  with rnd_dyadic53 [OF dyadic53_int [OF n]] show ?thesis by simp
qed

end
