(* ===== verification/Interfaces.thy ===== *)
theory Interfaces
  imports Prelude
begin

text \<open>
  The contracts between components. \<open>keyed_store\<close> is a map whose values carry their own key
  (blocks by header hash, mempool transactions by ID, peers by ID); \<open>kv_store\<close> is the
  \<open>StateDatabase\<close> interface of \<open>state_manager.go\<close>; each is extended by deletion. The clients'
  lemmas (what a run of writes leaves behind) are proved here once, over the laws.
\<close>

locale keyed_store =
  fixes put :: "'v \<Rightarrow> 's \<Rightarrow> 's"
    and get :: "'s \<Rightarrow> 'k \<Rightarrow> 'v option"
    and key :: "'v \<Rightarrow> 'k"
  assumes get_put: "get (put v s) k = (if k = key v then Some v else get s k)"
begin

lemma get_fold_other: "k \<notin> key ` set vs \<Longrightarrow> get (fold put vs s) k = get s k"
  by (induction vs arbitrary: s) (auto simp: get_put)

lemma get_fold_mem:
  "k \<in> key ` set vs \<Longrightarrow> \<exists>w \<in> set vs. key w = k \<and> get (fold put vs s) k = Some w"
proof (induction vs arbitrary: s)
  case Nil
  then show ?case by simp
next
  case (Cons u vs)
  show ?case
  proof (cases "k \<in> key ` set vs")
    case True
    with Cons.IH [OF True, of "put u s"] show ?thesis by auto
  next
    case False
    with Cons.prems show ?thesis by (simp add: get_fold_other get_put)
  qed
qed

lemma get_fold_defined: "get s k \<noteq> None \<Longrightarrow> get (fold put vs s) k \<noteq> None"
  by (induction vs arbitrary: s) (auto simp: get_put)

lemma get_fold_from:
  "get (fold put vs s) k = Some v \<Longrightarrow> get s k = Some v \<or> v \<in> set vs \<and> key v = k"
  by (induction vs arbitrary: s) (fastforce simp: get_put split: if_splits)+

lemma get_fold_distinct:
  "distinct (map key vs) \<Longrightarrow> v \<in> set vs \<Longrightarrow> get (fold put vs s) (key v) = Some v"
  by (induction vs arbitrary: s) (auto simp: get_fold_other get_put)

end

locale keyed_store_del = keyed_store put get key
  for put :: "'v \<Rightarrow> 's \<Rightarrow> 's" and get :: "'s \<Rightarrow> 'k \<Rightarrow> 'v option" and key :: "'v \<Rightarrow> 'k" +
  fixes del :: "'k \<Rightarrow> 's \<Rightarrow> 's"
  assumes get_del: "get (del k s) k' = (if k' = k then None else get s k')"
begin

lemma get_fold_del: "get (fold del ks s) k = (if k \<in> set ks then None else get s k)"
  by (induction ks arbitrary: s) (auto simp: get_del)

lemma del_put: "get (del (key v) (put v s)) = (get s)(key v := None)"
  by (auto simp: get_del get_put)

end

text \<open>The methods of \<open>StateDatabase\<close>, as state transformers; a missing key is \<open>None\<close>.\<close>

locale kv_store =
  fixes store :: "'k \<Rightarrow> 'v \<Rightarrow> 's \<Rightarrow> 's"
    and load :: "'s \<Rightarrow> 'k \<Rightarrow> 'v option"
  assumes load_store: "load (store k v s) k' = (if k' = k then Some v else load s k')"
begin

lemma load_fold_other:
  "k \<notin> fst ` set kvs \<Longrightarrow> load (fold (case_prod store) kvs s) k = load s k"
  by (induction kvs arbitrary: s) (auto simp: load_store)

lemma load_fold_mem:
  "distinct (map fst kvs) \<Longrightarrow> (k, v) \<in> set kvs \<Longrightarrow>
     load (fold (case_prod store) kvs s) k = Some v"
proof (induction kvs arbitrary: s)
  case Nil
  then show ?case by simp
next
  case (Cons kv kvs)
  show ?case
  proof (cases "(k, v) = kv")
    case True
    with Cons.prems have "k \<notin> fst ` set kvs" by (metis distinct.simps(2) fst_conv list.simps(9) set_map)
    with True show ?thesis by (auto simp: load_fold_other load_store)
  next
    case False
    with Cons show ?thesis by simp
  qed
qed

end

locale kv_store_del = kv_store store load
  for store :: "'k \<Rightarrow> 'v \<Rightarrow> 's \<Rightarrow> 's" and load :: "'s \<Rightarrow> 'k \<Rightarrow> 'v option" +
  fixes erase :: "'k \<Rightarrow> 's \<Rightarrow> 's"
  assumes load_erase: "load (erase k s) k' = (if k' = k then None else load s k')"
begin

lemma store_erase: "load (erase k (store k v s)) = (load s)(k := None)"
  by (auto simp: load_erase load_store)

end

text \<open>
  An approximate membership filter: adding never fails on a well-formed filter, and what was
  added stays in.
\<close>

locale membership_filter =
  fixes wf_filter :: "'s \<Rightarrow> bool"
    and add :: "'e \<Rightarrow> 's \<Rightarrow> 's res"
    and mem :: "'e \<Rightarrow> 's \<Rightarrow> bool res"
  assumes add_wf: "wf_filter s \<Longrightarrow> \<exists>s'. add x s = Ok s' \<and> wf_filter s'"
    and mem_wf: "wf_filter s \<Longrightarrow> \<exists>b. mem x s = Ok b"
    and mem_add: "wf_filter s \<Longrightarrow> add x s = Ok s' \<Longrightarrow> mem x s' = Ok True"
    and mem_mono: "wf_filter s \<Longrightarrow> add x s = Ok s' \<Longrightarrow> mem y s = Ok True \<Longrightarrow> mem y s' = Ok True"
begin

lemma add_all_wf: "wf_filter s \<Longrightarrow> \<exists>s'. fold_res add xs s = Ok s' \<and> wf_filter s'"
  by (rule fold_res_inv) (auto intro: add_wf)

lemma mem_add_all_mono:
  "wf_filter s \<Longrightarrow> fold_res add xs s = Ok s' \<Longrightarrow> mem y s = Ok True \<Longrightarrow> mem y s' = Ok True"
proof (induction xs arbitrary: s)
  case (Cons x xs)
  from add_wf [OF Cons.prems(1)] obtain t where "add x s = Ok t" "wf_filter t" by blast
  with Cons mem_mono show ?case by fastforce
qed simp

lemma mem_add_all:
  "wf_filter s \<Longrightarrow> fold_res add xs s = Ok s' \<Longrightarrow> x \<in> set xs \<Longrightarrow> mem x s' = Ok True"
proof (induction xs arbitrary: s)
  case (Cons y xs)
  from add_wf [OF Cons.prems(1)] obtain t where t: "add y s = Ok t" "wf_filter t" by blast
  with Cons.prems have rest: "fold_res add xs t = Ok s'" by simp
  show ?case
  proof (cases "x = y")
    case True
    with t Cons.prems(1) have "mem x t = Ok True" by (blast intro: mem_add)
    with rest t show ?thesis by (blast intro: mem_add_all_mono)
  next
    case False
    with Cons rest t show ?thesis by simp
  qed
qed simp

end

end
