(* ===== verification/Network_Pool.thy ===== *)
theory Network_Pool
  imports Core_Types Go_Float Interfaces
begin

text \<open>
  The parts of \<open>network/\<close> below the node: peers and node configuration, the mempool of \<open>node.go\<close>,
  \<open>p2p.go\<close>, and the state of \<open>sync.go\<close>. A \<open>net.Conn\<close> is a number; a channel that is only closed is
  the flag that says it was; a second close panics.
\<close>

section \<open>Data\<close>

record peer =
  pr_ID :: string
  pr_Address :: string
  pr_Connection :: nat
  pr_Version :: u32
  pr_LastSeen :: go_time
  pr_ReputationScore :: f64

record node_config =
  nc_ListenAddr :: string
  nc_MaxPeers :: int
  nc_NetworkID :: u32
  nc_NodeID :: string
  nc_BootstrapPeers :: "string list"

text \<open>\<open>DefaultConfig\<close> with the 32 random bytes of \<open>generateNodeID\<close> as an argument.\<close>

definition generateNodeID :: "bytes \<Rightarrow> string" where
  "generateNodeID random = hex_encode random"

definition DefaultConfig :: "bytes \<Rightarrow> node_config" where
  "DefaultConfig random =
     \<lparr>nc_ListenAddr = ''0.0.0.0:8080'', nc_MaxPeers = 50, nc_NetworkID = 1,
      nc_NodeID = generateNodeID random, nc_BootstrapPeers = []\<rparr>"

definition close_channel :: "bool \<Rightarrow> bool res" where
  "close_channel shut = (if shut then Panic CloseOfClosed else Ok True)"

section \<open>The mempool\<close>

record mempool =
  mp_transactions :: "(hash, transaction) fmap"
  mp_maxSize :: int

definition NewMempool :: "int \<Rightarrow> mempool" where
  "NewMempool maxSize = \<lparr>mp_transactions = fmempty, mp_maxSize = maxSize\<rparr>"

definition insertTransaction :: "transaction \<Rightarrow> mempool \<Rightarrow> mempool" where
  "insertTransaction tx m = m\<lparr>mp_transactions := fmupd (tx_ID tx) tx (mp_transactions m)\<rparr>"

definition AddTransaction :: "transaction \<Rightarrow> mempool \<Rightarrow> mempool \<times> unit res" where
  "AddTransaction tx m =
     (if int (fmlen (mp_transactions m)) \<ge> mp_maxSize m then (m, Fail (ErrorString ''mempool full''))
      else (insertTransaction tx m, Ok ()))"

text \<open>The loop with its counter, over the entries in the order of the range.\<close>

fun take_transactions :: "int \<Rightarrow> int \<Rightarrow> (hash \<times> transaction) list \<Rightarrow> transaction list" where
  "take_transactions limit count [] = []"
| "take_transactions limit count ((_, tx) # es) =
     (if count \<ge> limit then [] else tx # take_transactions limit (count + 1) es)"

text \<open>
  \<open>make\<close> panics (\<open>cap out of range\<close>) for a negative capacity and for one whose elements would not fit
  the largest allocation. On a 64-bit machine that is \<open>2 ^ 48\<close> bytes, and the slice holds pointers of
  eight bytes.
\<close>

definition make_cap_ok :: "int \<Rightarrow> int \<Rightarrow> bool" where
  "make_cap_ok elem_size n \<longleftrightarrow> 0 \<le> n \<and> elem_size * n \<le> 2 ^ 48"

definition GetTransactions :: "(hash \<times> transaction) list \<Rightarrow> int \<Rightarrow> transaction list res" where
  "GetTransactions es limit =
     (if \<not> make_cap_ok 8 limit then Panic SliceOutOfRange else Ok (take_transactions limit 0 es))"

lemma GetTransactions_100: "GetTransactions es 100 = Ok (take_transactions 100 0 es)"
  by (simp add: GetTransactions_def make_cap_ok_def)

definition RemoveTransaction :: "hash \<Rightarrow> mempool \<Rightarrow> mempool" where
  "RemoveTransaction txID m = m\<lparr>mp_transactions := fmdrop txID (mp_transactions m)\<rparr>"

definition pooled :: "mempool \<Rightarrow> hash \<Rightarrow> transaction option" where
  "pooled m h = fmlookup (mp_transactions m) h"

interpretation pool: keyed_store_del insertTransaction pooled tx_ID RemoveTransaction
  by unfold_locales (simp_all add: insertTransaction_def pooled_def RemoveTransaction_def)

section \<open>The peer table of \<open>p2p.go\<close>\<close>

record p2p_network =
  p2p_config :: node_config
  p2p_listener :: "nat option"
  p2p_peers :: "(string, peer) fmap"
  p2p_running :: bool
  p2p_stopClosed :: bool
  p2p_closed :: "nat list" \<comment> \<open>the listeners that have been closed\<close>

definition NewP2PNetwork :: "node_config \<Rightarrow> p2p_network" where
  "NewP2PNetwork config =
     \<lparr>p2p_config = config, p2p_listener = None, p2p_peers = fmempty, p2p_running = False,
      p2p_stopClosed = False, p2p_closed = []\<rparr>"

definition p2p_Start :: "nat \<Rightarrow> p2p_network \<Rightarrow> p2p_network" where
  "p2p_Start listener p2p = p2p\<lparr>p2p_listener := Some listener, p2p_running := True\<rparr>"

text \<open>
  \<open>Stop\<close> closes the listener before the channel; its error is ignored. A listener is a number, and a
  closed one stays closed: \<open>p2p_closed\<close> is that part of the state of the \<open>net\<close> package.
\<close>

definition close_listener :: "p2p_network \<Rightarrow> p2p_network" where
  "close_listener p2p =
     (case p2p_listener p2p of
        Some l \<Rightarrow> p2p\<lparr>p2p_closed := l # p2p_closed p2p\<rparr>
      | None \<Rightarrow> p2p)"

definition p2p_Stop :: "p2p_network \<Rightarrow> p2p_network \<times> unit res" where
  "p2p_Stop p2p =
     (let p2p = close_listener (p2p\<lparr>p2p_running := False\<rparr>) in
      case close_channel (p2p_stopClosed p2p) of
        Ok shut \<Rightarrow> (p2p\<lparr>p2p_stopClosed := shut\<rparr>, Ok ())
      | Fail e \<Rightarrow> (p2p, Fail e)
      | Panic p \<Rightarrow> (p2p, Panic p))"

lemma close_listener_keeps [simp]:
  "p2p_config (close_listener p2p) = p2p_config p2p" "p2p_listener (close_listener p2p) = p2p_listener p2p"
  "p2p_peers (close_listener p2p) = p2p_peers p2p" "p2p_running (close_listener p2p) = p2p_running p2p"
  "p2p_stopClosed (close_listener p2p) = p2p_stopClosed p2p"
  by (simp_all add: close_listener_def split: option.split)

lemma set_p2p_closed_close_listener [simp]:
  "set (p2p_closed (close_listener p2p)) = set (p2p_closed p2p) \<union> set_option (p2p_listener p2p)"
  by (simp add: close_listener_def split: option.split)

definition AddPeer :: "peer \<Rightarrow> p2p_network \<Rightarrow> p2p_network" where
  "AddPeer peer p2p = p2p\<lparr>p2p_peers := fmupd (pr_ID peer) peer (p2p_peers p2p)\<rparr>"

definition RemovePeer :: "string \<Rightarrow> p2p_network \<Rightarrow> p2p_network" where
  "RemovePeer i p2p = p2p\<lparr>p2p_peers := fmdrop i (p2p_peers p2p)\<rparr>"

definition GetPeer :: "p2p_network \<Rightarrow> string \<Rightarrow> peer option" where
  "GetPeer p2p i = fmlookup (p2p_peers p2p) i"

definition GetPeers :: "(string \<times> peer) list \<Rightarrow> peer list" where
  "GetPeers es = map snd es"

interpretation peers: keyed_store_del AddPeer GetPeer pr_ID RemovePeer
  by unfold_locales (simp_all add: AddPeer_def GetPeer_def RemovePeer_def)

section \<open>The sync manager\<close>

record sync_manager =
  sy_started :: bool \<comment> \<open>the field \<open>node\<close> is set\<close>
  sy_syncing :: bool
  sy_stopClosed :: bool

definition NewSyncManager :: sync_manager where
  "NewSyncManager = \<lparr>sy_started = False, sy_syncing = False, sy_stopClosed = False\<rparr>"

definition sync_Start :: "sync_manager \<Rightarrow> sync_manager" where
  "sync_Start sm = sm\<lparr>sy_started := True\<rparr>"

definition sync_Stop :: "sync_manager \<Rightarrow> sync_manager \<times> unit res" where
  "sync_Stop sm =
     (case close_channel (sy_stopClosed sm) of
        Ok shut \<Rightarrow> (sm\<lparr>sy_stopClosed := shut\<rparr>, Ok ())
      | Fail e \<Rightarrow> (sm, Fail e)
      | Panic p \<Rightarrow> (sm, Panic p))"

section \<open>Properties\<close>

lemma take_transactions_eq:
  "count \<le> limit \<Longrightarrow> take_transactions limit count es = map snd (take (nat (limit - count)) es)"
proof (induction limit count es rule: take_transactions.induct)
  case (2 limit count h tx es)
  show ?case
  proof (cases "count = limit")
    case False
    with 2 have "nat (limit - count) = Suc (nat (limit - (count + 1)))" by simp
    with 2 False show ?thesis by simp
  qed simp
qed simp

fun pool_ops :: "(transaction + hash) list \<Rightarrow> mempool \<Rightarrow> mempool" where
  "pool_ops [] m = m"
| "pool_ops (Inl tx # os) m = pool_ops os (fst (AddTransaction tx m))"
| "pool_ops (Inr h # os) m = pool_ops os (RemoveTransaction h m)"

definition pool_ok :: "mempool \<Rightarrow> bool" where
  "pool_ok m \<longleftrightarrow> int (fmlen (mp_transactions m)) \<le> max 0 (mp_maxSize m) \<and>
     (\<forall>h tx. pooled m h = Some tx \<longrightarrow> tx_ID tx = h)"

lemma pool_ok_new: "pool_ok (NewMempool n)"
  by (simp add: pool_ok_def NewMempool_def pooled_def)

lemma pool_ok_AddTransaction: "pool_ok m \<Longrightarrow> pool_ok (fst (AddTransaction tx m))"
  by (auto simp: AddTransaction_def pool_ok_def pool.get_put split: if_splits)
    (auto simp: insertTransaction_def max_def split: if_splits)

lemma pool_ok_RemoveTransaction: "pool_ok m \<Longrightarrow> pool_ok (RemoveTransaction h m)"
  by (auto simp: pool_ok_def pool.get_del split: if_splits) (auto simp: RemoveTransaction_def)

lemma mp_maxSize_ops [simp]:
  "mp_maxSize (fst (AddTransaction tx m)) = mp_maxSize m" "mp_maxSize (RemoveTransaction h m) = mp_maxSize m"
  by (simp_all add: AddTransaction_def insertTransaction_def RemoveTransaction_def)

lemma pool_ok_ops: "pool_ok m \<Longrightarrow> pool_ok (pool_ops os m) \<and> mp_maxSize (pool_ops os m) = mp_maxSize m"
  by (induction os m rule: pool_ops.induct)
    (simp_all add: pool_ok_AddTransaction pool_ok_RemoveTransaction)

text \<open>
  C28: after any additions and removals the mempool files every transaction under its ID and holds at most
  \<open>maxSize\<close> of them. An addition is refused exactly when the pool is full, one that would only replace
  a pooled ID included, and then changes nothing; otherwise it replaces that ID alone. A batch holds
  as many pooled transactions as the limit allows, none twice; a limit that is negative or above
  \<open>2 ^ 45\<close> makes \<open>make\<close> panic.
\<close>

theorem mempool_contract:
  assumes "m = pool_ops os (NewMempool n)" and "range_order es (mp_transactions m)"
  shows "int (fmlen (mp_transactions m)) \<le> max 0 n \<and>
    (\<forall>h tx. pooled m h = Some tx \<longrightarrow> tx_ID tx = h) \<and>
    (AddTransaction tx m = (if n \<le> int (fmlen (mp_transactions m)) then (m, Fail (ErrorString ''mempool full''))
       else (insertTransaction tx m, Ok ()))) \<and>
    (\<forall>h. pooled (insertTransaction tx m) h = (if h = tx_ID tx then Some tx else pooled m h)) \<and>
    (if 0 \<le> limit \<and> limit \<le> 2 ^ 45
     then \<exists>txs. GetTransactions es limit = Ok txs \<and> distinct (map tx_ID txs) \<and>
       length txs = min (nat limit) (fmlen (mp_transactions m)) \<and>
       (\<forall>t \<in> set txs. pooled m (tx_ID t) = Some t)
     else GetTransactions es limit = Panic SliceOutOfRange)"
proof (intro conjI)
  have ok: "pool_ok m" "mp_maxSize m = n"
    using pool_ok_ops [OF pool_ok_new, of os n] by (simp_all add: assms(1) NewMempool_def)
  then show "int (fmlen (mp_transactions m)) \<le> max 0 n" "\<forall>h tx. pooled m h = Some tx \<longrightarrow> tx_ID tx = h"
    by (auto simp: pool_ok_def)
  show "AddTransaction tx m = (if n \<le> int (fmlen (mp_transactions m)) then (m, Fail (ErrorString ''mempool full''))
       else (insertTransaction tx m, Ok ()))"
    by (simp add: AddTransaction_def ok(2))
  show "\<forall>h. pooled (insertTransaction tx m) h = (if h = tx_ID tx then Some tx else pooled m h)"
    by (simp add: pool.get_put)
  let ?txs = "map snd (take (nat limit) es)"
  have get: "GetTransactions es limit = (if 0 \<le> limit \<and> limit \<le> 2 ^ 45 then Ok ?txs else Panic SliceOutOfRange)"
    by (simp add: GetTransactions_def make_cap_ok_def take_transactions_eq)
  have mem: "tx_ID t = h \<and> pooled m h = Some t" if "(h, t) \<in> set es" for h t
    using that ok(1) range_order_lookup [OF assms(2)] by (auto simp: pool_ok_def pooled_def)
  then have "map (tx_ID \<circ> snd) es = map fst es" by (auto intro!: map_cong)
  then have "distinct (map (tx_ID \<circ> snd) es)" using assms(2) by (simp only: range_order_def)
  then have "distinct (map tx_ID ?txs)" by (simp add: take_map [symmetric] distinct_take)
  moreover have "length es = fmlen (mp_transactions m)"
    using assms(2) range_order_keys [OF assms(2)]
    by (metis distinct_card fmlen_def length_map range_order_def set_map)
  moreover have "\<forall>t \<in> set ?txs. pooled m (tx_ID t) = Some t"
    using mem by (auto dest!: in_set_takeD)
  ultimately have "distinct (map tx_ID ?txs) \<and> length ?txs = min (nat limit) (fmlen (mp_transactions m)) \<and>
       (\<forall>t \<in> set ?txs. pooled m (tx_ID t) = Some t)" by simp
  then show "if 0 \<le> limit \<and> limit \<le> 2 ^ 45
     then \<exists>txs. GetTransactions es limit = Ok txs \<and> distinct (map tx_ID txs) \<and>
       length txs = min (nat limit) (fmlen (mp_transactions m)) \<and>
       (\<forall>t \<in> set txs. pooled m (tx_ID t) = Some t)
     else GetTransactions es limit = Panic SliceOutOfRange"
    unfolding get by (auto intro!: exI [of _ ?txs])
qed

definition demo_tx :: "hash \<Rightarrow> transaction" where
  "demo_tx h = \<lparr>tx_ID = h, tx_From = 1, tx_To = 2, tx_Value = 3, tx_Nonce = 0, tx_Timestamp = 0, tx_Signature = []\<rparr>"

theorem mempool_contract_witness:
  "AddTransaction (demo_tx 1) (pool_ops [Inl (demo_tx 1)] (NewMempool 1)) =
     (pool_ops [Inl (demo_tx 1)] (NewMempool 1), Fail (ErrorString ''mempool full''))"
proof -
  let ?m = "pool_ops [Inl (demo_tx 1)] (NewMempool 1)"
  have m: "mp_transactions ?m = fmupd 1 (demo_tx 1) fmempty"
    by (simp add: AddTransaction_def NewMempool_def insertTransaction_def demo_tx_def)
  then have "range_order [(1, demo_tx 1)] (mp_transactions ?m)" by (simp add: range_order_def)
  note c = mempool_contract [OF refl this, of "demo_tx 1" 0, THEN conjunct2, THEN conjunct2, THEN conjunct1]
  have "fmlen (mp_transactions ?m) = 1" unfolding m by simp
  with c show ?thesis by (simp del: pool_ops.simps)
qed

end
