(* ===== verification/Core_Chain.thy ===== *)
theory Core_Chain
  imports Core_Types Interfaces
begin

text \<open>
  \<open>core/blockchain.go\<close>: the block store with its hash and height indexes, the orphan pool,
  validation, insertion with adoption of orphans, and the lookups. The \<open>RWMutex\<close> makes every
  exported method one atomic step on the state \<open>blockchain\<close>. Blocks are pointers in the code;
  nothing under \<open>src/\<close> writes to a block after handing it over, so they are values here.
\<close>

section \<open>State\<close>

record shard_chain =
  sc_ShardID :: u32
  sc_Blocks :: "(hash, block) fmap"
  sc_HeightToHash :: "(u64, hash) fmap"
  sc_CurrentHeight :: u64
  sc_ParentShard :: u32
  sc_ChildShards :: "u32 list"

record blockchain =
  bc_blocks :: "(hash, block) fmap"
  bc_heightToHash :: "(u64, hash) fmap"
  bc_currentHeight :: u64
  bc_genesis :: "block option"
  bc_shards :: "(u32, shard_chain) fmap"
  bc_orphanBlocks :: "(hash, block) fmap"

section \<open>Validation\<close>

definition validateBlockHeader :: "i64 \<Rightarrow> block_header \<Rightarrow> unit res" where
  "validateBlockHeader now h =
     (if hdr_Version h = 0 then Fail (ErrorString ''invalid block version'')
      else if sint (hdr_Timestamp h) > sint (now + 300)
        then Fail (ErrorString ''block timestamp too far in future'')
      else if hdr_Difficulty h = 0 then Fail (ErrorString ''invalid difficulty'')
      else Ok ())"

definition validateTransaction :: "transaction \<Rightarrow> unit res" where
  "validateTransaction tx =
     (if tx_ID tx = 0 then Fail (ErrorString ''invalid transaction ID'')
      else if tx_From tx = 0 \<or> tx_To tx = 0 then Fail (ErrorString ''invalid addresses'')
      else if length (tx_Signature tx) = 0 then Fail (ErrorString ''missing signature'')
      else Ok ())"

fun validateTransactions :: "transaction list \<Rightarrow> unit res" where
  "validateTransactions [] = Ok ()"
| "validateTransactions (tx # txs) =
     bind_res (validateTransaction tx) (\<lambda>_. validateTransactions txs)"

text \<open>\<open>validateBlock\<close> also writes: a block with an unknown parent goes to the orphan pool.\<close>

definition validateBlock :: "i64 \<Rightarrow> block \<Rightarrow> blockchain \<Rightarrow> blockchain \<times> unit res" where
  "validateBlock now b bc =
     (let h = blk_Header b; prev = hdr_PrevBlockHash h in
      if hdr_Height h > 0 \<and> fmlookup (bc_blocks bc) prev = None
      then (bc\<lparr>bc_orphanBlocks := fmupd prev b (bc_orphanBlocks bc)\<rparr>,
            Fail (ErrorString ''previous block not found''))
      else (bc, bind_res (validateBlockHeader now h)
                  (\<lambda>_. validateTransactions (blk_Transactions b))))"

section \<open>Insertion\<close>

text \<open>The part of \<open>addBlock\<close> before the orphan pool is looked at.\<close>

definition storeBlock :: "digest \<Rightarrow> block \<Rightarrow> blockchain \<Rightarrow> blockchain" where
  "storeBlock sha b bc =
     (let blockHash = header_hash sha (blk_Header b); height = hdr_Height (blk_Header b) in
      bc\<lparr>bc_blocks := fmupd blockHash b (bc_blocks bc),
         bc_heightToHash := fmupd height blockHash (bc_heightToHash bc),
         bc_currentHeight :=
           (if height > bc_currentHeight bc then height else bc_currentHeight bc)\<rparr>)"

lemma storeBlock_orphans [simp]: "bc_orphanBlocks (storeBlock sha b bc) = bc_orphanBlocks bc"
  by (simp add: storeBlock_def Let_def)

text \<open>
  \<open>addBlock\<close> and \<open>processOrphanBlocks\<close> call each other, and the second call of
  \<open>processOrphanBlocks\<close> runs on the state the first call left. \<open>addBlock\<close> always returns
  \<open>nil\<close>, so the test \<open>err == nil\<close> succeeds.
\<close>

function addBlock :: "digest \<Rightarrow> block \<Rightarrow> blockchain \<Rightarrow> blockchain"
  and processOrphanBlocks :: "digest \<Rightarrow> hash \<Rightarrow> blockchain \<Rightarrow> blockchain" where
  "addBlock sha b bc =
     processOrphanBlocks sha (header_hash sha (blk_Header b)) (storeBlock sha b bc)"
| "processOrphanBlocks sha parentHash bc =
     (case fmlookup (bc_orphanBlocks bc) parentHash of
        None \<Rightarrow> bc
      | Some orphan \<Rightarrow>
          processOrphanBlocks sha (header_hash sha (blk_Header orphan))
            (addBlock sha orphan
               (bc\<lparr>bc_orphanBlocks := fmdrop parentHash (bc_orphanBlocks bc)\<rparr>)))"
  by pat_completeness auto

termination
proof -
  have shrink: "addBlock_processOrphanBlocks_dom (Inl (sha, b, bc)) \<Longrightarrow>
      fmlen (bc_orphanBlocks (addBlock sha b bc)) \<le> fmlen (bc_orphanBlocks bc)"
    and "addBlock_processOrphanBlocks_dom (Inr (sha', p, bc')) \<Longrightarrow>
      fmlen (bc_orphanBlocks (processOrphanBlocks sha' p bc')) \<le> fmlen (bc_orphanBlocks bc')"
    for sha b bc and sha' p bc'
    \<comment> \<open>where the recursion returns, it has not enlarged the orphan pool\<close>
  proof (induction sha b bc and sha' p bc' rule: addBlock_processOrphanBlocks.pinduct)
    case (1 sha b bc)
    then show ?case by (simp add: addBlock.psimps)
  next
    case (2 sha p bc)
    then show ?case
      by (auto simp: processOrphanBlocks.psimps split: option.split intro: order_trans)
  qed
  show ?thesis
  proof (relation "measure (\<lambda>x. case x of
        Inl (_, _, bc) \<Rightarrow> 2 * fmlen (bc_orphanBlocks bc) + 1
      | Inr (_, _, bc) \<Rightarrow> 2 * fmlen (bc_orphanBlocks bc))", goal_cases)
    case (3 sha p bc orphan)
    then have "fmlen (fmdrop p (bc_orphanBlocks bc)) < fmlen (bc_orphanBlocks bc)"
      by (simp add: fmlen_drop_less del: fmlen_drop)
    then show ?case by (simp del: fmlen_drop)
  next
    case (4 sha p bc orphan)
    then have "fmlen (fmdrop p (bc_orphanBlocks bc)) < fmlen (bc_orphanBlocks bc)"
      by (simp add: fmlen_drop_less del: fmlen_drop)
    with shrink [OF 4(2)] show ?case by (simp del: fmlen_drop)
  qed simp_all
qed

declare addBlock.simps [simp del] processOrphanBlocks.simps [simp del]

section \<open>The exported operations\<close>

definition AddBlock :: "digest \<Rightarrow> i64 \<Rightarrow> block \<Rightarrow> blockchain \<Rightarrow> blockchain \<times> unit res" where
  "AddBlock sha now b bc =
     (case validateBlock now b bc of
        (bc', Ok _) \<Rightarrow>
          (let expectedHeight = bc_currentHeight bc' + 1; height = hdr_Height (blk_Header b) in
           if height \<noteq> expectedHeight then (bc', Fail (ErrBlockHeight expectedHeight height))
           else (addBlock sha b bc', Ok ()))
      | (bc', r) \<Rightarrow> (bc', r))"

definition genesisBlock :: "digest \<Rightarrow> i64 \<Rightarrow> block" where
  "genesisBlock sha now =
     \<lparr>blk_Header =
        \<lparr>hdr_Version = 1, hdr_Height = 0, hdr_Timestamp = now, hdr_PrevBlockHash = 0,
         hdr_MerkleRoot = ComputeHash sha (string_bytes ''genesis''),
         hdr_StateRoot = 0, hdr_AccumulatorRoot = 0, hdr_Nonce = 0, hdr_Difficulty = 1,
         hdr_ShardID = 0, hdr_CrossShardLinks = []\<rparr>,
      blk_Transactions = []\<rparr>"

definition createGenesisBlock :: "digest \<Rightarrow> i64 \<Rightarrow> blockchain \<Rightarrow> blockchain" where
  "createGenesisBlock sha now bc =
     (let genesis = genesisBlock sha now in
      addBlock sha genesis (bc\<lparr>bc_genesis := Some genesis\<rparr>))"

definition NewBlockchain :: "digest \<Rightarrow> i64 \<Rightarrow> blockchain" where
  "NewBlockchain sha now =
     createGenesisBlock sha now
       \<lparr>bc_blocks = fmempty, bc_heightToHash = fmempty, bc_currentHeight = 0,
        bc_genesis = None, bc_shards = fmempty, bc_orphanBlocks = fmempty\<rparr>"

definition GetBlock :: "hash \<Rightarrow> blockchain \<Rightarrow> block res" where
  "GetBlock h bc =
     (case fmlookup (bc_blocks bc) h of
        None \<Rightarrow> Fail (ErrorString ''block not found'')
      | Some b \<Rightarrow> Ok b)"

text \<open>\<open>GetBlockByHeight\<close> returns \<open>bc.blocks[hash]\<close>, which could be the nil pointer \<open>None\<close>.\<close>

definition GetBlockByHeight :: "u64 \<Rightarrow> blockchain \<Rightarrow> block option res" where
  "GetBlockByHeight n bc =
     (case fmlookup (bc_heightToHash bc) n of
        None \<Rightarrow> Fail (ErrorString ''block not found'')
      | Some h \<Rightarrow> Ok (fmlookup (bc_blocks bc) h))"

definition GetCurrentHeight :: "blockchain \<Rightarrow> u64" where
  "GetCurrentHeight bc = bc_currentHeight bc"

lemmas chain_op_defs = AddBlock_def validateBlock_def GetBlock_def GetBlockByHeight_def
  GetCurrentHeight_def storeBlock_def

section \<open>Adoption of orphans, specified\<close>

text \<open>
  The orphans adopted after a block with hash \<open>h\<close> became known: the one waiting for \<open>h\<close>,
  then the one waiting for that one, and so on, each taken out of the pool.
\<close>

function orphan_chain :: "digest \<Rightarrow> hash \<Rightarrow> (hash, block) fmap \<Rightarrow> block list" where
  "orphan_chain sha h os =
     (case fmlookup os h of
        None \<Rightarrow> []
      | Some orphan \<Rightarrow>
          orphan # orphan_chain sha (header_hash sha (blk_Header orphan)) (fmdrop h os))"
  by pat_completeness auto
termination
  by (relation "measure (\<lambda>(_, _, os). fmlen os)") (simp_all add: fmlen_drop_less del: fmlen_drop)

function orphan_rest :: "digest \<Rightarrow> hash \<Rightarrow> (hash, block) fmap \<Rightarrow> (hash, block) fmap" where
  "orphan_rest sha h os =
     (case fmlookup os h of
        None \<Rightarrow> os
      | Some orphan \<Rightarrow> orphan_rest sha (header_hash sha (blk_Header orphan)) (fmdrop h os))"
  by pat_completeness auto
termination
  by (relation "measure (\<lambda>(_, _, os). fmlen os)") (simp_all add: fmlen_drop_less del: fmlen_drop)

declare orphan_chain.simps [simp del] orphan_rest.simps [simp del]

text \<open>Adoption only removes orphans, so the second call of \<open>processOrphanBlocks\<close> is idle.\<close>

lemma orphans_shrink:
  "fmlookup (bc_orphanBlocks (addBlock sha b bc)) k = Some v \<Longrightarrow>
     fmlookup (bc_orphanBlocks bc) k = Some v"
  "fmlookup (bc_orphanBlocks (processOrphanBlocks sha p bc)) k = Some v \<Longrightarrow>
     fmlookup (bc_orphanBlocks bc) k = Some v"
proof (induction sha b bc and sha p bc arbitrary: k v and k v
    rule: addBlock_processOrphanBlocks.induct)
  case (1 sha b bc)
  then show ?case by (simp add: addBlock.simps)
next
  case (2 sha p bc)
  show ?case
  proof (cases "fmlookup (bc_orphanBlocks bc) p")
    case None
    with 2(3) show ?thesis by (simp add: processOrphanBlocks.simps)
  next
    case (Some orphan)
    with 2(3) have "fmlookup (bc_orphanBlocks (addBlock sha orphan
        (bc\<lparr>bc_orphanBlocks := fmdrop p (bc_orphanBlocks bc)\<rparr>))) k = Some v"
      by (intro 2(2) [OF Some]) (simp add: processOrphanBlocks.simps [of sha p bc])
    from 2(1) [OF Some this] show ?thesis by (simp split: if_splits)
  qed
qed

lemma processOrphanBlocks_taken:
  "fmlookup (bc_orphanBlocks (processOrphanBlocks sha p bc)) p = None"
proof (cases "fmlookup (bc_orphanBlocks bc) p")
  case None
  then show ?thesis by (simp add: processOrphanBlocks.simps)
next
  case (Some orphan)
  let ?bc = "bc\<lparr>bc_orphanBlocks := fmdrop p (bc_orphanBlocks bc)\<rparr>"
  have "fmlookup (bc_orphanBlocks (processOrphanBlocks sha p bc)) p \<noteq> None \<Longrightarrow>
      fmlookup (bc_orphanBlocks ?bc) p \<noteq> None"
    by (auto simp: processOrphanBlocks.simps [of sha p bc] Some dest!: orphans_shrink)
  then show ?thesis
    by (cases "fmlookup (bc_orphanBlocks (processOrphanBlocks sha p bc)) p") auto
qed

lemma processOrphanBlocks_step:
  "processOrphanBlocks sha p bc =
     (case fmlookup (bc_orphanBlocks bc) p of
        None \<Rightarrow> bc
      | Some orphan \<Rightarrow>
          processOrphanBlocks sha (header_hash sha (blk_Header orphan))
            (storeBlock sha orphan
               (bc\<lparr>bc_orphanBlocks := fmdrop p (bc_orphanBlocks bc)\<rparr>)))"
  by (simp add: processOrphanBlocks.simps [of sha p bc] addBlock.simps split: option.split)
    (subst processOrphanBlocks.simps, simp add: processOrphanBlocks_taken)

lemma storeBlock_orphans_update [simp]:
  "(storeBlock sha b bc)\<lparr>bc_orphanBlocks := os\<rparr> = storeBlock sha b (bc\<lparr>bc_orphanBlocks := os\<rparr>)"
  by (simp add: storeBlock_def Let_def)

lemma processOrphanBlocks_fold:
  "processOrphanBlocks sha p bc =
     fold (storeBlock sha) (orphan_chain sha p (bc_orphanBlocks bc))
       (bc\<lparr>bc_orphanBlocks := orphan_rest sha p (bc_orphanBlocks bc)\<rparr>)"
proof (induction sha p "bc_orphanBlocks bc" arbitrary: bc rule: orphan_chain.induct)
  case (1 sha p bc)
  then show ?case
    by (simp add: processOrphanBlocks_step [of sha p bc] orphan_chain.simps [of sha p]
        orphan_rest.simps [of sha p] split: option.split)
qed

text \<open>The chain indexes blocks by header hash: the laws of \<open>keyed_store\<close>.\<close>

interpretation chain_blocks: keyed_store "storeBlock sha" "\<lambda>bc. fmlookup (bc_blocks bc)"
    "\<lambda>b. header_hash sha (blk_Header b)" for sha
  by unfold_locales (simp add: storeBlock_def Let_def)

lemma addBlock_fold:
  "addBlock sha b bc =
     fold (storeBlock sha)
       (b # orphan_chain sha (header_hash sha (blk_Header b)) (bc_orphanBlocks bc))
       (bc\<lparr>bc_orphanBlocks :=
             orphan_rest sha (header_hash sha (blk_Header b)) (bc_orphanBlocks bc)\<rparr>)"
  by (simp add: addBlock.simps processOrphanBlocks_fold)

section \<open>Invariant\<close>

text \<open>
  Blocks are filed under their header hash; the height index has no dangling entry, covers
  every stored block and lies at or below the current height, which it contains.
\<close>

definition chain_inv :: "digest \<Rightarrow> blockchain \<Rightarrow> bool" where
  "chain_inv sha bc \<longleftrightarrow>
     (\<forall>h b. fmlookup (bc_blocks bc) h = Some b \<longrightarrow>
        header_hash sha (blk_Header b) = h \<and>
        fmlookup (bc_heightToHash bc) (hdr_Height (blk_Header b)) \<noteq> None) \<and>
     (\<forall>n h. fmlookup (bc_heightToHash bc) n = Some h \<longrightarrow>
        fmlookup (bc_blocks bc) h \<noteq> None \<and> n \<le> bc_currentHeight bc) \<and>
     fmlookup (bc_heightToHash bc) (bc_currentHeight bc) \<noteq> None"

text \<open>Storing a block establishes the invariant on the empty chain and keeps it after.\<close>

definition chain_pre :: "digest \<Rightarrow> blockchain \<Rightarrow> bool" where
  "chain_pre sha bc \<longleftrightarrow> chain_inv sha bc \<or>
     bc_blocks bc = fmempty \<and> bc_heightToHash bc = fmempty \<and> bc_currentHeight bc = 0"

lemma storeBlock_inv [inv_intros]: "chain_pre sha bc \<Longrightarrow> chain_inv sha (storeBlock sha b bc)"
  unfolding chain_pre_def chain_inv_def storeBlock_def Let_def
  by (auto simp: word_gt_0 split: if_splits) (force intro: order.trans)+

lemma chain_inv_pre [inv_intros]: "chain_inv sha bc \<Longrightarrow> chain_pre sha bc"
  by (simp add: chain_pre_def)

lemma fold_storeBlock_inv [inv_intros]:
  "chain_inv sha bc \<Longrightarrow> chain_inv sha (fold (storeBlock sha) bs bc)"
  by (induction bs arbitrary: bc) (auto intro: inv_intros)

lemma chain_inv_orphans [simp]:
  "chain_inv sha (bc\<lparr>bc_orphanBlocks := os\<rparr>) = chain_inv sha bc"
  "chain_pre sha (bc\<lparr>bc_orphanBlocks := os\<rparr>) = chain_pre sha bc"
  "chain_inv sha (bc\<lparr>bc_genesis := g\<rparr>) = chain_inv sha bc"
  "chain_pre sha (bc\<lparr>bc_genesis := g\<rparr>) = chain_pre sha bc"
  by (simp_all add: chain_inv_def chain_pre_def)

lemma addBlock_inv [inv_intros]: "chain_pre sha bc \<Longrightarrow> chain_inv sha (addBlock sha b bc)"
  by (simp add: addBlock_fold inv_intros)

section \<open>Reachable chains\<close>

text \<open>\<open>AddBlock\<close> is the only exported method that writes.\<close>

inductive reachable_chain :: "digest \<Rightarrow> blockchain \<Rightarrow> bool" for sha where
  new: "reachable_chain sha (NewBlockchain sha now)"
| add: "reachable_chain sha bc \<Longrightarrow> AddBlock sha now b bc = (bc', r) \<Longrightarrow> reachable_chain sha bc'"

lemma validateBlock_cases:
  obtains
    (orphan) "0 < hdr_Height (blk_Header b)"
      "fmlookup (bc_blocks bc) (hdr_PrevBlockHash (blk_Header b)) = None"
      "validateBlock now b bc =
         (bc\<lparr>bc_orphanBlocks :=
             fmupd (hdr_PrevBlockHash (blk_Header b)) b (bc_orphanBlocks bc)\<rparr>,
          Fail (ErrorString ''previous block not found''))"
  | (known) "hdr_Height (blk_Header b) = 0 \<or>
        fmlookup (bc_blocks bc) (hdr_PrevBlockHash (blk_Header b)) \<noteq> None"
      "validateBlock now b bc =
         (bc, bind_res (validateBlockHeader now (blk_Header b))
                (\<lambda>_. validateTransactions (blk_Transactions b)))"
  by (cases "0 < hdr_Height (blk_Header b) \<and>
        fmlookup (bc_blocks bc) (hdr_PrevBlockHash (blk_Header b)) = None")
    (auto simp: validateBlock_def Let_def word_gt_0)

text \<open>What the two validators accept, and that they fail without panic.\<close>

definition header_ok :: "i64 \<Rightarrow> block_header \<Rightarrow> bool" where
  "header_ok now h \<longleftrightarrow>
     hdr_Version h \<noteq> 0 \<and> sint (hdr_Timestamp h) \<le> sint (now + 300) \<and> hdr_Difficulty h \<noteq> 0"

definition tx_ok :: "transaction \<Rightarrow> bool" where
  "tx_ok tx \<longleftrightarrow> tx_ID tx \<noteq> 0 \<and> tx_From tx \<noteq> 0 \<and> tx_To tx \<noteq> 0 \<and> tx_Signature tx \<noteq> []"

lemma validateBlockHeader_Ok: "validateBlockHeader now h = Ok () \<longleftrightarrow> header_ok now h"
  by (auto simp: validateBlockHeader_def header_ok_def)

lemma validateTransactions_Ok:
  "validateTransactions txs = Ok () \<longleftrightarrow> (\<forall>tx \<in> set txs. tx_ok tx)"
  by (induction txs) (auto simp: validateTransaction_def tx_ok_def)

lemma validateTransactions_no_panic: "validateTransactions txs \<noteq> Panic p"
  by (induction txs) (auto simp: validateTransaction_def)

lemma validate_no_panic:
  "bind_res (validateBlockHeader now h) (\<lambda>_. validateTransactions txs) \<noteq> Panic p"
  by (auto simp: validateBlockHeader_def validateTransactions_no_panic)

lemma AddBlock_cases:
  obtains
    (orphan) "fmlookup (bc_blocks bc) (hdr_PrevBlockHash (blk_Header b)) = None"
      "0 < hdr_Height (blk_Header b)"
      "AddBlock sha now b bc =
         (bc\<lparr>bc_orphanBlocks :=
             fmupd (hdr_PrevBlockHash (blk_Header b)) b (bc_orphanBlocks bc)\<rparr>,
          Fail (ErrorString ''previous block not found''))"
  | (rejected) e where "AddBlock sha now b bc = (bc, Fail e)"
      "hdr_Height (blk_Header b) = 0 \<or>
        fmlookup (bc_blocks bc) (hdr_PrevBlockHash (blk_Header b)) \<noteq> None"
      "\<not> (header_ok now (blk_Header b) \<and> (\<forall>tx \<in> set (blk_Transactions b). tx_ok tx) \<and>
          hdr_Height (blk_Header b) = bc_currentHeight bc + 1)"
  | (added) "hdr_Height (blk_Header b) = 0 \<or>
        fmlookup (bc_blocks bc) (hdr_PrevBlockHash (blk_Header b)) \<noteq> None"
      "header_ok now (blk_Header b)" "\<forall>tx \<in> set (blk_Transactions b). tx_ok tx"
      "hdr_Height (blk_Header b) = bc_currentHeight bc + 1"
      "AddBlock sha now b bc = (addBlock sha b bc, Ok ())"
proof (cases rule: validateBlock_cases [of b bc now])
  case no_parent: orphan
  then show ?thesis by (intro orphan) (simp_all add: AddBlock_def)
next
  case known
  let ?r = "bind_res (validateBlockHeader now (blk_Header b))
      (\<lambda>_. validateTransactions (blk_Transactions b))"
  show ?thesis
  proof (cases ?r)
    case (Ok u)
    then have ok: "header_ok now (blk_Header b)" "\<forall>tx \<in> set (blk_Transactions b). tx_ok tx"
      by (auto simp: bind_res_Ok_iff simp flip: validateBlockHeader_Ok validateTransactions_Ok)
    show ?thesis
    proof (cases "hdr_Height (blk_Header b) = bc_currentHeight bc + 1")
      case True
      with known ok Ok show ?thesis by (intro added) (auto simp: AddBlock_def)
    next
      case False
      with known Ok show ?thesis by (intro rejected) (auto simp: AddBlock_def Let_def)
    qed
  next
    case (Fail e)
    then have "\<not> (header_ok now (blk_Header b) \<and> (\<forall>tx \<in> set (blk_Transactions b). tx_ok tx))"
      by (auto simp flip: validateBlockHeader_Ok validateTransactions_Ok)
    with known Fail show ?thesis by (intro rejected) (auto simp: AddBlock_def)
  next
    case (Panic p)
    then show ?thesis by (simp add: validate_no_panic)
  qed
qed

lemma AddBlock_inv [inv_intros]:
  "chain_inv sha bc \<Longrightarrow> AddBlock sha now b bc = (bc', r) \<Longrightarrow> chain_inv sha bc'"
  by (cases rule: AddBlock_cases [of bc b sha now]) (auto intro: inv_intros)

lemma NewBlockchain_inv [inv_intros]: "chain_inv sha (NewBlockchain sha now)"
  unfolding NewBlockchain_def createGenesisBlock_def Let_def
  by (rule addBlock_inv) (simp add: chain_pre_def)

lemma reachable_chain_inv: "reachable_chain sha bc \<Longrightarrow> chain_inv sha bc"
  by (induction rule: reachable_chain.induct) (auto intro: inv_intros)

section \<open>Parents\<close>

text \<open>
  An orphan waits under the hash of its parent, and every stored block above height 0 has its
  parent stored.
\<close>

definition orphans_keyed :: "blockchain \<Rightarrow> bool" where
  "orphans_keyed bc \<longleftrightarrow>
     (\<forall>h b. fmlookup (bc_orphanBlocks bc) h = Some b \<longrightarrow> hdr_PrevBlockHash (blk_Header b) = h)"

definition has_parent :: "blockchain \<Rightarrow> block \<Rightarrow> bool" where
  "has_parent bc b \<longleftrightarrow> hdr_Height (blk_Header b) = 0 \<or>
     fmlookup (bc_blocks bc) (hdr_PrevBlockHash (blk_Header b)) \<noteq> None"

definition parents_closed :: "blockchain \<Rightarrow> bool" where
  "parents_closed bc \<longleftrightarrow> (\<forall>h b. fmlookup (bc_blocks bc) h = Some b \<longrightarrow> has_parent bc b)"

text \<open>A list of blocks each of which names its predecessor's hash, the first one \<open>h\<close>.\<close>

fun hash_linked :: "digest \<Rightarrow> hash \<Rightarrow> block list \<Rightarrow> bool" where
  "hash_linked sha h [] = True"
| "hash_linked sha h (b # bs) =
     (hdr_PrevBlockHash (blk_Header b) = h \<and>
      hash_linked sha (header_hash sha (blk_Header b)) bs)"

lemma orphan_chain_linked:
  "(\<And>h b. fmlookup os h = Some b \<Longrightarrow> hdr_PrevBlockHash (blk_Header b) = h) \<Longrightarrow>
     hash_linked sha h (orphan_chain sha h os)"
proof (induction sha h os rule: orphan_chain.induct)
  case (1 sha h os)
  show ?case
  proof (cases "fmlookup os h")
    case None
    then show ?thesis by (simp add: orphan_chain.simps)
  next
    case (Some orphan)
    have "hash_linked sha (header_hash sha (blk_Header orphan))
        (orphan_chain sha (header_hash sha (blk_Header orphan)) (fmdrop h os))"
      by (rule "1.IH" [OF Some]) (auto split: if_splits intro: "1.prems")
    with Some "1.prems" show ?thesis by (simp add: orphan_chain.simps [of sha h])
  qed
qed

lemma orphan_rest_sub: "fmlookup (orphan_rest sha h os) k = Some b \<Longrightarrow> fmlookup os k = Some b"
  by (induction sha h os rule: orphan_rest.induct)
    (subst (asm) (2) orphan_rest.simps, auto split: option.splits if_splits)

lemma storeBlock_parents:
  "parents_closed bc \<Longrightarrow> has_parent bc b \<Longrightarrow> parents_closed (storeBlock sha b bc)"
  by (auto simp: parents_closed_def has_parent_def storeBlock_def Let_def)

lemma fold_storeBlock_parents:
  assumes "parents_closed bc" and "fmlookup (bc_blocks bc) h \<noteq> None" and "hash_linked sha h bs"
  shows "parents_closed (fold (storeBlock sha) bs bc)"
  using assms
proof (induction bs arbitrary: bc h)
  case Nil
  then show ?case by simp
next
  case (Cons b bs)
  have "parents_closed (storeBlock sha b bc)"
    using Cons.prems by (intro storeBlock_parents) (simp_all add: has_parent_def)
  moreover have "fmlookup (bc_blocks (storeBlock sha b bc)) (header_hash sha (blk_Header b)) \<noteq> None"
    by (simp add: storeBlock_def Let_def)
  ultimately show ?case
    using Cons.IH [of "storeBlock sha b bc" "header_hash sha (blk_Header b)"] Cons.prems by simp
qed

lemma fold_storeBlock_orphans [simp]:
  "bc_orphanBlocks (fold (storeBlock sha) bs bc) = bc_orphanBlocks bc"
  by (induction bs arbitrary: bc) auto

lemma addBlock_parents:
  assumes "parents_closed bc" and "orphans_keyed bc" and "has_parent bc b"
  shows "parents_closed (addBlock sha b bc)" and "orphans_keyed (addBlock sha b bc)"
proof -
  let ?h = "header_hash sha (blk_Header b)"
  let ?bc = "storeBlock sha b
      (bc\<lparr>bc_orphanBlocks := orphan_rest sha ?h (bc_orphanBlocks bc)\<rparr>)"
  have linked: "hash_linked sha ?h (orphan_chain sha ?h (bc_orphanBlocks bc))"
    using assms(2) by (auto simp: orphans_keyed_def intro: orphan_chain_linked)
  have "parents_closed ?bc"
    using assms(1,3) by (intro storeBlock_parents) (auto simp: parents_closed_def has_parent_def)
  moreover have "fmlookup (bc_blocks ?bc) ?h \<noteq> None"
    by (simp add: storeBlock_def Let_def)
  ultimately show "parents_closed (addBlock sha b bc)"
    using linked by (simp add: addBlock_fold fold_storeBlock_parents)
  show "orphans_keyed (addBlock sha b bc)"
    using assms(2) by (auto simp: addBlock_fold orphans_keyed_def dest: orphan_rest_sub)
qed

lemma orphan_insert_parents:
  "parents_closed (bc\<lparr>bc_orphanBlocks := os\<rparr>) = parents_closed bc"
  "orphans_keyed bc \<Longrightarrow>
     orphans_keyed (bc\<lparr>bc_orphanBlocks :=
       fmupd (hdr_PrevBlockHash (blk_Header b)) b (bc_orphanBlocks bc)\<rparr>)"
  by (simp_all add: parents_closed_def has_parent_def orphans_keyed_def)

lemma AddBlock_parents:
  assumes "parents_closed bc \<and> orphans_keyed bc" and "AddBlock sha now b bc = (bc', r)"
  shows "parents_closed bc' \<and> orphans_keyed bc'"
proof (cases rule: AddBlock_cases [of bc b sha now])
  case added
  then have "has_parent bc b" by (simp add: has_parent_def)
  with added assms addBlock_parents [of bc b sha] show ?thesis by simp
qed (use assms in \<open>auto simp: orphan_insert_parents\<close>)

lemma NewBlockchain_eq:
  "NewBlockchain sha now =
     (let g = genesisBlock sha now; h = header_hash sha (blk_Header g) in
      \<lparr>bc_blocks = fmupd h g fmempty, bc_heightToHash = fmupd 0 h fmempty,
       bc_currentHeight = 0, bc_genesis = Some g, bc_shards = fmempty,
       bc_orphanBlocks = fmempty\<rparr>)"
  by (simp add: NewBlockchain_def createGenesisBlock_def addBlock_fold orphan_chain.simps
      orphan_rest.simps storeBlock_def Let_def genesisBlock_def)

lemma NewBlockchain_parents:
  "parents_closed (NewBlockchain sha now) \<and> orphans_keyed (NewBlockchain sha now)"
  by (simp add: NewBlockchain_eq Let_def parents_closed_def has_parent_def orphans_keyed_def
      genesisBlock_def)

lemma reachable_chain_parents:
  "reachable_chain sha bc \<Longrightarrow> parents_closed bc \<and> orphans_keyed bc"
proof (induction rule: reachable_chain.induct)
  case (new now)
  show ?case by (rule NewBlockchain_parents)
next
  case (add bc now b bc' r)
  from add.IH add.hyps(2) show ?case by (rule AddBlock_parents)
qed

lemma addBlock_grows:
  "bc_currentHeight bc \<le> bc_currentHeight (addBlock sha b bc)"
  "hdr_Height (blk_Header b) \<le> bc_currentHeight (addBlock sha b bc)"
proof -
  have store: "bc_currentHeight bc \<le> bc_currentHeight (storeBlock sha b bc)" for b bc
    by (simp add: storeBlock_def Let_def less_imp_le)
  have fold: "bc_currentHeight bc \<le> bc_currentHeight (fold (storeBlock sha) bs bc)" for bs bc
    by (induction bs arbitrary: bc) (auto intro: store order_trans)
  show "bc_currentHeight bc \<le> bc_currentHeight (addBlock sha b bc)"
    using fold [of "bc\<lparr>bc_orphanBlocks := orphan_rest sha (header_hash sha (blk_Header b))
          (bc_orphanBlocks bc)\<rparr>"
        "b # orphan_chain sha (header_hash sha (blk_Header b)) (bc_orphanBlocks bc)"]
    by (simp add: addBlock_fold)
  have "hdr_Height (blk_Header b) \<le> bc_currentHeight (storeBlock sha b bc)" for bc
    by (simp add: storeBlock_def Let_def linorder_not_less)
  then show "hdr_Height (blk_Header b) \<le> bc_currentHeight (addBlock sha b bc)"
    by (auto simp: addBlock_fold intro: fold order_trans)
qed

section \<open>Properties\<close>

text \<open>
  C4: \<open>AddBlock\<close> returns nil exactly for a block whose height is the current height plus one
  (as \<open>uint64\<close>), whose parent is stored (not required at height 0), and whose header and
  transactions pass validation.
\<close>

theorem AddBlock_accepts_iff:
  "snd (AddBlock sha now b bc) = Ok () \<longleftrightarrow>
     (hdr_Height (blk_Header b) = 0 \<or>
        fmlookup (bc_blocks bc) (hdr_PrevBlockHash (blk_Header b)) \<noteq> None) \<and>
     hdr_Version (blk_Header b) \<noteq> 0 \<and> hdr_Difficulty (blk_Header b) \<noteq> 0 \<and>
     sint (hdr_Timestamp (blk_Header b)) \<le> sint (now + 300) \<and>
     (\<forall>tx \<in> set (blk_Transactions b).
        tx_ID tx \<noteq> 0 \<and> tx_From tx \<noteq> 0 \<and> tx_To tx \<noteq> 0 \<and> tx_Signature tx \<noteq> []) \<and>
     hdr_Height (blk_Header b) = bc_currentHeight bc + 1"
  by (cases rule: AddBlock_cases [of bc b sha now])
    (auto simp: header_ok_def tx_ok_def word_gt_0)

text \<open>
  A rejected block changes nothing but the orphan pool, and that only when its parent is
  unknown; \<open>AddBlock\<close> never panics.
\<close>

theorem AddBlock_error_frame:
  assumes "AddBlock sha now b bc = (bc', r)" and "r \<noteq> Ok ()"
  shows "(\<exists>e. r = Fail e) \<and>
     (bc' = bc \<or>
      fmlookup (bc_blocks bc) (hdr_PrevBlockHash (blk_Header b)) = None \<and>
      r = Fail (ErrorString ''previous block not found'') \<and>
      bc' = bc\<lparr>bc_orphanBlocks :=
                 fmupd (hdr_PrevBlockHash (blk_Header b)) b (bc_orphanBlocks bc)\<rparr>)"
  using assms by (cases rule: AddBlock_cases [of bc b sha now]) auto

text \<open>Blocks for the witnesses; under \<open>height_digest\<close> the hash of a block is its height.\<close>

definition demo_block :: "u32 \<Rightarrow> u64 \<Rightarrow> hash \<Rightarrow> block" where
  "demo_block v n prev =
     \<lparr>blk_Header = zero_header\<lparr>hdr_Version := v, hdr_Height := n, hdr_PrevBlockHash := prev,
        hdr_Difficulty := 1\<rparr>, blk_Transactions = []\<rparr>"

lemmas demo_defs = demo_block_def zero_header_def genesisBlock_def NewBlockchain_eq Let_def

lemma demo_orphaned:
  "AddBlock height_digest 0 (demo_block 0 2 1) (NewBlockchain height_digest 0) =
     ((NewBlockchain height_digest 0)\<lparr>bc_orphanBlocks := fmupd 1 (demo_block 0 2 1) fmempty\<rparr>,
      Fail (ErrorString ''previous block not found''))"
  by (simp add: AddBlock_def validateBlock_def demo_defs)

theorem AddBlock_accepts_iff_witness:
  "snd (AddBlock height_digest 0 (demo_block 1 1 0) (NewBlockchain height_digest 0)) = Ok () \<and>
   snd (AddBlock height_digest 0 (demo_block 1 3 0) (NewBlockchain height_digest 0)) \<noteq> Ok ()"
  by (simp add: AddBlock_accepts_iff demo_defs)

theorem AddBlock_error_frame_witness:
  "(\<exists>e. snd (AddBlock height_digest 0 (demo_block 0 2 1) (NewBlockchain height_digest 0)) = Fail e) \<and>
   fmlookup (bc_orphanBlocks
     (fst (AddBlock height_digest 0 (demo_block 0 2 1) (NewBlockchain height_digest 0)))) 1 =
   Some (demo_block 0 2 1)"
  using AddBlock_error_frame [OF demo_orphaned] by (simp add: demo_orphaned)

lemma AddBlock_grows:
  assumes "AddBlock sha now b bc = (bc', r)"
  shows "bc_currentHeight bc \<le> bc_currentHeight bc'"
    and "fmlookup (bc_blocks bc) h \<noteq> None \<Longrightarrow> fmlookup (bc_blocks bc') h \<noteq> None"
    and "r = Ok () \<Longrightarrow> hdr_Height (blk_Header b) \<le> bc_currentHeight bc' \<and>
      fmlookup (bc_blocks bc') (header_hash sha (blk_Header b)) \<noteq> None"
proof -
  let ?s = "bc\<lparr>bc_orphanBlocks :=
      orphan_rest sha (header_hash sha (blk_Header b)) (bc_orphanBlocks bc)\<rparr>"
  let ?bs = "b # orphan_chain sha (header_hash sha (blk_Header b)) (bc_orphanBlocks bc)"
  have add: "addBlock sha b bc = fold (storeBlock sha) ?bs ?s" by (simp add: addBlock_fold)
  have keep: "fmlookup (bc_blocks bc) h \<noteq> None \<Longrightarrow> fmlookup (bc_blocks (addBlock sha b bc)) h \<noteq> None"
    using chain_blocks.get_fold_defined [of ?s h sha ?bs] by (simp add: add)
  have mem: "\<exists>b'. fmlookup (bc_blocks (addBlock sha b bc)) (header_hash sha (blk_Header b)) = Some b'"
    unfolding add using chain_blocks.get_fold_mem [of "header_hash sha (blk_Header b)" sha ?bs ?s] by auto
  have cases: "r = Ok () \<and> bc' = addBlock sha b bc \<or> r \<noteq> Ok () \<and> bc_blocks bc' = bc_blocks bc \<and> bc_currentHeight bc' = bc_currentHeight bc"
    using assms by (cases rule: AddBlock_cases [of bc b sha now]) auto
  from cases show "bc_currentHeight bc \<le> bc_currentHeight bc'" by (auto simp: addBlock_grows)
  from cases keep show "fmlookup (bc_blocks bc') h \<noteq> None" if "fmlookup (bc_blocks bc) h \<noteq> None" using that by auto
  from cases mem show "hdr_Height (blk_Header b) \<le> bc_currentHeight bc' \<and>
      fmlookup (bc_blocks bc') (header_hash sha (blk_Header b)) \<noteq> None" if "r = Ok ()"
    using that by (auto simp: addBlock_grows)
qed

text \<open>
  The store is append-only. Whatever a call of \<open>AddBlock\<close> answers, no stored hash
  disappears and the current height never goes down; after a success it is at least the height of
  the new block and the block's hash can be looked up.
\<close>

theorem AddBlock_append_only:
  assumes "AddBlock sha now b bc = (bc', r)"
  shows "bc_currentHeight bc \<le> bc_currentHeight bc' \<and>
     (\<forall>h. fmlookup (bc_blocks bc) h \<noteq> None \<longrightarrow> fmlookup (bc_blocks bc') h \<noteq> None) \<and>
     (r = Ok () \<longrightarrow> hdr_Height (blk_Header b) \<le> bc_currentHeight bc' \<and>
        (\<exists>b'. GetBlock (header_hash sha (blk_Header b)) bc' = Ok b'))"
  using AddBlock_grows [OF assms] by (auto simp: GetBlock_def)

theorem AddBlock_append_only_witness:
  "let bc = NewBlockchain height_digest 0; b = demo_block 1 1 0 in
   AddBlock height_digest 0 b bc = (addBlock height_digest b bc, Ok ()) \<and>
   1 \<le> bc_currentHeight (addBlock height_digest b bc) \<and>
   (\<exists>b'. GetBlock 1 (addBlock height_digest b bc) = Ok b')"
proof -
  let ?bc = "NewBlockchain height_digest 0" and ?b = "demo_block 1 1 0"
  have ok: "AddBlock height_digest 0 ?b ?bc = (addBlock height_digest ?b ?bc, Ok ())"
    by (simp add: AddBlock_def validateBlock_def validateBlockHeader_def demo_defs)
  have "hdr_Height (blk_Header ?b) = 1" and "header_hash height_digest (blk_Header ?b) = 1"
    by (simp_all add: demo_block_def)
  with AddBlock_append_only [OF ok] ok show ?thesis by (simp add: Let_def)
qed

text \<open>
  C1: in every state a node can reach, the indexes agree: the current height has a block,
  \<open>GetBlockByHeight\<close> never answers with a nil block or a height above the current one, every
  block is found under its own header hash, and every block above height 0 has its parent in the
  store.
\<close>

theorem reachable_chain_consistent:
  assumes "reachable_chain sha bc"
  shows "(\<exists>b. GetBlockByHeight (GetCurrentHeight bc) bc = Ok (Some b)) \<and>
     (\<forall>n r. GetBlockByHeight n bc = Ok r \<longrightarrow> n \<le> GetCurrentHeight bc \<and>
        (\<exists>b. r = Some b \<and> GetBlock (header_hash sha (blk_Header b)) bc = Ok b)) \<and>
     (\<forall>h b. GetBlock h bc = Ok b \<longrightarrow> header_hash sha (blk_Header b) = h \<and>
        (hdr_Height (blk_Header b) = 0 \<or>
         (\<exists>p. GetBlock (hdr_PrevBlockHash (blk_Header b)) bc = Ok p)))"
proof -
  have inv: "chain_inv sha bc" and par: "parents_closed bc"
    using assms by (auto dest: reachable_chain_inv reachable_chain_parents)
  from inv show ?thesis
    using par unfolding chain_inv_def parents_closed_def has_parent_def
    by (fastforce simp: GetBlockByHeight_def GetBlock_def GetCurrentHeight_def
        split: option.splits)
qed

theorem reachable_chain_consistent_witness:
  "\<exists>b. GetBlockByHeight 0 (NewBlockchain height_digest 0) = Ok (Some b)"
proof -
  have "GetCurrentHeight (NewBlockchain height_digest 0) = 0"
    by (simp add: GetCurrentHeight_def demo_defs)
  with reachable_chain_consistent [OF reachable_chain.new [of height_digest 0]]
  show ?thesis by simp
qed

text \<open>
  C2: the recursion of \<open>addBlock\<close> and \<open>processOrphanBlocks\<close> terminates and has the effect of
  its specification: the block and then the chain of orphans hanging off it are stored one after
  the other, each removed from the pool, and in a reachable state each adopted orphan names its
  predecessor as its parent.
\<close>

theorem addBlock_adopts_orphan_chain:
  assumes "reachable_chain sha bc"
  shows "addBlock sha b bc =
       fold (storeBlock sha)
         (b # orphan_chain sha (header_hash sha (blk_Header b)) (bc_orphanBlocks bc))
         (bc\<lparr>bc_orphanBlocks :=
               orphan_rest sha (header_hash sha (blk_Header b)) (bc_orphanBlocks bc)\<rparr>) \<and>
     hash_linked sha (header_hash sha (blk_Header b))
       (orphan_chain sha (header_hash sha (blk_Header b)) (bc_orphanBlocks bc))"
  using reachable_chain_parents [OF assms]
  by (auto simp: addBlock_fold orphans_keyed_def intro: orphan_chain_linked)

text \<open>A pool holding one invalid orphan, which waits for the block at height 1.\<close>

definition demo_pool :: "u64 \<Rightarrow> blockchain" where
  "demo_pool n = (NewBlockchain height_digest 0)\<lparr>bc_orphanBlocks := fmupd 1 (demo_block 0 n 1) fmempty\<rparr>"

lemma demo_pool_reachable: "1 < n \<Longrightarrow> reachable_chain height_digest (demo_pool n)"
  by (rule reachable_chain.add [OF reachable_chain.new [of _ 0], where now = 0 and b = "demo_block 0 n 1"])
    (auto simp: AddBlock_def validateBlock_def demo_pool_def demo_defs word_gt_0)

lemma demo_pool_add:
  assumes "1 < n"
  shows "AddBlock height_digest 0 (demo_block 1 1 0) (demo_pool n) =
     (addBlock height_digest (demo_block 1 1 0) (demo_pool n), Ok ())"
    and "addBlock height_digest (demo_block 1 1 0) (demo_pool n) =
       (NewBlockchain height_digest 0)
         \<lparr>bc_blocks := fmupd (ucast n) (demo_block 0 n 1) (fmupd 1 (demo_block 1 1 0)
             (bc_blocks (NewBlockchain height_digest 0))),
          bc_heightToHash := fmupd n (ucast n) (fmupd 1 1
             (bc_heightToHash (NewBlockchain height_digest 0))),
          bc_currentHeight := n\<rparr>"
  using assms
  by (simp_all add: AddBlock_def validateBlock_def validateBlockHeader_def addBlock_fold
      orphan_chain.simps orphan_rest.simps storeBlock_def demo_pool_def demo_defs
      fmdrop_fmupd)

lemma one_less_max: "(1 :: u64) < - 1"
  by (simp add: word_less_alt unsigned_minus_1_eq_mask mask_eq_exp_minus_1)

theorem addBlock_adopts_orphan_chain_witness:
  "orphan_chain height_digest 1 (bc_orphanBlocks (demo_pool 2)) = [demo_block 0 2 1] \<and>
   hash_linked height_digest 1 (orphan_chain height_digest 1 (bc_orphanBlocks (demo_pool 2)))"
proof -
  have "header_hash height_digest (blk_Header (demo_block 1 1 0)) = 1"
    by (simp add: demo_block_def)
  with addBlock_adopts_orphan_chain [OF demo_pool_reachable [of 2], of "demo_block 1 1 0"]
  show ?thesis by (simp add: orphan_chain.simps demo_pool_def demo_block_def)
qed

text \<open>
  An orphan enters the chain without any validation. Whatever its version, difficulty,
  timestamp, transactions or height are, the block that waits in the pool for \<open>p\<close> is stored as soon
  as \<open>p\<close> is accepted, and the current height is raised to its height.
\<close>

theorem orphan_adopted_unvalidated:
  assumes "fmlookup (bc_orphanBlocks bc) (header_hash sha (blk_Header p)) = Some orphan"
    and "AddBlock sha now p bc = (bc', Ok ())"
  shows "(\<exists>b. GetBlock (header_hash sha (blk_Header orphan)) bc' = Ok b) \<and>
     hdr_Height (blk_Header orphan) \<le> GetCurrentHeight bc'"
proof -
  let ?h = "header_hash sha (blk_Header p)"
  let ?bc = "bc\<lparr>bc_orphanBlocks := fmdrop ?h (bc_orphanBlocks bc)\<rparr>"
  have bc': "bc' = addBlock sha p bc"
    using assms(2) by (cases rule: AddBlock_cases [of bc p sha now]) auto
  have step: "bc' = addBlock sha orphan (storeBlock sha p ?bc)"
    using assms(1) by (simp add: bc' addBlock.simps processOrphanBlocks_step [of sha ?h])
  let ?bs = "orphan # orphan_chain sha (header_hash sha (blk_Header orphan))
      (fmdrop ?h (bc_orphanBlocks bc))"
  have "\<exists>b. fmlookup (bc_blocks bc') (header_hash sha (blk_Header orphan)) = Some b"
    unfolding step addBlock_fold
    using chain_blocks.get_fold_mem [of "header_hash sha (blk_Header orphan)" sha ?bs] by simp blast
  moreover have "hdr_Height (blk_Header orphan) \<le> bc_currentHeight bc'"
    unfolding step by (rule addBlock_grows)
  ultimately show ?thesis
    by (auto simp: GetBlock_def GetCurrentHeight_def)
qed

theorem orphan_adopted_unvalidated_witness:
  "\<exists>bc. reachable_chain height_digest bc \<and>
     (\<exists>b. GetBlock 2 (fst (AddBlock height_digest 0 (demo_block 1 1 0) bc)) = Ok b \<and>
        hdr_Version (blk_Header b) = 0)"
proof -
  have "fmlookup (bc_orphanBlocks (demo_pool 2))
      (header_hash height_digest (blk_Header (demo_block 1 1 0))) = Some (demo_block 0 2 1)"
    by (simp add: demo_pool_def demo_block_def)
  from orphan_adopted_unvalidated [OF this demo_pool_add(1)] have
    "\<exists>b. GetBlock 2 (addBlock height_digest (demo_block 1 1 0) (demo_pool 2)) = Ok b"
    by (simp add: demo_block_def)
  then show ?thesis
    by (intro exI [of _ "demo_pool 2"])
      (simp add: demo_pool_reachable demo_pool_add GetBlock_def, simp add: demo_block_def)
qed

text \<open>
  The expected height is \<open>currentHeight + 1\<close> in \<open>uint64\<close>. Once the current height is
  \<open>2 ^ 64 - 1\<close> (an adopted orphan can put it there), the only blocks accepted have height 0, their
  parent is not checked, and the first one replaces the genesis block in the height index.
\<close>

theorem height_wraps_to_genesis:
  assumes "bc_currentHeight bc = - 1" and "bc_orphanBlocks bc = fmempty"
    and "AddBlock sha now b bc = (bc', Ok ())"
  shows "hdr_Height (blk_Header b) = 0 \<and> GetBlockByHeight 0 bc' = Ok (Some b) \<and>
     GetCurrentHeight bc' = - 1"
  using assms
  by (cases rule: AddBlock_cases [of bc b sha now])
    (auto simp: addBlock_fold orphan_chain.simps orphan_rest.simps GetBlockByHeight_def
      GetCurrentHeight_def storeBlock_def Let_def)

theorem height_wraps_to_genesis_witness:
  "\<exists>bc. reachable_chain height_digest bc \<and> GetCurrentHeight bc = - 1 \<and>
     GetBlockByHeight 0 (addBlock height_digest (demo_block 7 0 5) bc) =
       Ok (Some (demo_block 7 0 5))"
proof -
  let ?bc = "addBlock height_digest (demo_block 1 1 0) (demo_pool (- 1))"
  have "reachable_chain height_digest ?bc"
    by (rule reachable_chain.add [OF demo_pool_reachable demo_pool_add(1)])
      (simp_all add: one_less_max)
  moreover have cur: "bc_currentHeight ?bc = - 1" and pool: "bc_orphanBlocks ?bc = fmempty"
    by (simp_all add: demo_pool_add one_less_max NewBlockchain_eq Let_def)
  moreover have ok: "AddBlock height_digest 0 (demo_block 7 0 5) ?bc =
      (addBlock height_digest (demo_block 7 0 5) ?bc, Ok ())"
    using cur by (simp add: AddBlock_def validateBlock_def validateBlockHeader_def
        demo_block_def zero_header_def)
  ultimately show ?thesis
    using height_wraps_to_genesis [OF cur pool ok]
    by (intro exI [of _ ?bc]) (simp add: GetCurrentHeight_def)
qed

end
