(* ===== verification/Merkle_Tree.thy ===== *)
theory Merkle_Tree
  imports Core_Types
begin

text \<open>
  The Merkle tree of \<open>merkle/shard.go\<close>: nodes are heap cells linked by pointers
  (\<open>Left\<close>, \<open>Right\<close>, \<open>Parent\<close>), reached from the map \<open>Nodes\<close> by hash, and every change
  of the leaves rebuilds the inner nodes. A tree never shares nodes with another one, so each has
  its own heap: a list, a pointer being an index, allocation being appending.
\<close>

section \<open>Nodes and trees\<close>

type_synonym ptr = nat

record merkle_node =
  mn_Hash :: hash
  mn_Left :: "ptr option"
  mn_Right :: "ptr option"
  mn_Parent :: "ptr option"
  mn_IsLeaf :: bool
  mn_Data :: bytes

record merkle_tree =
  mt_Root :: hash
  mt_Leaves :: "hash list"
  mt_Nodes :: "(hash, ptr) fmap"
  mt_heap :: "merkle_node list"

definition NewMerkleTree :: merkle_tree where
  "NewMerkleTree = \<lparr>mt_Root = 0, mt_Leaves = [], mt_Nodes = fmempty, mt_heap = []\<rparr>"

definition GetAllLeaves :: "merkle_tree \<Rightarrow> hash list" where
  "GetAllLeaves mt = mt_Leaves mt"

section \<open>Building the tree\<close>

definition pair_hash :: "digest \<Rightarrow> hash \<Rightarrow> hash \<Rightarrow> hash" where
  "pair_hash sha l r = ComputeHash sha (be_bytes l @ be_bytes r)"

text \<open>The parent of two nodes: the body of the inner loop. A missing node is dereferenced.\<close>

definition make_parent ::
  "digest \<Rightarrow> ptr option \<Rightarrow> ptr option \<Rightarrow> merkle_tree \<Rightarrow> (ptr \<times> merkle_tree) res" where
  "make_parent sha left right mt =
     (case (left, right) of
        (Some l, Some r) \<Rightarrow>
          let heap = mt_heap mt;
              parentHash = pair_hash sha (mn_Hash (heap ! l)) (mn_Hash (heap ! r));
              p = length heap;
              parent = \<lparr>mn_Hash = parentHash, mn_Left = Some l, mn_Right = Some r,
                        mn_Parent = None, mn_IsLeaf = False, mn_Data = []\<rparr>;
              heap1 = heap @ [parent];
              heap2 = heap1[l := (heap1 ! l)\<lparr>mn_Parent := Some p\<rparr>];
              heap3 = heap2[r := (heap2 ! r)\<lparr>mn_Parent := Some p\<rparr>]
          in Ok (p, mt\<lparr>mt_Nodes := fmupd parentHash p (mt_Nodes mt), mt_heap := heap3\<rparr>)
      | _ \<Rightarrow> Panic NilDereference)"

text \<open>One pass over a level; an odd node out is paired with itself.\<close>

fun build_level ::
  "digest \<Rightarrow> ptr option list \<Rightarrow> merkle_tree \<Rightarrow> (ptr option list \<times> merkle_tree) res" where
  "build_level sha [] mt = Ok ([], mt)"
| "build_level sha [left] mt =
     bind_res (make_parent sha left left mt) (\<lambda>(p, mt'). Ok ([Some p], mt'))"
| "build_level sha (left # right # level) mt =
     bind_res (make_parent sha left right mt) (\<lambda>(p, mt').
       bind_res (build_level sha level mt') (\<lambda>(nextLevel, mt'').
         Ok (Some p # nextLevel, mt'')))"

lemma build_level_length:
  "build_level sha level mt = Ok (nextLevel, mt') \<Longrightarrow>
     length nextLevel = (length level + 1) div 2"
  by (induction sha level mt arbitrary: nextLevel mt' rule: build_level.induct)
    (auto simp: bind_res_Ok_iff)

function build_levels ::
  "digest \<Rightarrow> ptr option list \<Rightarrow> merkle_tree \<Rightarrow> (ptr option list \<times> merkle_tree) res" where
  "build_levels sha level mt =
     (if length level \<le> 1 then Ok (level, mt)
      else case build_level sha level mt of
          Ok (nextLevel, mt') \<Rightarrow> build_levels sha nextLevel mt'
        | Fail e \<Rightarrow> Fail e
        | Panic p \<Rightarrow> Panic p)"
  by pat_completeness auto
termination
  by (relation "measure (\<lambda>(_, level, _). length level)") (auto dest: build_level_length)

declare build_levels.simps [simp del]

definition buildTree :: "digest \<Rightarrow> merkle_tree \<Rightarrow> merkle_tree res" where
  "buildTree sha mt =
     (if mt_Leaves mt = [] then Ok mt
      else let currentLevel = map (fmlookup (mt_Nodes mt)) (mt_Leaves mt) in
        bind_res (build_levels sha currentLevel mt) (\<lambda>(level, mt').
          case level of
            [] \<Rightarrow> Ok mt'
          | None # _ \<Rightarrow> Panic NilDereference
          | Some p # _ \<Rightarrow> Ok (mt'\<lparr>mt_Root := mn_Hash (mt_heap mt' ! p)\<rparr>)))"

definition leaf_node :: "hash \<Rightarrow> bytes \<Rightarrow> merkle_node" where
  "leaf_node h d = \<lparr>mn_Hash = h, mn_Left = None, mn_Right = None, mn_Parent = None,
     mn_IsLeaf = True, mn_Data = d\<rparr>"

definition push_leaf :: "hash \<Rightarrow> bytes \<Rightarrow> merkle_tree \<Rightarrow> merkle_tree" where
  "push_leaf leaf d mt =
     mt\<lparr>mt_Leaves := mt_Leaves mt @ [leaf],
        mt_Nodes := fmupd leaf (length (mt_heap mt)) (mt_Nodes mt),
        mt_heap := mt_heap mt @ [leaf_node leaf d]\<rparr>"

definition AddLeaf :: "digest \<Rightarrow> hash \<Rightarrow> merkle_tree \<Rightarrow> merkle_tree res" where
  "AddLeaf sha leaf mt = buildTree sha (push_leaf leaf [] mt)"

record cross_shard_op =
  op_Type :: string
  op_ShardIDs :: "u32 list"
  op_Data :: bytes

definition ApplyOperation ::
  "digest \<Rightarrow> cross_shard_op \<Rightarrow> bytes \<Rightarrow> merkle_tree \<Rightarrow> merkle_tree res" where
  "ApplyOperation sha op commitment mt =
     (let operationHash = ComputeHash sha (op_Data op @ commitment)
      in buildTree sha (push_leaf operationHash (op_Data op) mt))"

definition Rollback :: "digest \<Rightarrow> merkle_tree \<Rightarrow> merkle_tree res" where
  "Rollback sha mt =
     (if mt_Leaves mt \<noteq> []
      then let lastLeaf = last (mt_Leaves mt) in
        buildTree sha (mt\<lparr>mt_Leaves := butlast (mt_Leaves mt),
                          mt_Nodes := fmdrop lastLeaf (mt_Nodes mt)\<rparr>)
      else Ok mt)"

section \<open>Proofs\<close>

datatype position = LeftPos | RightPos

record proof_node =
  pn_Hash :: hash
  pn_Position :: position
  pn_IsLeaf :: bool

text \<open>
  The walk from a leaf to the node without parent. As written it need not end, so its value is
  \<open>None\<close> when it does not; \<open>climb_total\<close> below shows it always ends on the trees the code builds.
\<close>

definition step_node :: "merkle_node list \<Rightarrow> ptr \<Rightarrow> ptr \<Rightarrow> proof_node list" where
  "step_node heap current parent =
     (let (sibling, position) =
        (if mn_Left (heap ! parent) = Some current
         then (mn_Right (heap ! parent), RightPos) else (mn_Left (heap ! parent), LeftPos))
      in case sibling of
           None \<Rightarrow> []
         | Some s \<Rightarrow> [\<lparr>pn_Hash = mn_Hash (heap ! s), pn_Position = position,
                      pn_IsLeaf = mn_IsLeaf (heap ! s)\<rparr>])"

partial_function (option) climb :: "merkle_node list \<Rightarrow> ptr \<Rightarrow> proof_node list option" where
  "climb heap current =
     (case mn_Parent (heap ! current) of
        None \<Rightarrow> Some []
      | Some parent \<Rightarrow>
          Option.bind (climb heap parent) (\<lambda>path. Some (step_node heap current parent @ path)))"

text \<open>
  The outer option is termination, the inner one the nil result; of the proof record only the
  path and the root are set.
\<close>

definition tree_GenerateProof ::
  "digest \<Rightarrow> bytes \<Rightarrow> merkle_tree \<Rightarrow> (proof_node list \<times> hash) option option" where
  "tree_GenerateProof sha key mt =
     (let leafHash = ComputeHash sha key;
          leafNode = (if leafHash \<in> set (mt_Leaves mt)
                      then fmlookup (mt_Nodes mt) leafHash else None)
      in case leafNode of
           None \<Rightarrow> Some None
         | Some current \<Rightarrow>
             map_option (\<lambda>path. Some (path, mt_Root mt)) (climb (mt_heap mt) current))"

text \<open>The fold of \<open>MerkleProof.Verify\<close> (\<open>merkle/proof.go\<close>) along a path.\<close>

fun fold_path :: "digest \<Rightarrow> proof_node list \<Rightarrow> hash \<Rightarrow> hash" where
  "fold_path sha [] h = h"
| "fold_path sha (n # path) h =
     fold_path sha path
       (case pn_Position n of
          LeftPos \<Rightarrow> pair_hash sha (pn_Hash n) h
        | RightPos \<Rightarrow> pair_hash sha h (pn_Hash n))"

section \<open>Specification: the root as a function of the leaves\<close>

fun pair_up :: "digest \<Rightarrow> hash list \<Rightarrow> hash list" where
  "pair_up sha [] = []"
| "pair_up sha [l] = [pair_hash sha l l]"
| "pair_up sha (l # r # hs) = pair_hash sha l r # pair_up sha hs"

lemma length_pair_up [simp]: "length (pair_up sha hs) = (length hs + 1) div 2"
  by (induction sha hs rule: pair_up.induct) simp_all

function root_of :: "digest \<Rightarrow> hash list \<Rightarrow> hash" where
  "root_of sha hs =
     (if length hs \<le> 1 then (case hs of [] \<Rightarrow> 0 | h # _ \<Rightarrow> h) else root_of sha (pair_up sha hs))"
  by pat_completeness auto
termination
  by (relation "measure (\<lambda>(_, hs). length hs)") auto

declare root_of.simps [simp del]

section \<open>One parent\<close>

text \<open>
  Pointers into the heap; the map files every node under its hash and knows every leaf. \<open>linked h
  p q\<close>: the node \<open>q\<close> is a parent of \<open>p\<close> that hashes its two children.
\<close>

definition tree_wf :: "merkle_tree \<Rightarrow> bool" where
  "tree_wf mt \<longleftrightarrow>
     (\<forall>h p. fmlookup (mt_Nodes mt) h = Some p \<longrightarrow>
        p < length (mt_heap mt) \<and> mn_Hash (mt_heap mt ! p) = h)"

definition linked :: "digest \<Rightarrow> merkle_node list \<Rightarrow> ptr \<Rightarrow> ptr \<Rightarrow> bool" where
  "linked sha heap p q \<longleftrightarrow>
     p < length heap \<and> q < length heap \<and> mn_Parent (heap ! p) = Some q \<and>
     (\<exists>l r. mn_Left (heap ! q) = Some l \<and> mn_Right (heap ! q) = Some r \<and>
        l < length heap \<and> r < length heap \<and> (p = l \<or> p = r) \<and>
        mn_Hash (heap ! q) = pair_hash sha (mn_Hash (heap ! l)) (mn_Hash (heap ! r)))"

text \<open>What a heap keeps when parents are built over it.\<close>

definition heap_le :: "merkle_node list \<Rightarrow> merkle_node list \<Rightarrow> bool" where
  "heap_le heap heap' \<longleftrightarrow>
     length heap \<le> length heap' \<and>
     (\<forall>p < length heap. mn_Hash (heap' ! p) = mn_Hash (heap ! p) \<and>
        mn_Left (heap' ! p) = mn_Left (heap ! p) \<and> mn_Right (heap' ! p) = mn_Right (heap ! p))"

lemma heap_le_refl [simp]: "heap_le h h"
  by (simp add: heap_le_def)

lemma heap_le_trans: "heap_le h1 h2 \<Longrightarrow> heap_le h2 h3 \<Longrightarrow> heap_le h1 h3"
  by (auto simp: heap_le_def)

lemma heap_le_hash: "heap_le h h' \<Longrightarrow> p < length h \<Longrightarrow> mn_Hash (h' ! p) = mn_Hash (h ! p)"
  by (simp add: heap_le_def)

lemma linked_mono:
  assumes "linked sha h p q" and "heap_le h h'" and "mn_Parent (h' ! p) = mn_Parent (h ! p)"
  shows "linked sha h' p q"
proof -
  from assms(1) obtain l r where "p < length h" "q < length h" "mn_Parent (h ! p) = Some q"
    "mn_Left (h ! q) = Some l" "mn_Right (h ! q) = Some r" "l < length h" "r < length h"
    "p = l \<or> p = r" "mn_Hash (h ! q) = pair_hash sha (mn_Hash (h ! l)) (mn_Hash (h ! r))"
    unfolding linked_def by blast
  with assms(2,3) show ?thesis
    by (simp add: linked_def heap_le_def)
qed

text \<open>Everything a proof needs to know about one call of \<open>make_parent\<close>.\<close>

definition parent_made :: "digest \<Rightarrow> ptr \<Rightarrow> ptr \<Rightarrow> merkle_tree \<Rightarrow> merkle_tree \<Rightarrow> bool" where
  "parent_made sha l r mt mt' \<longleftrightarrow>
     (let n = length (mt_heap mt);
          ph = pair_hash sha (mn_Hash (mt_heap mt ! l)) (mn_Hash (mt_heap mt ! r))
      in length (mt_heap mt') = Suc n \<and> heap_le (mt_heap mt) (mt_heap mt') \<and>
         linked sha (mt_heap mt') l n \<and> linked sha (mt_heap mt') r n \<and>
         mn_Hash (mt_heap mt' ! n) = ph \<and> mn_Parent (mt_heap mt' ! n) = None \<and>
         (\<forall>p < n. p \<noteq> l \<longrightarrow> p \<noteq> r \<longrightarrow> mt_heap mt' ! p = mt_heap mt ! p) \<and>
         mt_Leaves mt' = mt_Leaves mt \<and> mt_Nodes mt' = fmupd ph n (mt_Nodes mt))"

lemma make_parent_Ok:
  assumes "l < length (mt_heap mt)" and "r < length (mt_heap mt)"
  shows "\<exists>mt'. make_parent sha (Some l) (Some r) mt = Ok (length (mt_heap mt), mt') \<and>
    parent_made sha l r mt mt'"
proof -
  let ?heap = "mt_heap mt" and ?n = "length (mt_heap mt)"
  let ?ph = "pair_hash sha (mn_Hash (?heap ! l)) (mn_Hash (?heap ! r))"
  let ?parent = "\<lparr>mn_Hash = ?ph, mn_Left = Some l, mn_Right = Some r,
    mn_Parent = None, mn_IsLeaf = False, mn_Data = []\<rparr>"
  obtain p mt' where mk: "make_parent sha (Some l) (Some r) mt = Ok (p, mt')"
    by (simp add: make_parent_def Let_def)
  then have p: "p = ?n" and nodes: "mt_Nodes mt' = fmupd ?ph ?n (mt_Nodes mt)"
    and leaves: "mt_Leaves mt' = mt_Leaves mt"
    and len: "length (mt_heap mt') = Suc ?n"
    by (auto simp: make_parent_def Let_def)
  from mk have nth: "mt_heap mt' ! q =
      (if q = ?n then ?parent
       else if q = l \<or> q = r then (?heap ! q)\<lparr>mn_Parent := Some ?n\<rparr> else ?heap ! q)"
    if "q \<le> ?n" for q
    using assms that
    by (auto simp: make_parent_def Let_def nth_list_update nth_append split: if_splits)
  have le: "heap_le ?heap (mt_heap mt')"
    using assms by (simp add: heap_le_def len nth)
  have "linked sha (mt_heap mt') l ?n" "linked sha (mt_heap mt') r ?n"
    using assms by (simp_all add: linked_def len nth)
  with le nodes leaves len mk p show ?thesis
    by (simp add: parent_made_def Let_def nth)
qed

section \<open>One level\<close>

definition hashes :: "merkle_node list \<Rightarrow> ptr list \<Rightarrow> hash list" where
  "hashes heap ps = map (\<lambda>p. mn_Hash (heap ! p)) ps"

lemma hashes_simps [simp]:
  "hashes heap [] = []" "hashes heap (p # ps) = mn_Hash (heap ! p) # hashes heap ps"
  "length (hashes heap ps) = length ps"
  by (simp_all add: hashes_def)

lemma hashes_le: "heap_le h h' \<Longrightarrow> \<forall>p \<in> set ps. p < length h \<Longrightarrow> hashes h' ps = hashes h ps"
  by (simp add: hashes_def heap_le_hash)

definition level_made ::
  "digest \<Rightarrow> ptr list \<Rightarrow> ptr list \<Rightarrow> merkle_tree \<Rightarrow> merkle_tree \<Rightarrow> bool" where
  "level_made sha ps qs mt mt' \<longleftrightarrow>
     qs = [length (mt_heap mt)..<length (mt_heap mt')] \<and>
     heap_le (mt_heap mt) (mt_heap mt') \<and>
     hashes (mt_heap mt') qs = pair_up sha (hashes (mt_heap mt) ps) \<and>
     (\<forall>p \<in> set ps. \<exists>q \<in> set qs. linked sha (mt_heap mt') p q) \<and>
     (\<forall>q \<in> set qs. mn_Parent (mt_heap mt' ! q) = None) \<and>
     (\<forall>p < length (mt_heap mt). p \<notin> set ps \<longrightarrow> mt_heap mt' ! p = mt_heap mt ! p) \<and>
     mt_Leaves mt' = mt_Leaves mt \<and>
     (\<forall>h. fmlookup (mt_Nodes mt) h \<noteq> None \<longrightarrow> fmlookup (mt_Nodes mt') h \<noteq> None) \<and>
     (\<forall>h p. fmlookup (mt_Nodes mt') h = Some p \<longrightarrow> fmlookup (mt_Nodes mt) h = Some p \<or>
        p \<in> set qs \<and> mn_Hash (mt_heap mt' ! p) = h)"

lemma level_made_nil: "level_made sha [] [] mt mt"
  by (simp add: level_made_def)

lemma level_made_Cons:
  assumes made: "parent_made sha l r mt mt1"
    and ps: "set ps = {l, r} \<union> set rest" "\<forall>p \<in> set ps. p < length (mt_heap mt)"
    and rest: "level_made sha rest qs mt1 mt2"
    and pairs: "pair_up sha (hashes (mt_heap mt) ps) =
      pair_hash sha (mn_Hash (mt_heap mt ! l)) (mn_Hash (mt_heap mt ! r)) #
        pair_up sha (hashes (mt_heap mt) rest)"
  shows "level_made sha ps (length (mt_heap mt) # qs) mt mt2"
proof -
  let ?n = "length (mt_heap mt)" and ?h = "mt_heap mt" and ?h1 = "mt_heap mt1" and ?h2 = "mt_heap mt2"
  let ?ph = "pair_hash sha (mn_Hash (?h ! l)) (mn_Hash (?h ! r))"
  from made have m: "length ?h1 = Suc ?n" "heap_le ?h ?h1" "linked sha ?h1 l ?n" "linked sha ?h1 r ?n"
    "mn_Hash (?h1 ! ?n) = ?ph" "mn_Parent (?h1 ! ?n) = None"
    "\<forall>p < ?n. p \<noteq> l \<longrightarrow> p \<noteq> r \<longrightarrow> ?h1 ! p = ?h ! p"
    "mt_Leaves mt1 = mt_Leaves mt" "mt_Nodes mt1 = fmupd ?ph ?n (mt_Nodes mt)"
    by (simp_all add: parent_made_def Let_def)
  from rest have t: "qs = [length ?h1..<length ?h2]" "heap_le ?h1 ?h2"
    "hashes ?h2 qs = pair_up sha (hashes ?h1 rest)"
    "\<forall>p \<in> set rest. \<exists>q \<in> set qs. linked sha ?h2 p q"
    "\<forall>q \<in> set qs. mn_Parent (?h2 ! q) = None"
    "\<forall>p < length ?h1. p \<notin> set rest \<longrightarrow> ?h2 ! p = ?h1 ! p"
    "mt_Leaves mt2 = mt_Leaves mt1"
    "\<forall>h. fmlookup (mt_Nodes mt1) h \<noteq> None \<longrightarrow> fmlookup (mt_Nodes mt2) h \<noteq> None"
    "\<forall>h p. fmlookup (mt_Nodes mt2) h = Some p \<longrightarrow> fmlookup (mt_Nodes mt1) h = Some p \<or>
       p \<in> set qs \<and> mn_Hash (?h2 ! p) = h"
    unfolding level_made_def by blast+
  have fresh: "?n \<notin> set rest" using ps by auto
  have n2: "?h2 ! ?n = ?h1 ! ?n" using t(6) fresh m(1) by simp
  have range: "?n # qs = [?n..<length ?h2]"
    using t(1,2) m(1) by (simp add: heap_le_def upt_conv_Cons)
  have "hashes ?h1 rest = hashes ?h rest"
    using ps by (intro hashes_le m(2)) auto
  then have hs: "hashes ?h2 (?n # qs) = pair_up sha (hashes ?h ps)"
    using t(3) n2 m(5) pairs by simp
  have links: "\<exists>q \<in> set (?n # qs). linked sha ?h2 p q" if "p \<in> set ps" for p
  proof (cases "p \<in> set rest")
    case True
    with t(4) show ?thesis by auto
  next
    case False
    with that ps have "p = l \<or> p = r" and "p < ?n" by auto
    with m(3,4) have "linked sha ?h1 p ?n" by auto
    moreover have "?h2 ! p = ?h1 ! p" using False t(6) \<open>p < ?n\<close> m(1) by simp
    ultimately have "linked sha ?h2 p ?n" by (intro linked_mono [OF _ t(2)]) simp_all
    then show ?thesis by simp
  qed
  have parents: "\<forall>q \<in> set (?n # qs). mn_Parent (?h2 ! q) = None"
    using t(5) n2 m(6) by simp
  have old: "\<forall>p < ?n. p \<notin> set ps \<longrightarrow> ?h2 ! p = ?h ! p"
    using t(6) m(1,7) ps(1) by simp
  have dom: "\<forall>h. fmlookup (mt_Nodes mt) h \<noteq> None \<longrightarrow> fmlookup (mt_Nodes mt2) h \<noteq> None"
    using t(8) m(9) by simp
  have new: "\<forall>h p. fmlookup (mt_Nodes mt2) h = Some p \<longrightarrow> fmlookup (mt_Nodes mt) h = Some p \<or>
      p \<in> set (?n # qs) \<and> mn_Hash (?h2 ! p) = h"
  proof (intro allI impI)
    fix h p
    assume "fmlookup (mt_Nodes mt2) h = Some p"
    with t(9) have "fmlookup (mt_Nodes mt1) h = Some p \<or> p \<in> set qs \<and> mn_Hash (?h2 ! p) = h"
      by blast
    then show "fmlookup (mt_Nodes mt) h = Some p \<or> p \<in> set (?n # qs) \<and> mn_Hash (?h2 ! p) = h"
      using m(5,9) n2 by (auto split: if_splits)
  qed
  have all_links: "\<forall>p \<in> set ps. \<exists>q \<in> set (?n # qs). linked sha ?h2 p q"
    using links by blast
  have leaves: "mt_Leaves mt2 = mt_Leaves mt" using m(8) t(7) by simp
  from range hs all_links parents old leaves dom new heap_le_trans [OF m(2) t(2)]
  show ?thesis unfolding level_made_def by (intro conjI)
qed

lemma build_level_Ok:
  assumes "\<forall>p \<in> set ps. p < length (mt_heap mt)"
  shows "\<exists>qs mt'. build_level sha (map Some ps) mt = Ok (map Some qs, mt') \<and>
    level_made sha ps qs mt mt'"
  using assms
proof (induction sha "map Some ps" mt arbitrary: ps rule: build_level.induct)
  case (1 sha mt)
  then have "level_made sha ps [] mt mt" by (simp add: level_made_nil)
  with 1 show ?case by (intro exI [of _ "[]"]) simp
next
  case (2 sha left mt)
  then obtain l where ps: "ps = [l]" "left = Some l" by auto
  with 2 obtain mt' where mk: "make_parent sha left left mt = Ok (length (mt_heap mt), mt')"
      "parent_made sha l l mt mt'"
    using make_parent_Ok [of l mt l sha] by auto
  have "level_made sha ps [length (mt_heap mt)] mt mt'"
    using level_made_Cons [OF mk(2) _ _ level_made_nil, of ps] 2 ps by simp
  with mk ps show ?case by (intro exI [of _ "[length (mt_heap mt)]"] exI [of _ mt']) simp
next
  case (3 sha left right level mt)
  then obtain l r rest where ps: "ps = l # r # rest" "left = Some l" "right = Some r"
      "level = map Some rest"
    by (auto simp: Cons_eq_map_conv)
  with 3 obtain mt1 where mk: "make_parent sha left right mt = Ok (length (mt_heap mt), mt1)"
      "parent_made sha l r mt mt1"
    using make_parent_Ok [of l mt r sha] by auto
  then have "\<forall>p \<in> set rest. p < length (mt_heap mt1)"
    using "3.prems" ps by (auto simp: parent_made_def Let_def)
  with "3.hyps"(1) [OF ps(4), of mt1] obtain qs mt2 where
    bl: "build_level sha level mt1 = Ok (map Some qs, mt2)" "level_made sha rest qs mt1 mt2"
    using ps by auto
  have "level_made sha ps (length (mt_heap mt) # qs) mt mt2"
    using level_made_Cons [OF mk(2) _ _ bl(2), of ps] "3.prems" ps by simp
  with mk bl ps show ?case
    by (intro exI [of _ "length (mt_heap mt) # qs"] exI [of _ mt2]) simp
qed

section \<open>All levels\<close>

text \<open>From \<open>p\<close> the climb ends, and folding its path from the hash of \<open>p\<close> gives that of \<open>r\<close>.\<close>

definition proves :: "digest \<Rightarrow> merkle_node list \<Rightarrow> ptr \<Rightarrow> ptr \<Rightarrow> bool" where
  "proves sha heap p r \<longleftrightarrow>
     (\<exists>path. climb heap p = Some path \<and>
        fold_path sha path (mn_Hash (heap ! p)) = mn_Hash (heap ! r))"

lemma climb_root: "mn_Parent (heap ! p) = None \<Longrightarrow> climb heap p = Some []"
  by (subst climb.simps) simp

lemma proves_root: "mn_Parent (heap ! p) = None \<Longrightarrow> proves sha heap p p"
  by (simp add: proves_def climb_root)

lemma proves_step:
  assumes "linked sha heap p q" and "proves sha heap q r"
  shows "proves sha heap p r"
proof -
  from assms(2) obtain path where path: "climb heap q = Some path"
      "fold_path sha path (mn_Hash (heap ! q)) = mn_Hash (heap ! r)"
    by (auto simp: proves_def)
  from assms(1) obtain a b where q: "mn_Parent (heap ! p) = Some q"
      "mn_Left (heap ! q) = Some a" "mn_Right (heap ! q) = Some b" "p = a \<or> p = b"
      "mn_Hash (heap ! q) = pair_hash sha (mn_Hash (heap ! a)) (mn_Hash (heap ! b))"
    by (auto simp: linked_def)
  have "climb heap p = Some (step_node heap p q @ path)"
    by (subst climb.simps) (simp add: q(1) path(1))
  moreover have "fold_path sha (step_node heap p q @ path) (mn_Hash (heap ! p)) =
      fold_path sha path (mn_Hash (heap ! q))"
    using q by (auto simp: step_node_def)
  ultimately show ?thesis
    using path(2) by (simp add: proves_def)
qed

definition levels_made ::
  "digest \<Rightarrow> ptr list \<Rightarrow> ptr \<Rightarrow> merkle_tree \<Rightarrow> merkle_tree \<Rightarrow> bool" where
  "levels_made sha ps r mt mt' \<longleftrightarrow>
     heap_le (mt_heap mt) (mt_heap mt') \<and>
     mn_Hash (mt_heap mt' ! r) = root_of sha (hashes (mt_heap mt) ps) \<and>
     (\<forall>p \<in> set ps \<union> {length (mt_heap mt)..<length (mt_heap mt')}. proves sha (mt_heap mt') p r) \<and>
     (\<forall>p < length (mt_heap mt). p \<notin> set ps \<longrightarrow> mt_heap mt' ! p = mt_heap mt ! p) \<and>
     mt_Leaves mt' = mt_Leaves mt \<and>
     (\<forall>h. fmlookup (mt_Nodes mt) h \<noteq> None \<longrightarrow> fmlookup (mt_Nodes mt') h \<noteq> None) \<and>
     (\<forall>h p. fmlookup (mt_Nodes mt') h = Some p \<longrightarrow> fmlookup (mt_Nodes mt) h = Some p \<or>
        p \<in> {length (mt_heap mt)..<length (mt_heap mt')} \<and> mn_Hash (mt_heap mt' ! p) = h)"

lemma levels_made_Cons:
  assumes ps: "\<forall>p \<in> set ps. p < length (mt_heap mt)" "\<not> length ps \<le> 1"
    and level: "level_made sha ps qs mt mt1"
    and levels: "levels_made sha qs r mt1 mt2"
  shows "levels_made sha ps r mt mt2"
proof -
  let ?h = "mt_heap mt" and ?h1 = "mt_heap mt1" and ?h2 = "mt_heap mt2"
  from level have l: "qs = [length ?h..<length ?h1]" "heap_le ?h ?h1"
    "hashes ?h1 qs = pair_up sha (hashes ?h ps)"
    "\<forall>p \<in> set ps. \<exists>q \<in> set qs. linked sha ?h1 p q"
    "\<forall>p < length ?h. p \<notin> set ps \<longrightarrow> ?h1 ! p = ?h ! p"
    "mt_Leaves mt1 = mt_Leaves mt"
    "\<forall>h. fmlookup (mt_Nodes mt) h \<noteq> None \<longrightarrow> fmlookup (mt_Nodes mt1) h \<noteq> None"
    "\<forall>h p. fmlookup (mt_Nodes mt1) h = Some p \<longrightarrow> fmlookup (mt_Nodes mt) h = Some p \<or>
        p \<in> set qs \<and> mn_Hash (?h1 ! p) = h"
    unfolding level_made_def by blast+
  from levels have t: "heap_le ?h1 ?h2" "mn_Hash (?h2 ! r) = root_of sha (hashes ?h1 qs)"
    "\<forall>p \<in> set qs \<union> {length ?h1..<length ?h2}. proves sha ?h2 p r"
    "\<forall>p < length ?h1. p \<notin> set qs \<longrightarrow> ?h2 ! p = ?h1 ! p"
    "mt_Leaves mt2 = mt_Leaves mt1"
    "\<forall>h. fmlookup (mt_Nodes mt1) h \<noteq> None \<longrightarrow> fmlookup (mt_Nodes mt2) h \<noteq> None"
    "\<forall>h p. fmlookup (mt_Nodes mt2) h = Some p \<longrightarrow> fmlookup (mt_Nodes mt1) h = Some p \<or>
        p \<in> {length ?h1..<length ?h2} \<and> mn_Hash (?h2 ! p) = h"
    unfolding levels_made_def by blast+
  have le: "length ?h \<le> length ?h1" "length ?h1 \<le> length ?h2"
    using l(2) t(1) by (simp_all add: heap_le_def)
  have kept: "?h2 ! p = ?h1 ! p" if "p < length ?h" for p
    using that l(1) le t(4) by simp
  have root: "mn_Hash (?h2 ! r) = root_of sha (hashes ?h ps)"
    using t(2) l(3) ps(2) by (simp add: root_of.simps [of sha "hashes ?h ps"])
  have down: "\<forall>p \<in> set ps \<union> {length ?h..<length ?h2}. proves sha ?h2 p r"
  proof
    fix p
    assume p: "p \<in> set ps \<union> {length ?h..<length ?h2}"
    show "proves sha ?h2 p r"
    proof (cases "p \<in> set ps")
      case True
      with l(4) obtain q where q: "q \<in> set qs" "linked sha ?h1 p q" by blast
      have "linked sha ?h2 p q"
        using kept ps(1) True by (intro linked_mono [OF q(2) t(1)]) simp
      moreover have "proves sha ?h2 q r" using t(3) q(1) by blast
      ultimately show ?thesis by (rule proves_step)
    next
      case False
      with p l(1) t(3) show ?thesis by auto
    qed
  qed
  have old: "\<forall>p < length ?h. p \<notin> set ps \<longrightarrow> ?h2 ! p = ?h ! p"
    using l(5) kept by simp
  have dom: "\<forall>h. fmlookup (mt_Nodes mt) h \<noteq> None \<longrightarrow> fmlookup (mt_Nodes mt2) h \<noteq> None"
    using l(7) t(6) by blast
  have leaves: "mt_Leaves mt2 = mt_Leaves mt" using l(6) t(5) by simp
  have new: "\<forall>h p. fmlookup (mt_Nodes mt2) h = Some p \<longrightarrow> fmlookup (mt_Nodes mt) h = Some p \<or>
      p \<in> {length ?h..<length ?h2} \<and> mn_Hash (?h2 ! p) = h"
  proof (intro allI impI)
    fix h p
    assume "fmlookup (mt_Nodes mt2) h = Some p"
    with t(7) consider "fmlookup (mt_Nodes mt1) h = Some p"
      | "p \<in> {length ?h1..<length ?h2}" "mn_Hash (?h2 ! p) = h" by blast
    then show "fmlookup (mt_Nodes mt) h = Some p \<or>
      p \<in> {length ?h..<length ?h2} \<and> mn_Hash (?h2 ! p) = h"
    proof cases
      case 1
      with l(1,8) have "fmlookup (mt_Nodes mt) h = Some p \<or>
        p \<in> {length ?h..<length ?h1} \<and> mn_Hash (?h1 ! p) = h" by auto
      with le heap_le_hash [OF t(1)] show ?thesis by auto
    next
      case 2
      with le show ?thesis by simp
    qed
  qed
  from root down old leaves dom new heap_le_trans [OF l(2) t(1)]
  show ?thesis unfolding levels_made_def by (intro conjI)
qed

lemma build_levels_Ok:
  assumes "ps \<noteq> []" and "\<forall>p \<in> set ps. p < length (mt_heap mt)"
    and "length ps = 1 \<Longrightarrow> mn_Parent (mt_heap mt ! hd ps) = None"
  shows "\<exists>r mt'. build_levels sha (map Some ps) mt = Ok ([Some r], mt') \<and>
    levels_made sha ps r mt mt'"
  using assms
proof (induction "length ps" arbitrary: ps mt rule: less_induct)
  case less
  show ?case
  proof (cases "length ps \<le> 1")
    case True
    with less.prems(1) obtain p where p: "ps = [p]" by (cases ps) auto
    with less.prems(3) have "proves sha (mt_heap mt) p p" by (simp add: proves_root)
    with p have "levels_made sha ps p mt mt" by (simp add: levels_made_def root_of.simps)
    with p show ?thesis by (auto simp: build_levels.simps)
  next
    case False
    from build_level_Ok [OF less.prems(2)] obtain qs mt1 where
      level: "build_level sha (map Some ps) mt = Ok (map Some qs, mt1)" "level_made sha ps qs mt mt1"
      by blast
    from build_level_length [OF level(1)] have len: "length qs = (length ps + 1) div 2" by simp
    from level(2) have qs: "\<forall>q \<in> set qs. q < length (mt_heap mt1)"
        "\<forall>q \<in> set qs. mn_Parent (mt_heap mt1 ! q) = None"
      unfolding level_made_def by auto
    have "length qs < length ps" "qs \<noteq> []" using len False by auto
    with less.hyps [of qs mt1] qs obtain r mt2 where
      levels: "build_levels sha (map Some qs) mt1 = Ok ([Some r], mt2)" "levels_made sha qs r mt1 mt2"
      by auto
    have "levels_made sha ps r mt mt2"
      using levels_made_Cons [OF less.prems(2) False level(2) levels(2)] .
    moreover have "build_levels sha (map Some ps) mt = Ok ([Some r], mt2)"
      using False level(1) levels(1) by (simp add: build_levels.simps [of sha "map Some ps"])
    ultimately show ?thesis by blast
  qed
qed

section \<open>The invariant of a tree\<close>

text \<open>
  The map is consistent, the root is the function of the leaves it should be, and from the node
  of every leaf the climb ends with a path that folds to the root.
\<close>

definition tree_ok :: "digest \<Rightarrow> merkle_tree \<Rightarrow> bool" where
  "tree_ok sha mt \<longleftrightarrow>
     tree_wf mt \<and> mt_Root mt = root_of sha (mt_Leaves mt) \<and>
     (\<forall>leaf \<in> set (mt_Leaves mt). \<exists>p path. fmlookup (mt_Nodes mt) leaf = Some p \<and>
        climb (mt_heap mt) p = Some path \<and> fold_path sha path leaf = mt_Root mt)"

lemma buildTree_Ok:
  assumes wf: "tree_wf mt" and ne: "mt_Leaves mt \<noteq> []"
    and dom: "\<forall>leaf \<in> set (mt_Leaves mt). fmlookup (mt_Nodes mt) leaf \<noteq> None"
    and single: "\<And>leaf p. mt_Leaves mt = [leaf] \<Longrightarrow> fmlookup (mt_Nodes mt) leaf = Some p \<Longrightarrow>
      mn_Parent (mt_heap mt ! p) = None"
  shows "\<exists>mt'. buildTree sha mt = Ok mt' \<and> tree_ok sha mt' \<and> mt_Leaves mt' = mt_Leaves mt"
proof -
  let ?ps = "map (the \<circ> fmlookup (mt_Nodes mt)) (mt_Leaves mt)"
  have level: "map (fmlookup (mt_Nodes mt)) (mt_Leaves mt) = map Some ?ps"
    using dom by auto
  have ps: "\<forall>p \<in> set ?ps. p < length (mt_heap mt)"
    using wf dom by (auto simp: tree_wf_def)
  have hs: "hashes (mt_heap mt) ?ps = mt_Leaves mt"
    using wf dom by (auto simp: hashes_def tree_wf_def intro!: map_idI)
  have "mn_Parent (mt_heap mt ! hd ?ps) = None" if "length ?ps = 1"
    using that dom single by (auto simp: length_Suc_conv)
  with build_levels_Ok [of ?ps mt sha] ps ne obtain r mt1 where
    b: "build_levels sha (map Some ?ps) mt = Ok ([Some r], mt1)" "levels_made sha ?ps r mt mt1"
    by auto
  let ?mt = "mt1\<lparr>mt_Root := mn_Hash (mt_heap mt1 ! r)\<rparr>"
  from b(2) have l: "heap_le (mt_heap mt) (mt_heap mt1)"
    "mn_Hash (mt_heap mt1 ! r) = root_of sha (mt_Leaves mt)"
    "\<forall>p \<in> set ?ps \<union> {length (mt_heap mt)..<length (mt_heap mt1)}. proves sha (mt_heap mt1) p r"
    "mt_Leaves mt1 = mt_Leaves mt"
    "\<forall>h. fmlookup (mt_Nodes mt) h \<noteq> None \<longrightarrow> fmlookup (mt_Nodes mt1) h \<noteq> None"
    "\<forall>h p. fmlookup (mt_Nodes mt1) h = Some p \<longrightarrow> fmlookup (mt_Nodes mt) h = Some p \<or>
        p \<in> {length (mt_heap mt)..<length (mt_heap mt1)} \<and> mn_Hash (mt_heap mt1 ! p) = h"
    unfolding levels_made_def hs by blast+
  have wf': "tree_wf mt1"
    unfolding tree_wf_def
  proof (intro allI impI)
    fix h p
    assume "fmlookup (mt_Nodes mt1) h = Some p"
    with l(6) have "fmlookup (mt_Nodes mt) h = Some p \<or>
        p < length (mt_heap mt1) \<and> mn_Hash (mt_heap mt1 ! p) = h" by auto
    with wf heap_le_hash [OF l(1)] l(1)
    show "p < length (mt_heap mt1) \<and> mn_Hash (mt_heap mt1 ! p) = h"
      unfolding tree_wf_def heap_le_def by (metis order_less_le_trans)
  qed
  have "\<exists>p path. fmlookup (mt_Nodes mt1) leaf = Some p \<and> climb (mt_heap mt1) p = Some path \<and>
      fold_path sha path leaf = mn_Hash (mt_heap mt1 ! r)" if leaf: "leaf \<in> set (mt_Leaves mt)" for leaf
  proof -
    from dom l(5) leaf obtain p where p: "fmlookup (mt_Nodes mt1) leaf = Some p" by blast
    with l(6) leaf have "p \<in> set ?ps \<union> {length (mt_heap mt)..<length (mt_heap mt1)}" by force
    with l(3) have "proves sha (mt_heap mt1) p r" by blast
    moreover have "mn_Hash (mt_heap mt1 ! p) = leaf" using wf' p by (simp add: tree_wf_def)
    ultimately show ?thesis using p by (auto simp: proves_def)
  qed
  with wf' l(2,4) have "tree_ok sha ?mt" by (simp add: tree_ok_def tree_wf_def)
  moreover have "buildTree sha mt = Ok ?mt"
    using ne b(1) by (simp add: buildTree_def level Let_def)
  ultimately show ?thesis using l(4) by auto
qed

lemma NewMerkleTree_ok: "tree_ok sha NewMerkleTree"
  by (simp add: tree_ok_def tree_wf_def NewMerkleTree_def root_of.simps)

lemma push_leaf_build:
  assumes "tree_ok sha mt"
  shows "\<exists>mt'. buildTree sha (push_leaf leaf d mt) = Ok mt' \<and> tree_ok sha mt' \<and>
    mt_Leaves mt' = mt_Leaves mt @ [leaf]"
proof -
  let ?mt = "push_leaf leaf d mt"
  have wf: "tree_wf ?mt"
    using assms by (auto simp: tree_ok_def tree_wf_def push_leaf_def leaf_node_def nth_append
        less_Suc_eq)
  have dom: "\<forall>l \<in> set (mt_Leaves ?mt). fmlookup (mt_Nodes ?mt) l \<noteq> None"
    using assms by (auto simp: tree_ok_def push_leaf_def)
  have "mn_Parent (mt_heap ?mt ! p) = None"
    if "mt_Leaves ?mt = [l]" "fmlookup (mt_Nodes ?mt) l = Some p" for l p
    using that by (auto simp: push_leaf_def leaf_node_def)
  moreover have ne: "mt_Leaves ?mt \<noteq> []" and "mt_Leaves ?mt = mt_Leaves mt @ [leaf]"
    by (simp_all add: push_leaf_def)
  ultimately show ?thesis
    using buildTree_Ok [OF wf ne dom, of sha] by simp
qed

lemma AddLeaf_ok [inv_intros]:
  "tree_ok sha mt \<Longrightarrow> \<exists>mt'. AddLeaf sha leaf mt = Ok mt' \<and> tree_ok sha mt' \<and>
     mt_Leaves mt' = mt_Leaves mt @ [leaf]"
  by (simp add: AddLeaf_def push_leaf_build)

lemma ApplyOperation_ok [inv_intros]:
  "tree_ok sha mt \<Longrightarrow> \<exists>mt'. ApplyOperation sha op com mt = Ok mt' \<and> tree_ok sha mt' \<and>
     mt_Leaves mt' = mt_Leaves mt @ [ComputeHash sha (op_Data op @ com)]"
  by (simp add: ApplyOperation_def Let_def push_leaf_build)

lemma AddLeaves_ok:
  "tree_ok sha mt \<Longrightarrow> \<exists>mt'. fold_res (AddLeaf sha) leaves mt = Ok mt' \<and> tree_ok sha mt' \<and>
     mt_Leaves mt' = mt_Leaves mt @ leaves"
proof (induction leaves arbitrary: mt)
  case (Cons l leaves)
  from AddLeaf_ok [OF Cons.prems, of l] obtain mt1 where
    "AddLeaf sha l mt = Ok mt1" "tree_ok sha mt1" "mt_Leaves mt1 = mt_Leaves mt @ [l]"
    by blast
  with Cons.IH show ?case by fastforce
qed simp

lemma Rollback_ok:
  assumes "tree_ok sha mt" and "mt_Leaves mt = ls @ [l]" and "l \<notin> set ls" and "2 \<le> length ls"
  shows "\<exists>mt'. Rollback sha mt = Ok mt' \<and> tree_ok sha mt' \<and> mt_Leaves mt' = ls"
proof -
  let ?mt = "mt\<lparr>mt_Leaves := ls, mt_Nodes := fmdrop l (mt_Nodes mt)\<rparr>"
  have wf: "tree_wf ?mt"
    using assms(1) by (auto simp: tree_ok_def tree_wf_def split: if_splits)
  have dom: "\<forall>h \<in> set (mt_Leaves ?mt). fmlookup (mt_Nodes ?mt) h \<noteq> None"
    using assms by (fastforce simp: tree_ok_def)
  have ne: "mt_Leaves ?mt \<noteq> []" and many: "\<And>h. mt_Leaves ?mt \<noteq> [h]" using assms(4) by auto
  with buildTree_Ok [OF wf ne dom, of sha] assms(2) show ?thesis
    by (simp add: Rollback_def Let_def)
qed

text \<open>A level with a missing node cannot be built.\<close>

lemma make_parent_None: "left = None \<or> right = None \<Longrightarrow> make_parent sha left right mt = Panic NilDereference"
  by (auto simp: make_parent_def split: option.split)

lemma make_parent_cases:
  "(\<exists>p mt'. make_parent sha left right mt = Ok (p, mt')) \<or>
   make_parent sha left right mt = Panic NilDereference"
  by (auto simp: make_parent_def Let_def split: option.split)

lemma build_level_None: "None \<in> set level \<Longrightarrow> build_level sha level mt = Panic NilDereference"
proof (induction sha level mt rule: build_level.induct)
  case (3 sha left right level mt)
  with make_parent_cases [of sha left right mt] show ?case
    by (cases "left = None \<or> right = None") (auto simp: make_parent_None)
qed (simp_all add: make_parent_None)

lemma build_levels_None:
  "None \<in> set level \<Longrightarrow> 2 \<le> length level \<Longrightarrow> build_levels sha level mt = Panic NilDereference"
  by (simp add: build_levels.simps build_level_None)

section \<open>Properties\<close>

text \<open>
  C6: adding leaves never fails, and the pointer-linked tree computes the right root: after any
  sequence of \<open>AddLeaf\<close> on a new tree, duplicates and hash collisions included, the leaves are the
  given list and \<open>Root\<close> is the pairwise hash of that list, an odd node out paired with itself.
\<close>

theorem AddLeaf_root_refines:
  "\<exists>mt. fold_res (AddLeaf sha) leaves NewMerkleTree = Ok mt \<and> GetAllLeaves mt = leaves \<and>
     mt_Root mt = root_of sha leaves"
  using AddLeaves_ok [OF NewMerkleTree_ok, of sha leaves]
  by (auto simp: tree_ok_def NewMerkleTree_def GetAllLeaves_def)

text \<open>
  C22: every leaf is provable: after any sequence of \<open>AddLeaf\<close>, \<open>GenerateProof\<close> terminates for
  every key; it returns nil exactly when the key's hash is not a leaf, and otherwise a path that
  folds from the key's hash to the root, which is the root it returns.
\<close>

theorem tree_proof_complete:
  assumes "fold_res (AddLeaf sha) leaves NewMerkleTree = Ok mt"
  shows "(ComputeHash sha key \<notin> set leaves \<longrightarrow> tree_GenerateProof sha key mt = Some None) \<and>
    (ComputeHash sha key \<in> set leaves \<longrightarrow>
      (\<exists>path. tree_GenerateProof sha key mt = Some (Some (path, root_of sha leaves)) \<and>
         fold_path sha path (ComputeHash sha key) = root_of sha leaves))"
proof -
  from AddLeaves_ok [OF NewMerkleTree_ok, of sha leaves] assms
  have "tree_ok sha mt" "mt_Leaves mt = leaves" by (auto simp: NewMerkleTree_def)
  then show ?thesis
    by (fastforce simp: tree_GenerateProof_def tree_ok_def Let_def)
qed

theorem tree_proof_complete_witness:
  "\<exists>mt path. fold_res (AddLeaf height_digest) [7, 0, 7] NewMerkleTree = Ok mt \<and>
     tree_GenerateProof height_digest [] mt =
       Some (Some (path, root_of height_digest [7, 0, 7])) \<and>
     fold_path height_digest path 0 = root_of height_digest [7, 0, 7]"
proof -
  obtain mt where mt: "fold_res (AddLeaf height_digest) [7, 0, 7] NewMerkleTree = Ok mt"
    using AddLeaves_ok [OF NewMerkleTree_ok, of height_digest "[7, 0, 7]"] by blast
  have "ComputeHash height_digest [] = 0"
    by (simp add: ComputeHash_def height_digest_def of_be_bytes_def word_rcat_def)
  with tree_proof_complete [OF mt, of "[]"] mt show ?thesis by auto
qed

text \<open>
  C33: \<open>Rollback\<close> undoes an addition: on a tree built by \<open>AddLeaf\<close> with at least three leaves whose
  last one is not a duplicate, it removes that leaf and restores the root and the proofs of the
  tree without it.
\<close>

theorem Rollback_undoes:
  assumes "fold_res (AddLeaf sha) (leaves @ [l]) NewMerkleTree = Ok mt"
    and "l \<notin> set leaves" and "2 \<le> length leaves"
  shows "\<exists>mt'. Rollback sha mt = Ok mt' \<and> GetAllLeaves mt' = leaves \<and>
    mt_Root mt' = root_of sha leaves \<and>
    (ComputeHash sha key \<in> set leaves \<longrightarrow>
      (\<exists>path. tree_GenerateProof sha key mt' = Some (Some (path, root_of sha leaves)) \<and>
         fold_path sha path (ComputeHash sha key) = root_of sha leaves))"
proof -
  from AddLeaves_ok [OF NewMerkleTree_ok, of sha "leaves @ [l]"] assms(1)
  have "tree_ok sha mt" "mt_Leaves mt = leaves @ [l]" by (auto simp: NewMerkleTree_def)
  from Rollback_ok [OF this assms(2,3)] obtain mt' where mt':
    "Rollback sha mt = Ok mt'" "tree_ok sha mt'" "mt_Leaves mt' = leaves"
    by blast
  then have "mt_Root mt' = root_of sha leaves" by (simp add: tree_ok_def)
  moreover have "\<exists>path. tree_GenerateProof sha key mt' = Some (Some (path, root_of sha leaves)) \<and>
      fold_path sha path (ComputeHash sha key) = root_of sha leaves"
    if "ComputeHash sha key \<in> set leaves"
    using that mt' by (fastforce simp: tree_GenerateProof_def tree_ok_def Let_def)
  ultimately show ?thesis using mt' by (auto simp: GetAllLeaves_def)
qed

theorem Rollback_undoes_witness:
  "\<exists>mt mt'. fold_res (AddLeaf height_digest) [1, 2, 3] NewMerkleTree = Ok mt \<and>
     Rollback height_digest mt = Ok mt' \<and> GetAllLeaves mt' = [1, 2]"
proof -
  obtain mt where mt: "fold_res (AddLeaf height_digest) ([1, 2] @ [3]) NewMerkleTree = Ok mt"
    using AddLeaves_ok [OF NewMerkleTree_ok, of height_digest "[1, 2] @ [3]"] by blast
  with Rollback_undoes [OF mt, of "[]"] show ?thesis by auto
qed

text \<open>
  Where \<open>Rollback\<close> goes wrong. With a duplicate of the last leaf among at least two others the
  map entry both share is deleted and rebuilding dereferences nil; with a single leaf the
  tree becomes empty but keeps the old root.
\<close>

theorem Rollback_hazards:
  "(fold_res (AddLeaf sha) (leaves @ [l]) NewMerkleTree = Ok mt \<longrightarrow>
      l \<in> set leaves \<longrightarrow> 2 \<le> length leaves \<longrightarrow> Rollback sha mt = Panic NilDereference) \<and>
   (\<exists>mt1 mt2. AddLeaf sha l NewMerkleTree = Ok mt1 \<and> Rollback sha mt1 = Ok mt2 \<and>
      GetAllLeaves mt2 = [] \<and> mt_Root mt2 = l)"
proof (intro conjI impI)
  assume built: "fold_res (AddLeaf sha) (leaves @ [l]) NewMerkleTree = Ok mt"
    and l: "l \<in> set leaves" and len: "2 \<le> length leaves"
  from AddLeaves_ok [OF NewMerkleTree_ok, of sha "leaves @ [l]"] built
  have "mt_Leaves mt = leaves @ [l]" by (auto simp: NewMerkleTree_def)
  moreover from l have "None \<in> set (map (fmlookup (fmdrop l (mt_Nodes mt))) leaves)"
    by (auto simp: image_iff intro: bexI [of _ l])
  moreover have "leaves \<noteq> []" using l by auto
  ultimately show "Rollback sha mt = Panic NilDereference"
    using len by (simp add: Rollback_def buildTree_def Let_def build_levels_None)
next
  from AddLeaf_ok [OF NewMerkleTree_ok, of sha l] obtain mt1 where
    mt1: "AddLeaf sha l NewMerkleTree = Ok mt1" "tree_ok sha mt1" "mt_Leaves mt1 = [l]"
    by (auto simp: NewMerkleTree_def)
  then have "mt_Root mt1 = l" by (simp add: tree_ok_def root_of.simps)
  with mt1 show "\<exists>mt1 mt2. AddLeaf sha l NewMerkleTree = Ok mt1 \<and> Rollback sha mt1 = Ok mt2 \<and>
      GetAllLeaves mt2 = [] \<and> mt_Root mt2 = l"
    by (simp add: Rollback_def buildTree_def Let_def GetAllLeaves_def)
qed

theorem Rollback_hazards_witness:
  "\<exists>mt. fold_res (AddLeaf height_digest) [1, 2, 1] NewMerkleTree = Ok mt \<and>
     Rollback height_digest mt = Panic NilDereference"
proof -
  obtain mt where mt: "fold_res (AddLeaf height_digest) ([1, 2] @ [1]) NewMerkleTree = Ok mt"
    using AddLeaves_ok [OF NewMerkleTree_ok, of height_digest "[1, 2] @ [1]"] by blast
  with Rollback_hazards [of height_digest "[1, 2]" 1 mt] show ?thesis by auto
qed

text \<open>
  After a rollback to one leaf its node keeps a parent from before, so the proof generated
  for the remaining key still contains the removed leaf; it folds to the root only if the
  hash of the pair happens to be the remaining leaf.
\<close>

theorem Rollback_stale_parent:
  assumes "a \<noteq> b" and "pair_hash sha a b \<notin> {a, b}" and "ComputeHash sha key = a"
  shows "\<exists>mt mt' path. fold_res (AddLeaf sha) [a, b] NewMerkleTree = Ok mt \<and>
    Rollback sha mt = Ok mt' \<and> mt_Root mt' = a \<and>
    tree_GenerateProof sha key mt' = Some (Some (path, a)) \<and>
    map pn_Hash path = [b] \<and> fold_path sha path a = pair_hash sha a b"
proof -
  let ?ph = "pair_hash sha a b"
  let ?heap = "[(leaf_node a [])\<lparr>mn_Parent := Some 2\<rparr>, (leaf_node b [])\<lparr>mn_Parent := Some 2\<rparr>,
    \<lparr>mn_Hash = ?ph, mn_Left = Some 0, mn_Right = Some 1, mn_Parent = None,
     mn_IsLeaf = False, mn_Data = []\<rparr>]"
  let ?mt = "\<lparr>mt_Root = ?ph, mt_Leaves = [a, b],
    mt_Nodes = fmupd ?ph 2 (fmupd b 1 (fmupd a 0 fmempty)), mt_heap = ?heap\<rparr>"
  let ?mt' = "\<lparr>mt_Root = a, mt_Leaves = [a],
    mt_Nodes = fmdrop b (mt_Nodes ?mt), mt_heap = ?heap\<rparr>"
  let ?path = "[\<lparr>pn_Hash = b, pn_Position = RightPos, pn_IsLeaf = True\<rparr>]"
  have "AddLeaf sha a NewMerkleTree = Ok \<lparr>mt_Root = a, mt_Leaves = [a],
      mt_Nodes = fmupd a 0 fmempty, mt_heap = [leaf_node a []]\<rparr>"
    by (simp add: AddLeaf_def push_leaf_def NewMerkleTree_def buildTree_def build_levels.simps
        leaf_node_def)
  moreover have "AddLeaf sha b \<lparr>mt_Root = a, mt_Leaves = [a],
      mt_Nodes = fmupd a 0 fmempty, mt_heap = [leaf_node a []]\<rparr> = Ok ?mt"
    using assms(1)
    by (simp add: AddLeaf_def push_leaf_def buildTree_def build_levels.simps
        leaf_node_def make_parent_def Let_def numeral_2_eq_2)
  moreover have "Rollback sha ?mt = Ok ?mt'"
    using assms(1,2)
    by (simp add: Rollback_def buildTree_def build_levels.simps Let_def leaf_node_def)
  moreover have "climb ?heap 0 = Some ?path"
    by (subst climb.simps) (simp add: leaf_node_def climb_root step_node_def)
  then have "tree_GenerateProof sha key ?mt' = Some (Some (?path, a))"
    using assms by (simp add: tree_GenerateProof_def)
  ultimately show ?thesis
    by (intro exI [of _ ?mt] exI [of _ ?mt'] exI [of _ ?path]) simp
qed

theorem Rollback_stale_parent_witness:
  "\<exists>mt mt' path. fold_res (AddLeaf (\<lambda>m. of_nat (length m))) [0, 1] NewMerkleTree = Ok mt \<and>
    Rollback (\<lambda>m. of_nat (length m)) mt = Ok mt' \<and>
    tree_GenerateProof (\<lambda>m. of_nat (length m)) [] mt' = Some (Some (path, 0)) \<and>
    fold_path (\<lambda>m. of_nat (length m)) path 0 = (64 :: hash)"
  using Rollback_stale_parent [of 0 1 "\<lambda>m. of_nat (length m)" "[]"]
  by (auto simp: pair_hash_def ComputeHash_def)

end
