(* ===== verification/Crypto_Accumulator.thy ===== *)
theory Crypto_Accumulator
  imports Core_Types "HOL-Library.Multiset"
begin

text \<open>
  \<open>crypto/accumulator.go\<close>: the exponentiation accumulator over the modulus 257, its
  witnesses, membership verification, and the hash to a prime below 102. Big integers that are
  never negative here are naturals.
\<close>

section \<open>Big integers and bytes (\<open>math/big\<close>)\<close>

definition be_nat :: "bytes \<Rightarrow> nat" where \<comment> \<open>\<open>SetBytes\<close>\<close>
  "be_nat bs = foldl (\<lambda>n b. 256 * n + unat b) 0 bs"

fun big_Bytes :: "nat \<Rightarrow> bytes" where \<comment> \<open>\<open>Bytes\<close>: minimal length, empty for 0\<close>
  "big_Bytes n = (if n = 0 then [] else big_Bytes (n div 256) @ [of_nat (n mod 256)])"

declare big_Bytes.simps [simp del]

lemma length_big_Bytes_le: "n < 256 ^ k \<Longrightarrow> length (big_Bytes n) \<le> k"
proof (induction k arbitrary: n)
  case 0
  then show ?case by (simp add: big_Bytes.simps)
next
  case (Suc k)
  show ?case
  proof (cases "n = 0")
    case True
    then show ?thesis by (simp add: big_Bytes.simps)
  next
    case False
    from Suc.prems have "n div 256 < 256 ^ k" by (simp add: less_mult_imp_div_less mult.commute)
    with Suc.IH False show ?thesis by (simp add: big_Bytes.simps [of n])
  qed
qed

lemma be_nat_append: "be_nat (bs @ [b]) = 256 * be_nat bs + unat b"
  by (simp add: be_nat_def)

lemma be_nat_big_Bytes [simp]: "be_nat (big_Bytes n) = n"
proof (induction n rule: big_Bytes.induct)
  case (1 n)
  show ?case
  proof (cases "n = 0")
    case True
    then show ?thesis by (simp add: big_Bytes.simps be_nat_def)
  next
    case False
    with 1 show ?thesis
      by (simp add: big_Bytes.simps [of n] be_nat_append unat_of_nat)
  qed
qed

section \<open>Primes\<close>

text \<open>\<open>ProbablyPrime\<close> is exact below \<open>2 ^ 64\<close>, as its documentation states.\<close>

definition ProbablyPrime :: "nat \<Rightarrow> bool" where
  "ProbablyPrime n \<longleftrightarrow> 2 \<le> n \<and> (\<forall>d \<in> {2..<n}. \<not> d dvd n)"

lemma smallest_divisor_prime:
  assumes "2 \<le> n"
  shows "\<exists>p. ProbablyPrime p \<and> p dvd n"
proof -
  define p where "p = (LEAST d. 2 \<le> d \<and> d dvd n)"
  have "2 \<le> n \<and> n dvd n"
    using assms by simp
  then have p: "2 \<le> p \<and> p dvd n"
    unfolding p_def by (rule LeastI)
  have "\<not> d dvd p" if d: "2 \<le> d" "d < p" for d
  proof
    assume "d dvd p"
    with p have "d dvd n" by (metis dvd_trans)
    moreover have "\<not> (2 \<le> d \<and> d dvd n)"
      using d(2) unfolding p_def by (rule not_less_Least)
    ultimately show False using d(1) by simp
  qed
  with p show ?thesis
    by (auto simp: ProbablyPrime_def)
qed

lemma prime_above: "\<exists>p \<ge> n. ProbablyPrime p"
proof -
  have "2 \<le> fact n + (1 :: nat)"
    using fact_ge_1 [of n, where ?'a = nat] by simp
  from smallest_divisor_prime [OF this] obtain p
    where p: "ProbablyPrime p" "p dvd fact n + 1" by blast
  have "n \<le> p"
  proof (rule ccontr)
    assume "\<not> n \<le> p"
    with p(1) have "p dvd fact n"
      by (simp add: dvd_fact ProbablyPrime_def)
    with p(2) have "p dvd 1"
      by (simp only: dvd_add_right_iff)
    with p(1) show False
      by (simp add: ProbablyPrime_def)
  qed
  with p(1) show ?thesis by blast
qed

text \<open>The search loop of \<open>hashToPrime\<close>; it ends because there is a prime above every number.\<close>

function next_prime :: "nat \<Rightarrow> nat" where
  "next_prime n = (if ProbablyPrime n then n else next_prime (n + 1))"
  by pat_completeness auto
termination
proof (relation "measure (\<lambda>n. (LEAST p. n \<le> p \<and> ProbablyPrime p) - n)", simp)
  fix n
  assume n: "\<not> ProbablyPrime n"
  define q where "q = (LEAST p. n \<le> p \<and> ProbablyPrime p)"
  have q: "n \<le> q \<and> ProbablyPrime q"
    unfolding q_def using prime_above [of n] by (metis (mono_tags, lifting) LeastI)
  with n have "n < q" by (metis nat_less_le)
  have "(LEAST p. n + 1 \<le> p \<and> ProbablyPrime p) \<le> q"
    using q \<open>n < q\<close> by (intro Least_le) simp
  with \<open>n < q\<close> show "(n + 1, n) \<in> measure (\<lambda>n. (LEAST p. n \<le> p \<and> ProbablyPrime p) - n)"
    by (simp add: q_def)
qed

declare next_prime.simps [simp del]

lemma next_prime_prime: "ProbablyPrime (next_prime n)"
  by (induction n rule: next_prime.induct) (simp add: next_prime.simps)

lemma next_prime_le: "ProbablyPrime p \<Longrightarrow> n \<le> p \<Longrightarrow> next_prime n \<le> p"
proof (induction n rule: next_prime.induct)
  case (1 n)
  show ?case
  proof (cases "ProbablyPrime n")
    case True
    with 1 show ?thesis by (simp add: next_prime.simps)
  next
    case False
    with 1 have "n + 1 \<le> p" by (metis Suc_eq_plus1 Suc_leI le_neq_implies_less)
    with 1 False show ?thesis by (simp add: next_prime.simps [of n])
  qed
qed

lemma next_prime_ge: "n \<le> next_prime n"
  by (induction n rule: next_prime.induct) (subst next_prime.simps, auto)

definition hashToPrime :: "digest \<Rightarrow> bytes \<Rightarrow> nat" where
  "hashToPrime sha d = next_prime (be_nat (take 8 (be_bytes (sha d))) mod 100 + 2)"

text \<open>101 is prime, so the search from at most 101 stops there at the latest.\<close>

lemma prime_101: "ProbablyPrime 101"
proof -
  have "list_all (\<lambda>d. \<not> d dvd (101 :: nat)) [2..<101]"
    by code_simp
  then have "\<forall>d \<in> {2..<101}. \<not> d dvd (101 :: nat)"
    unfolding list_all_iff set_upt .
  moreover have "2 \<le> (101 :: nat)" by simp
  ultimately show ?thesis unfolding ProbablyPrime_def by blast
qed

section \<open>The accumulator\<close>

record accumulator_witness =
  aw_Element :: bytes
  aw_Witness :: nat

record accumulator =
  ac_value :: nat
  ac_modulus :: nat
  ac_witnesses :: "(bytes, accumulator_witness) fmap"

definition NewAccumulator :: accumulator where
  "NewAccumulator = \<lparr>ac_value = 3, ac_modulus = 257, ac_witnesses = fmempty\<rparr>"

definition acc_Add :: "digest \<Rightarrow> bytes \<Rightarrow> accumulator \<Rightarrow> accumulator" where
  "acc_Add sha element acc =
     (let prime = hashToPrime sha element; witness = ac_value acc in
      acc\<lparr>ac_value := ac_value acc ^ prime mod ac_modulus acc,
          ac_witnesses := fmupd element \<lparr>aw_Element = element, aw_Witness = witness\<rparr>
            (ac_witnesses acc)\<rparr>)"

text \<open>The witness argument is a \<open>*big.Int\<close>; \<open>None\<close> is nil. The value is never nil.\<close>

definition acc_Verify :: "digest \<Rightarrow> bytes \<Rightarrow> nat option \<Rightarrow> accumulator \<Rightarrow> bool" where
  "acc_Verify sha element witness acc =
     (case witness of
        None \<Rightarrow> False
      | Some w \<Rightarrow> w ^ hashToPrime sha element mod ac_modulus acc = ac_value acc)"

definition acc_Root :: "accumulator \<Rightarrow> bytes" where
  "acc_Root acc = big_Bytes (ac_value acc)"

lemma acc_Add_simps [simp]:
  "ac_modulus (acc_Add sha e acc) = ac_modulus acc"
  "ac_value (acc_Add sha e acc) = ac_value acc ^ hashToPrime sha e mod ac_modulus acc"
  by (simp_all add: acc_Add_def Let_def)

lemma fold_acc_Add:
  "ac_modulus (fold (acc_Add sha) es acc) = ac_modulus acc"
  "ac_value acc < ac_modulus acc \<Longrightarrow> ac_value (fold (acc_Add sha) es acc) =
     ac_value acc ^ (\<Prod>e\<leftarrow>es. hashToPrime sha e) mod ac_modulus acc"
proof (induction es arbitrary: acc)
  case Nil
  { case 1 then show ?case by simp }
  { case 2 then show ?case by simp }
next
  case (Cons e es)
  { case 1 with Cons.IH(1) show ?case by simp }
  { case 2 with Cons.IH(2) [of "acc_Add sha e acc"] show ?case
      by (simp add: power_mod power_mult) }
qed

section \<open>Properties\<close>

text \<open>Powers of 3 modulo 257: never 0, and of order dividing 256.\<close>

lemma pow3_pos: "0 < 3 ^ k mod (257 :: nat)"
proof -
  have "coprime (257 :: nat) 3" by (simp add: coprime_iff_gcd_eq_1 gcd_non_0_nat)
  then have "coprime (257 :: nat) (3 ^ k)" by simp
  then have "\<not> 257 dvd (3 ^ k :: nat)"
    using coprime_common_divisor_nat [of 257 "3 ^ k" 257] by auto
  then show ?thesis by (simp add: mod_greater_zero_iff_not_dvd)
qed

lemma pow3_order: "3 ^ 256 mod (257 :: nat) = 1"
  by simp

lemma accumulated_value:
  "ac_value (fold (acc_Add sha) es NewAccumulator) = 3 ^ (\<Prod>e\<leftarrow>es. hashToPrime sha e) mod 257"
  using fold_acc_Add(2) [of NewAccumulator sha es] by (simp add: NewAccumulator_def)

text \<open>
  The search of \<open>hashToPrime\<close> terminates for every input, and its result is a prime between
  2 and 101.
\<close>

theorem hashToPrime_range:
  "ProbablyPrime (hashToPrime sha d) \<and> 2 \<le> hashToPrime sha d \<and> hashToPrime sha d \<le> 101"
proof -
  let ?n = "be_nat (take 8 (be_bytes (sha d))) mod 100 + 2"
  have "?n \<le> 101"
    using mod_less_divisor [of 100 "be_nat (take 8 (be_bytes (sha d)))"] by linarith
  with next_prime_prime [of ?n] next_prime_le [OF prime_101, of ?n] next_prime_ge [of ?n]
  show ?thesis
    by (simp add: hashToPrime_def)
qed

text \<open>
  The accumulator value depends only on which elements were added (with multiplicity), not
  on the order, so ranging over a Go map gives a well-defined value; it is 3 raised to the product
  of the elements' primes, modulo 257, and lies between 1 and 256.
\<close>

theorem accumulator_order_independent:
  assumes "mset es = mset es'"
  shows "ac_value (fold (acc_Add sha) es NewAccumulator) =
      ac_value (fold (acc_Add sha) es' NewAccumulator) \<and>
    ac_value (fold (acc_Add sha) es NewAccumulator) =
      3 ^ (\<Prod>e\<leftarrow>es. hashToPrime sha e) mod 257 \<and>
    ac_value (fold (acc_Add sha) es NewAccumulator) \<in> {1..256}"
proof -
  have "prod_list (map f es) = prod_list (map f es')" for f :: "bytes \<Rightarrow> nat"
    using assms by (metis mset_map prod_mset_prod_list)
  moreover have "(3 :: nat) ^ k mod 257 \<le> 256" for k
    using mod_less_divisor [of 257 "3 ^ k"] by linarith
  ultimately show ?thesis
    using pow3_pos by (simp add: accumulated_value Suc_le_eq)
qed

theorem accumulator_order_independent_witness:
  "ac_value (fold (acc_Add (\<lambda>_. 0)) [[1 :: byte], [2]] NewAccumulator) =
   ac_value (fold (acc_Add (\<lambda>_. 0)) [[2], [1]] NewAccumulator)"
  using accumulator_order_independent [of "[[1 :: byte], [2]]" "[[2], [1]]" "\<lambda>_. 0"]
  by (simp add: add_mset_commute)

text \<open>
  The witness that \<open>Add\<close> stores verifies right after the call, and a further \<open>Add\<close> of
  another element never updates it: it then verifies only if the two powers happen to agree.
\<close>

theorem accumulator_witness_lifetime:
  assumes "acc' = acc_Add sha e acc"
  shows "\<exists>w. fmlookup (ac_witnesses acc') e = Some w \<and> aw_Element w = e \<and>
     acc_Verify sha e (Some (aw_Witness w)) acc' \<and>
     (\<forall>f. f \<noteq> e \<longrightarrow> fmlookup (ac_witnesses (acc_Add sha f acc')) e = Some w \<and>
        acc_Verify sha e (Some (aw_Witness w)) (acc_Add sha f acc') =
          (ac_value acc' = ac_value acc' ^ hashToPrime sha f mod ac_modulus acc))"
proof (intro exI [of _ "\<lparr>aw_Element = e, aw_Witness = ac_value acc\<rparr>"] conjI allI impI)
  fix f
  show "acc_Verify sha e (Some (aw_Witness \<lparr>aw_Element = e, aw_Witness = ac_value acc\<rparr>))
      (acc_Add sha f acc') =
    (ac_value acc' = ac_value acc' ^ hashToPrime sha f mod ac_modulus acc)"
    unfolding acc_Verify_def acc_Add_simps assms option.case accumulator_witness.simps ..
qed (simp_all add: assms acc_Add_def acc_Verify_def Let_def)

lemma be_nat_zeros: "be_nat (replicate n 0) = 0"
  by (induction n) (simp_all add: be_nat_def replicate_append_same [symmetric])

lemma hashToPrime_zero: "hashToPrime (\<lambda>_. 0) d = 2"
proof -
  have "be_bytes (0 :: hash) = replicate 32 0"
    by (simp add: be_bytes_def map_replicate_const del: upt_Suc)
  moreover have "ProbablyPrime 2" by (simp add: ProbablyPrime_def)
  then have "next_prime 2 = 2" by (subst next_prime.simps) simp
  ultimately show ?thesis by (simp add: hashToPrime_def be_nat_zeros numeral_2_eq_2)
qed

theorem accumulator_witness_lifetime_witness:
  "\<exists>w :: accumulator_witness.
     acc_Verify (\<lambda>_. 0) [1] (Some (aw_Witness w)) (acc_Add (\<lambda>_. 0) [1] NewAccumulator) \<and>
     \<not> acc_Verify (\<lambda>_. 0) [1] (Some (aw_Witness w))
         (acc_Add (\<lambda>_. 0) [2] (acc_Add (\<lambda>_. 0) [1] NewAccumulator))"
proof -
  from accumulator_witness_lifetime [OF refl, of "\<lambda>_. 0" "[1]" NewAccumulator]
  obtain w :: accumulator_witness where
    w: "acc_Verify (\<lambda>_. 0) [1] (Some (aw_Witness w)) (acc_Add (\<lambda>_. 0) [1] NewAccumulator)"
      and later: "\<forall>f. f \<noteq> [1] \<longrightarrow>
        acc_Verify (\<lambda>_. 0) [1] (Some (aw_Witness w))
          (acc_Add (\<lambda>_. 0) f (acc_Add (\<lambda>_. 0) [1] NewAccumulator)) =
        (ac_value (acc_Add (\<lambda>_. 0) [1] NewAccumulator) =
         ac_value (acc_Add (\<lambda>_. 0) [1] NewAccumulator) ^ hashToPrime (\<lambda>_. 0) f mod
           ac_modulus NewAccumulator)"
    by metis
  have "[2 :: byte] \<noteq> [1]" by simp
  with later have "acc_Verify (\<lambda>_. 0) [1] (Some (aw_Witness w))
      (acc_Add (\<lambda>_. 0) [2] (acc_Add (\<lambda>_. 0) [1] NewAccumulator)) =
    (3 ^ 2 mod 257 = (3 ^ 2 mod 257) ^ 2 mod (257 :: nat))"
    by (simp only: acc_Add_simps hashToPrime_zero) (simp add: NewAccumulator_def)
  with w show ?thesis by auto
qed

text \<open>
  The modulus is a small prime, so membership proofs can be forged. Whatever was
  accumulated, every element that hashes to an odd prime (every one not hashed to 2) has a witness
  that \<open>Verify\<close> accepts, added or not.
\<close>

theorem accumulator_forgeable:
  assumes "hashToPrime sha e \<noteq> 2"
  shows "\<exists>w. acc_Verify sha e (Some w) (fold (acc_Add sha) es NewAccumulator)"
proof -
  let ?p = "hashToPrime sha e" and ?k = "\<Prod>e\<leftarrow>es. hashToPrime sha e"
  have "\<not> 2 dvd ?p"
    using hashToPrime_range [of sha e] assms
    by (auto simp: ProbablyPrime_def)
  then have "coprime ?p (2 ^ 8)" by (subst coprime_power_right_iff) simp
  then have "gcd ?p 256 = 1" by (simp add: coprime_iff_gcd_eq_1)
  moreover have "?p \<noteq> 0" using hashToPrime_range [of sha e] by simp
  ultimately obtain q j where bezout: "?p * q = 256 * j + 1"
    using bezout_nat [of ?p 256] by metis
  have "(3 ^ (?k * q) mod 257) ^ ?p mod 257 = (3 ^ (?k * q)) ^ ?p mod (257 :: nat)"
    by (rule power_mod)
  also have "(3 ^ (?k * q)) ^ ?p = (3 :: nat) ^ (?k * (?p * q))"
    by (simp only: power_mult [symmetric] ac_simps)
  also have "?k * (?p * q) = ?k + 256 * (?k * j)"
    unfolding bezout by (simp add: algebra_simps)
  also have "3 ^ (?k + 256 * (?k * j)) mod (257 :: nat) = 3 ^ ?k * ((3 ^ 256) ^ (?k * j)) mod 257"
    by (simp only: power_add power_mult)
  also have "\<dots> = 3 ^ ?k * ((3 ^ 256 mod 257) ^ (?k * j) mod 257) mod 257"
    by (simp only: power_mod mod_mult_right_eq)
  also have "\<dots> = 3 ^ ?k mod 257"
    by (simp only: pow3_order) simp
  finally show ?thesis
    using fold_acc_Add(1) [of sha es NewAccumulator]
    by (intro exI [of _ "3 ^ (?k * q) mod 257"])
      (simp add: acc_Verify_def accumulated_value, simp add: NewAccumulator_def)
qed

definition big_digest :: digest where \<comment> \<open>the digest whose first eight bytes read 1\<close>
  "big_digest _ = push_bit 192 1"

lemma hashToPrime_big_digest: "hashToPrime big_digest d = 3"
proof -
  have "take 8 (be_bytes (push_bit 192 1 :: hash)) = [0, 0, 0, 0, 0, 0, 0, 1]"
    by (simp add: be_bytes_def upt_conv_Cons)
  moreover have "{2..<3} = {2 :: nat}" by auto
  then have "ProbablyPrime 3" by (simp add: ProbablyPrime_def)
  then have "next_prime 3 = 3" by (subst next_prime.simps) simp
  ultimately show ?thesis
    by (simp add: hashToPrime_def big_digest_def be_nat_def numeral_3_eq_3)
qed

theorem accumulator_forgeable_witness:
  "\<exists>w. acc_Verify big_digest [7] (Some w) (fold (acc_Add big_digest) [[1], [2]] NewAccumulator)"
  by (rule accumulator_forgeable) (simp add: hashToPrime_big_digest)

end
