(* ===== verification/Crypto_Utils.thy ===== *)
theory Crypto_Utils
  imports Crypto_Accumulator Interfaces Complex_Main
begin

text \<open>
  \<open>crypto/sign.go\<close> and \<open>crypto/utils.go\<close>: the keyed hash used as a signature, signatures over
  ECDSA, the homomorphic commitment, and the approximate membership (AMQ) filter.
\<close>

section \<open>Signatures\<close>

definition Sign :: "digest \<Rightarrow> bytes \<Rightarrow> bytes \<Rightarrow> bytes" where
  "Sign sha d privateKey = be_bytes (sha (d @ privateKey))"

text \<open>
  \<open>ecdsa.Sign\<close> and \<open>ecdsa.Verify\<close> over P-256 are arguments: a private key and a digest give
  an error or a pair \<open>(r, s)\<close>; a public key is its pair of coordinates.
\<close>

type_synonym 'priv ecdsa_sign = "'priv \<Rightarrow> bytes \<Rightarrow> (nat \<times> nat) res"
type_synonym ecdsa_verify = "nat \<times> nat \<Rightarrow> bytes \<Rightarrow> nat \<Rightarrow> nat \<Rightarrow> bool"

text \<open>\<open>generate\<close> is \<open>ecdsa.GenerateKey\<close>, with the curve and the source of random bytes.\<close>

definition GenerateKeyPair :: "('curve \<Rightarrow> 'random \<Rightarrow> 'priv res) \<Rightarrow> 'curve \<Rightarrow> 'random \<Rightarrow> 'priv res" where
  "GenerateKeyPair generate P256 random = generate P256 random"

definition SignData :: "digest \<Rightarrow> 'priv ecdsa_sign \<Rightarrow> bytes \<Rightarrow> 'priv \<Rightarrow> bytes res" where
  "SignData sha sign d privateKey =
     bind_res (sign privateKey (be_bytes (sha d))) (\<lambda>(r, s). Ok (big_Bytes r @ big_Bytes s))"

text \<open>Slicing the public key at 32 panics when it is shorter.\<close>

definition VerifySignature ::
  "digest \<Rightarrow> ecdsa_verify \<Rightarrow> bytes \<Rightarrow> bytes \<Rightarrow> bytes \<Rightarrow> bool res" where
  "VerifySignature sha verify d signature publicKey =
     (if length signature \<noteq> 64 then Ok False
      else let r = be_nat (take 32 signature); s = be_nat (drop 32 signature) in
        if length publicKey < 32 then Panic SliceOutOfRange
        else Ok (verify (be_nat (take 32 publicKey), be_nat (drop 32 publicKey))
               (be_bytes (sha d)) r s))"

text \<open>What \<open>crypto/ecdsa\<close> documents: signatures are in range and verify under the public key.\<close>

definition ecdsa_correct :: "'priv ecdsa_sign \<Rightarrow> ecdsa_verify \<Rightarrow> 'priv \<Rightarrow> nat \<times> nat \<Rightarrow> bool" where
  "ecdsa_correct sign verify priv pub \<longleftrightarrow>
     (\<forall>h r s. sign priv h = Ok (r, s) \<longrightarrow> r < 256 ^ 32 \<and> s < 256 ^ 32 \<and> verify pub h r s)"

lemma length_big_Bytes_ge: "256 ^ k \<le> n \<Longrightarrow> k < length (big_Bytes n)"
proof (induction k arbitrary: n)
  case 0
  then have "n \<noteq> 0" by auto
  then show ?case by (simp add: big_Bytes.simps [of n])
next
  case (Suc k)
  then have "256 ^ k \<le> n div 256"
    using div_le_mono [of "256 * 256 ^ k" n 256] by simp
  moreover have "n \<noteq> 0" using Suc.prems by (metis less_le_not_le zero_less_power zero_less_numeral)
  ultimately show ?case using Suc.IH by (simp add: big_Bytes.simps [of n])
qed

lemma length_big_Bytes_32:
  assumes "n < 256 ^ 32"
  shows "length (big_Bytes n) = 32 \<longleftrightarrow> 256 ^ 31 \<le> n"
proof
  assume "256 ^ 31 \<le> n"
  from length_big_Bytes_ge [OF this] length_big_Bytes_le [OF assms]
  show "length (big_Bytes n) = 32" by linarith
next
  assume "length (big_Bytes n) = 32"
  then show "256 ^ 31 \<le> n"
    using length_big_Bytes_le [of n 31] by linarith
qed

text \<open>
  C40: \<open>SignData\<close> concatenates the minimal byte strings of \<open>r\<close> and \<open>s\<close> while
  \<open>VerifySignature\<close> wants exactly 64 bytes: whatever correct ECDSA is used, a signature made
  with the matching key verifies if and only if both numbers need all 32 bytes.
\<close>

theorem sign_verify_roundtrip:
  assumes "ecdsa_correct sign verify priv (be_nat (take 32 pk), be_nat (drop 32 pk))"
    and "32 \<le> length pk" and "sign priv (be_bytes (sha d)) = Ok (r, s)"
  shows "\<exists>signature. SignData sha sign d priv = Ok signature \<and>
    VerifySignature sha verify d signature pk = Ok (256 ^ 31 \<le> r \<and> 256 ^ 31 \<le> s)"
proof -
  from assms have rs: "r < 256 ^ 32" "s < 256 ^ 32"
    and valid: "verify (be_nat (take 32 pk), be_nat (drop 32 pk)) (be_bytes (sha d)) r s"
    by (auto simp: ecdsa_correct_def)
  let ?sig = "big_Bytes r @ big_Bytes s"
  have "VerifySignature sha verify d ?sig pk = Ok (256 ^ 31 \<le> r \<and> 256 ^ 31 \<le> s)"
  proof (cases "256 ^ 31 \<le> r \<and> 256 ^ 31 \<le> s")
    case True
    with rs have "length (big_Bytes r) = 32" "length (big_Bytes s) = 32"
      by (simp_all only: length_big_Bytes_32)
    with True valid assms(2) show ?thesis
      by (simp add: VerifySignature_def)
  next
    case False
    with rs have "length (big_Bytes r) \<noteq> 32 \<or> length (big_Bytes s) \<noteq> 32"
      by (simp only: length_big_Bytes_32) blast
    with length_big_Bytes_le [OF rs(1)] length_big_Bytes_le [OF rs(2)]
    have "length ?sig \<noteq> 64" by auto
    with False show ?thesis
      by (simp add: VerifySignature_def)
  qed
  then show ?thesis
    by (simp add: SignData_def assms(3))
qed

theorem sign_verify_roundtrip_witness:
  "\<exists>signature. SignData (\<lambda>_. 0) (\<lambda>k h. Ok (k, k + 1)) [] (256 ^ 31) = Ok signature \<and>
     VerifySignature (\<lambda>_. 0) (\<lambda>_ _ r s. s = r + 1) [] signature (replicate 64 1) = Ok True"
  using sign_verify_roundtrip [of "\<lambda>k h. Ok (k, k + 1)" "\<lambda>_ _ r s. s = r + 1" "256 ^ 31"
      "replicate 64 1" "\<lambda>_. 0" "[]" "256 ^ 31" "256 ^ 31 + 1"]
  by (simp add: ecdsa_correct_def)

section \<open>The homomorphic commitment\<close>

definition commitment_p :: nat where
  "commitment_p = 0xFFFFFFFFFFFFFFFFC90FDAA22168C234C4C6628B80DC1CD1"

text \<open>The blinding factor from \<open>crypto/rand\<close> is an argument.\<close>

definition CreateHomomorphicCommitment :: "nat \<Rightarrow> bytes \<Rightarrow> bytes" where
  "CreateHomomorphicCommitment r d =
     (let gv = 2 ^ be_nat d mod commitment_p; hr = 3 ^ r mod commitment_p
      in big_Bytes (gv * hr mod commitment_p))"

text \<open>
  The commitment is homomorphic: multiplying two commitments modulo \<open>p\<close> gives the commitment
  to the sum of the values under the sum of the blinding factors, and it takes at most 24 bytes.
\<close>

theorem commitment_homomorphic:
  assumes "be_nat d = be_nat d1 + be_nat d2"
  shows "be_nat (CreateHomomorphicCommitment (r1 + r2) d) =
      be_nat (CreateHomomorphicCommitment r1 d1) * be_nat (CreateHomomorphicCommitment r2 d2)
        mod commitment_p \<and>
    length (CreateHomomorphicCommitment r d) \<le> 24"
proof -
  have "commitment_p \<noteq> 0" and "commitment_p \<le> 256 ^ 24" by (simp_all add: commitment_p_def)
  then have "x mod commitment_p < 256 ^ 24" for x
    by (metis bot_nat_0.not_eq_extremum mod_less_divisor order_less_le_trans)
  then have "length (CreateHomomorphicCommitment r d) \<le> 24"
    by (simp only: CreateHomomorphicCommitment_def Let_def length_big_Bytes_le)
  moreover have "be_nat (CreateHomomorphicCommitment r d) = 2 ^ be_nat d * 3 ^ r mod commitment_p"
    for r d
    by (simp add: CreateHomomorphicCommitment_def mod_mult_eq)
  ultimately show ?thesis
    by (simp add: assms power_add mod_mult_eq ac_simps)
qed

theorem commitment_homomorphic_witness:
  "be_nat (CreateHomomorphicCommitment (5 + 6) [7]) =
     be_nat (CreateHomomorphicCommitment 5 [3]) * be_nat (CreateHomomorphicCommitment 6 [4])
       mod commitment_p"
  using commitment_homomorphic [of "[7]" "[3]" "[4]" 5 6 0] by (simp add: be_nat_def)

section \<open>The AMQ filter\<close>

text \<open>
  \<open>math.Log\<close> is the real logarithm; rounding of intermediate results is not modelled. The rate
  is positive.
\<close>

definition calculateOptimalSize :: "nat \<Rightarrow> real \<Rightarrow> int" where
  "calculateOptimalSize n p = \<lceil>- real n * ln p / (ln 2 * ln 2)\<rceil>"

record amq_filter =
  amq_bitArray :: "bool list"
  amq_numHashes :: nat
  amq_size :: int
  amq_hashFunctions :: "(bytes \<Rightarrow> u64) list"

definition amq_hash :: "digest \<Rightarrow> nat \<Rightarrow> bytes \<Rightarrow> u64" where
  "amq_hash sha seed d = of_be_bytes (take 8 (be_bytes (sha (d @ [of_nat seed]))))"

definition NewAMQFilter :: "digest \<Rightarrow> real \<Rightarrow> nat \<Rightarrow> amq_filter res" where
  "NewAMQFilter sha falsePositiveRate numHashes =
     (let size = calculateOptimalSize 1000 falsePositiveRate in
      if size < 0 then Panic SliceOutOfRange
      else Ok \<lparr>amq_bitArray = replicate (nat size) False, amq_numHashes = numHashes,
                amq_size = size, amq_hashFunctions = map (amq_hash sha) [0..<numHashes]\<rparr>)"

definition amq_index :: "amq_filter \<Rightarrow> bytes \<Rightarrow> (bytes \<Rightarrow> u64) \<Rightarrow> nat res" where
  "amq_index f d hashFunc =
     (if (word_of_int (amq_size f) :: u64) = 0 then Panic DivideByZero
      else let index = unat (hashFunc d mod word_of_int (amq_size f)) in
        if index < length (amq_bitArray f) then Ok index else Panic IndexOutOfRange)"

definition amq_Add :: "bytes \<Rightarrow> amq_filter \<Rightarrow> amq_filter res" where
  "amq_Add d f =
     fold_res (\<lambda>hashFunc f. bind_res (amq_index f d hashFunc)
         (\<lambda>i. Ok (f\<lparr>amq_bitArray := (amq_bitArray f)[i := True]\<rparr>)))
       (amq_hashFunctions f) f"

fun amq_contains_loop :: "bytes \<Rightarrow> amq_filter \<Rightarrow> (bytes \<Rightarrow> u64) list \<Rightarrow> bool res" where
  "amq_contains_loop d f [] = Ok True"
| "amq_contains_loop d f (hashFunc # hs) =
     bind_res (amq_index f d hashFunc)
       (\<lambda>i. if \<not> amq_bitArray f ! i then Ok False else amq_contains_loop d f hs)"

definition amq_Contains :: "bytes \<Rightarrow> amq_filter \<Rightarrow> bool res" where
  "amq_Contains d f = amq_contains_loop d f (amq_hashFunctions f)"

subsection \<open>The filter on well-formed values\<close>

definition amq_wf :: "amq_filter \<Rightarrow> bool" where
  "amq_wf f \<longleftrightarrow> 0 < amq_size f \<and> amq_size f < 2 ^ 63 \<and>
     length (amq_bitArray f) = nat (amq_size f)"

definition amq_pos :: "amq_filter \<Rightarrow> bytes \<Rightarrow> (bytes \<Rightarrow> u64) \<Rightarrow> nat" where
  "amq_pos f d h = unat (h d) mod nat (amq_size f)"

lemma amq_index_wf: "amq_wf f \<Longrightarrow> amq_index f d h = Ok (amq_pos f d h)"
proof -
  assume wf: "amq_wf f"
  then have size: "uint (word_of_int (amq_size f) :: u64) = amq_size f"
    by (simp add: amq_wf_def uint_word_of_int)
  with wf have "(word_of_int (amq_size f) :: u64) \<noteq> 0"
    by (metis amq_wf_def less_irrefl unsigned_0)
  moreover have "unat (word_of_int (amq_size f) :: u64) = nat (amq_size f)"
    using size by (simp add: unat_eq_nat_uint)
  then have "unat (h d mod word_of_int (amq_size f)) = amq_pos f d h"
    by (simp only: amq_pos_def unat_mod_distrib)
  moreover have "amq_pos f d h < length (amq_bitArray f)"
    using wf by (simp add: amq_wf_def amq_pos_def)
  ultimately show ?thesis
    by (simp add: amq_index_def)
qed

lemma amq_Contains_wf:
  assumes "amq_wf f"
  shows "amq_Contains d f =
    Ok (\<forall>h \<in> set (amq_hashFunctions f). amq_bitArray f ! amq_pos f d h)"
proof -
  have "amq_contains_loop d f hs = Ok (\<forall>h \<in> set hs. amq_bitArray f ! amq_pos f d h)" for hs
    by (induction hs) (simp_all add: amq_index_wf [OF assms])
  then show ?thesis by (simp add: amq_Contains_def)
qed

lemma amq_Add_wf:
  assumes "amq_wf f"
  shows "\<exists>bits. amq_Add d f = Ok (f\<lparr>amq_bitArray := bits\<rparr>) \<and>
    length bits = length (amq_bitArray f) \<and>
    (\<forall>i < length bits. bits ! i \<longleftrightarrow> amq_bitArray f ! i \<or>
       (\<exists>h \<in> set (amq_hashFunctions f). i = amq_pos f d h))"
proof -
  let ?step = "\<lambda>h f. bind_res (amq_index f d h)
         (\<lambda>i. Ok (f\<lparr>amq_bitArray := (amq_bitArray f)[i := True]\<rparr>))"
  have "\<exists>bits. fold_res ?step hs f = Ok (f\<lparr>amq_bitArray := bits\<rparr>) \<and>
    length bits = length (amq_bitArray f) \<and>
    (\<forall>i < length bits. bits ! i \<longleftrightarrow> amq_bitArray f ! i \<or> (\<exists>h \<in> set hs. i = amq_pos f d h))" for hs
    using assms
  proof (induction hs arbitrary: f)
    case Nil
    show ?case by (intro exI [of _ "amq_bitArray f"]) simp
  next
    case (Cons h hs)
    let ?f = "f\<lparr>amq_bitArray := (amq_bitArray f)[amq_pos f d h := True]\<rparr>"
    have "amq_wf ?f" using Cons.prems by (simp add: amq_wf_def)
    from Cons.IH [OF this] obtain bits where bits:
      "fold_res ?step hs ?f = Ok (?f\<lparr>amq_bitArray := bits\<rparr>)"
      "length bits = length (amq_bitArray ?f)"
      "\<forall>i < length bits. bits ! i \<longleftrightarrow>
         amq_bitArray ?f ! i \<or> (\<exists>h \<in> set hs. i = amq_pos ?f d h)"
      by blast
    moreover have "amq_pos ?f d = amq_pos f d"
      by (simp add: amq_pos_def fun_eq_iff)
    moreover have "amq_pos f d h < length (amq_bitArray f)"
      using Cons.prems by (simp add: amq_wf_def amq_pos_def)
    ultimately show ?case
      by (intro exI [of _ bits]) (auto simp: amq_index_wf [OF Cons.prems] nth_list_update)
  qed
  then show ?thesis by (simp add: amq_Add_def)
qed

lemma amq_Add_keeps_wf: "amq_wf f \<Longrightarrow> \<exists>f'. amq_Add d f = Ok f' \<and> amq_wf f'"
  using amq_Add_wf [of f d] by (auto simp: amq_wf_def)

interpretation amq: membership_filter amq_wf amq_Add amq_Contains
proof
  fix f f' :: amq_filter and x y :: bytes
  assume wf: "amq_wf f"
  from wf show "\<exists>f'. amq_Add x f = Ok f' \<and> amq_wf f'" by (rule amq_Add_keeps_wf)
  from wf show "\<exists>b. amq_Contains x f = Ok b" by (simp add: amq_Contains_wf)
  assume add: "amq_Add x f = Ok f'"
  from wf amq_Add_wf [of f x] add obtain bits where
    f': "f' = f\<lparr>amq_bitArray := bits\<rparr>" "length bits = length (amq_bitArray f)"
      "\<forall>i < length bits. bits ! i \<longleftrightarrow> amq_bitArray f ! i \<or>
         (\<exists>h \<in> set (amq_hashFunctions f). i = amq_pos f x h)"
    by auto
  with wf have wf': "amq_wf f'" by (simp add: amq_wf_def)
  have pos: "amq_pos f' d h = amq_pos f d h" "amq_pos f d h < length bits" for d h
    using wf f' by (simp_all add: amq_pos_def amq_wf_def)
  have funs: "amq_hashFunctions f' = amq_hashFunctions f" "amq_bitArray f' = bits"
    using f'(1) by simp_all
  show "amq_Contains x f' = Ok True"
    unfolding amq_Contains_wf [OF wf'] funs pos(1) using f'(3) pos(2) by blast
  assume "amq_Contains y f = Ok True"
  then show "amq_Contains y f' = Ok True"
    unfolding amq_Contains_wf [OF wf'] amq_Contains_wf [OF wf] funs pos(1) res.inject
    using f'(3) pos(2) by blast
qed

subsection \<open>The size of the filter\<close>

lemma ln_2_half: "1 / 2 \<le> ln (2 :: real)"
  using ln_le_minus_one [of "1 / 2 :: real"] by (simp add: ln_div)

lemma calculateOptimalSize_bounds:
  assumes "1 / 1000 \<le> p" and "p < 1"
  shows "0 < calculateOptimalSize 1000 p \<and> calculateOptimalSize 1000 p \<le> 4000000"
proof -
  have sq: "1 / 4 \<le> ln 2 * ln (2 :: real)"
    using mult_mono [OF ln_2_half ln_2_half] by simp
  have "ln p < 0" using assms by (simp add: ln_less_zero)
  then have pos: "0 < - 1000 * ln p / (ln 2 * ln 2)"
    by (simp add: divide_neg_pos)
  have "- ln p = ln (1 / p)" using assms by (simp add: ln_div)
  also have "\<dots> \<le> 1 / p - 1" using assms by (intro ln_le_minus_one) simp
  also have "\<dots> \<le> 999" using assms by (simp add: field_simps)
  finally have "- 1000 * ln p \<le> 999000" by simp
  then have "- 1000 * ln p / (ln 2 * ln 2) \<le> 999000 / (1 / 4)"
    using sq \<open>ln p < 0\<close> by (intro frac_le) simp_all
  with pos show ?thesis
    by (simp add: calculateOptimalSize_def ceiling_le_iff)
qed

lemma NewAMQFilter_wf:
  assumes "1 / 1000 \<le> p" and "p < 1"
  shows "\<exists>f. NewAMQFilter sha p n = Ok f \<and> amq_wf f \<and> length (amq_hashFunctions f) = n \<and>
    (\<forall>d. amq_Contains d f = Ok (n = 0))"
  using calculateOptimalSize_bounds [OF assms]
  by (auto simp: NewAMQFilter_def Let_def amq_wf_def amq_Contains_wf amq_pos_def nat_less_iff)

text \<open>
  The filter has no false negatives and never panics: from a new filter (any rate from 0.001
  up to 1, any number of hash functions) every sequence of \<open>Add\<close> succeeds, every added
  element is then contained, and a filter nothing was added to contains nothing.
\<close>

theorem amq_no_false_negatives:
  assumes "1 / 1000 \<le> p" and "p < 1"
  shows "\<exists>f f'. NewAMQFilter sha p n = Ok f \<and> fold_res amq_Add ds f = Ok f' \<and>
     (\<forall>d \<in> set ds. amq_Contains d f' = Ok True) \<and>
     (\<forall>d. \<exists>b. amq_Contains d f' = Ok b) \<and>
     (n \<noteq> 0 \<longrightarrow> (\<forall>d. amq_Contains d f = Ok False))"
proof -
  from NewAMQFilter_wf [OF assms] obtain f where
    f: "NewAMQFilter sha p n = Ok f" "amq_wf f" "\<forall>d. amq_Contains d f = Ok (n = 0)"
    by blast
  from amq.add_all_wf [OF f(2)] obtain f' where f': "fold_res amq_Add ds f = Ok f'" "amq_wf f'"
    by blast
  with amq.mem_add_all [OF f(2) f'(1)] amq.mem_wf [OF f'(2)] f show ?thesis by auto
qed

theorem amq_no_false_negatives_witness:
  "\<exists>f f'. NewAMQFilter height_digest (1 / 100) 4 = Ok f \<and>
     fold_res amq_Add [[1], [2, 3]] f = Ok f' \<and>
     amq_Contains [2, 3] f' = Ok True \<and> amq_Contains [2, 3] f = Ok False"
  using amq_no_false_negatives [of "1 / 100" height_digest 4 "[[1], [2, 3]]"] by auto

end
