(* ===== verification/Merkle_Proof.thy ===== *)
theory Merkle_Proof
  imports Merkle_Tree Crypto_Utils Go_Float
begin

text \<open>
  \<open>merkle/proof.go\<close>: Merkle proofs with an optional AMQ filter, their verification, and the
  sampling compressor.
\<close>

section \<open>Proofs\<close>

datatype proof_type = StandardProof | CompressedProof | ProbabilisticProof | AccumulatorProof

record merkle_proof =
  mp_Path :: "proof_node list"
  mp_Root :: hash
  mp_AMQFilter :: "amq_filter option"
  mp_Compressed :: bool
  mp_ProofType :: proof_type

text \<open>The record that \<open>MerkleTree.GenerateProof\<close> returns.\<close>

definition standard_proof :: "proof_node list \<Rightarrow> hash \<Rightarrow> merkle_proof" where
  "standard_proof path rt =
     \<lparr>mp_Path = path, mp_Root = rt, mp_AMQFilter = None, mp_Compressed = False,
      mp_ProofType = StandardProof\<rparr>"

definition proof_Verify :: "digest \<Rightarrow> merkle_proof \<Rightarrow> bytes \<Rightarrow> bytes \<Rightarrow> bool res" where
  "proof_Verify sha p key v =
     bind_res (case mp_AMQFilter p of None \<Rightarrow> Ok True | Some f \<Rightarrow> amq_Contains key f) (\<lambda>inFilter.
       if \<not> inFilter then Ok False
       else Ok (fold_path sha (mp_Path p) (ComputeHash sha (key @ v)) = mp_Root p))"

section \<open>Sampling and compression\<close>

record proof_compressor =
  pc_samplingRate :: f64
  pc_minNodes :: nat
  pc_compressionAlgo :: string

definition NewProofCompressor :: proof_compressor where
  "NewProofCompressor = \<lparr>pc_samplingRate = f64_round (7 / 10), pc_minNodes = 3,
     pc_compressionAlgo = ''probabilistic''\<rparr>"

definition shouldSample :: "proof_compressor \<Rightarrow> nat \<Rightarrow> nat \<Rightarrow> bool" where
  "shouldSample pc index totalLength =
     (let importance = f64_sub (Fin 1)
        (f64_div (f64_of_int (int index)) (f64_of_int (int totalLength)))
      in f64_less (f64_sub (Fin 1) (pc_samplingRate pc)) importance)"

definition SamplePath :: "proof_compressor \<Rightarrow> proof_node list \<Rightarrow> proof_node list" where
  "SamplePath pc path =
     (if length path \<le> pc_minNodes pc then path
      else (if path \<noteq> [] then [path ! 0] else []) @
        map ((!) path) (filter (\<lambda>i. shouldSample pc i (length path)) [1..<length path - 1]) @
        (if 1 < length path then [path ! (length path - 1)] else []))"

record amq_generator =
  ag_falsePositiveRate :: real
  ag_hashFunctions :: nat

definition NewAMQGenerator :: amq_generator where
  "NewAMQGenerator = \<lparr>ag_falsePositiveRate = 1 / 100, ag_hashFunctions = 4\<rparr>"

definition GenerateFilter :: "digest \<Rightarrow> amq_generator \<Rightarrow> proof_node list \<Rightarrow> amq_filter res" where
  "GenerateFilter sha ag path =
     bind_res (NewAMQFilter sha (ag_falsePositiveRate ag) (ag_hashFunctions ag))
       (fold_res (\<lambda>node. amq_Add (be_bytes (pn_Hash node))) path)"

record proof_generator =
  pg_compressor :: proof_compressor
  pg_amqGenerator :: amq_generator

definition NewProofGenerator :: proof_generator where
  "NewProofGenerator = \<lparr>pg_compressor = NewProofCompressor, pg_amqGenerator = NewAMQGenerator\<rparr>"

definition CompressProof ::
  "digest \<Rightarrow> proof_generator \<Rightarrow> merkle_proof option \<Rightarrow> merkle_proof option res" where
  "CompressProof sha pg proof =
     (case proof of
        None \<Rightarrow> Ok None
      | Some p \<Rightarrow>
          let sampledPath = SamplePath (pg_compressor pg) (mp_Path p) in
          bind_res (GenerateFilter sha (pg_amqGenerator pg) (mp_Path p)) (\<lambda>f.
            Ok (Some \<lparr>mp_Path = sampledPath, mp_Root = mp_Root p, mp_AMQFilter = Some f,
              mp_Compressed = True, mp_ProofType = CompressedProof\<rparr>)))"

definition DecompressProof :: "merkle_proof \<Rightarrow> merkle_proof" where
  "DecompressProof p =
     (if \<not> mp_Compressed p then p
      else \<lparr>mp_Path = mp_Path p, mp_Root = mp_Root p, mp_AMQFilter = None,
            mp_Compressed = False, mp_ProofType = StandardProof\<rparr>)"

definition CreateAMQFilter :: "digest \<Rightarrow> proof_generator \<Rightarrow> merkle_proof \<Rightarrow> amq_filter res" where
  "CreateAMQFilter sha pg p = GenerateFilter sha (pg_amqGenerator pg) (mp_Path p)"

section \<open>The filter of a path\<close>

lemma fold_res_map: "fold_res (\<lambda>x. f (g x)) xs s = fold_res f (map g xs) s"
  by (induction xs arbitrary: s) (simp_all, metis bind_res.simps is_Ok.cases)

lemma GenerateFilter_Ok:
  "\<exists>f. GenerateFilter sha NewAMQGenerator path = Ok f \<and> amq_wf f \<and>
     (\<forall>node \<in> set path. amq_Contains (be_bytes (pn_Hash node)) f = Ok True) \<and>
     (path = [] \<longrightarrow> (\<forall>d. amq_Contains d f = Ok False))"
proof -
  obtain f where f: "NewAMQFilter sha (1 / 100) 4 = Ok f" "amq_wf f"
      "\<forall>d. amq_Contains d f = Ok False"
    using NewAMQFilter_wf [of "1 / 100" sha 4] by auto
  let ?ds = "map (\<lambda>node. be_bytes (pn_Hash node)) path"
  from amq.add_all_wf [OF f(2)] obtain f' where f': "fold_res amq_Add ?ds f = Ok f'" "amq_wf f'"
    by blast
  then have gen: "GenerateFilter sha NewAMQGenerator path = Ok f'"
    using f(1) fold_res_map [of amq_Add "\<lambda>node. be_bytes (pn_Hash node)" path f]
    by (simp add: GenerateFilter_def NewAMQGenerator_def)
  have "amq_Contains (be_bytes (pn_Hash node)) f' = Ok True" if "node \<in> set path" for node
    using that by (intro amq.mem_add_all [OF f(2) f'(1)]) simp
  moreover have "path = [] \<longrightarrow> (\<forall>d. amq_Contains d f' = Ok False)"
    using f' f(3) by auto
  ultimately show ?thesis using gen f'(2) by blast
qed

section \<open>Which nodes sampling keeps\<close>

lemma sampling_threshold:
  "f64_sub (Fin 1) (f64_round (7 / 10)) = Fin (1351079888211149 / 4503599627370496)"
  using f64_roundI [of "- 2" "1351079888211149 / 4503599627370496" "5404319552844596"]
  by (simp add: f64_constants f64_sub_def pow2_def)

lemma rnd_two_thirds: "rnd (2 / 3) = 6004799503160661 / 9007199254740992"
  using f64_roundI [of "- 1" "2 / 3" 6004799503160661] rnd_range [of "2 / 3" 1]
  by (simp add: pow2_def)

lemma rnd_five_sevenths: "rnd (5 / 7) = 6433713753386423 / 9007199254740992"
  using f64_roundI [of "- 1" "5 / 7" 6433713753386423] rnd_range [of "5 / 7" 1]
  by (simp add: pow2_def)

lemma shouldSample_eq:
  assumes "i \<le> n" and "0 < n" and "n < 2 ^ 53"
  shows "shouldSample NewProofCompressor i n \<longleftrightarrow>
    1351079888211149 / 4503599627370496 < rnd (1 - rnd (rat_of_nat i / rat_of_nat n))"
proof -
  have "int n < 2 ^ 53" using assms(3) by (metis of_nat_less_iff of_nat_numeral of_nat_power)
  with assms have ints: "f64_of_int (int i) = Fin (of_nat i)" "f64_of_int (int n) = Fin (of_nat n)"
    by (simp_all add: f64_of_int_exact)
  have q: "0 \<le> rnd (of_nat i / of_nat n)" "rnd (of_nat i / of_nat n) \<le> 1"
      "f64_round (of_nat i / of_nat n) = Fin (rnd (of_nat i / of_nat n))"
    using rnd_range [of "of_nat i / of_nat n" 1] assms by simp_all
  then have "f64_round (1 - rnd (of_nat i / of_nat n)) = Fin (rnd (1 - rnd (of_nat i / of_nat n)))"
    using rnd_range [of "1 - rnd (of_nat i / of_nat n)" 1] by simp
  with q assms(2) show ?thesis
    by (simp add: shouldSample_def NewProofCompressor_def sampling_threshold ints)
      (simp add: f64_sub_def)
qed

lemma shouldSample_keeps:
  assumes "3 * i \<le> 2 * n" and "0 < n" and "n < 2 ^ 53"
  shows "shouldSample NewProofCompressor i n"
proof -
  have "of_nat (3 * i) \<le> (of_nat (2 * n) :: rat)" using assms(1) by (simp only: of_nat_le_iff)
  then have "of_nat i / of_nat n \<le> (2 / 3 :: rat)" using assms(2) by (simp add: field_simps)
  then have "rnd (of_nat i / of_nat n) \<le> 6004799503160661 / 9007199254740992"
    using rnd_mono [of "of_nat i / of_nat n" "2 / 3"] rnd_two_thirds by simp
  then have "rnd (3 / 10 + 1 / 100) \<le> rnd (1 - rnd (of_nat i / of_nat n))"
    by (intro rnd_mono) simp_all
  moreover have "rnd (3 / 10 + 1 / 100) = 5584463537939415 / 18014398509481984"
    using f64_roundI [of "- 2" "31 / 100" 5584463537939415] rnd_range [of "31 / 100" 1]
    by (simp add: pow2_def)
  moreover have "i \<le> n" using assms(1) by simp
  ultimately show ?thesis using assms by (simp add: shouldSample_eq)
qed

lemma shouldSample_drops:
  assumes "5 * n \<le> 7 * i" and "i \<le> n" and "0 < n" and "n < 2 ^ 53"
  shows "\<not> shouldSample NewProofCompressor i n"
proof -
  have "of_nat (5 * n) \<le> (of_nat (7 * i) :: rat)" using assms(1) by (simp only: of_nat_le_iff)
  then have "5 / 7 \<le> (of_nat i / of_nat n :: rat)" using assms(3) by (simp add: field_simps)
  then have "6433713753386423 / 9007199254740992 \<le> rnd (of_nat i / of_nat n)"
    using rnd_mono [of "5 / 7" "of_nat i / of_nat n"] rnd_five_sevenths by simp
  moreover have "rnd (of_nat i / of_nat n) \<le> 1"
    using rnd_range [of "of_nat i / of_nat n" 1] assms by simp
  ultimately have "rnd (1 - rnd (of_nat i / of_nat n)) \<le> rnd (29 / 100)"
    by (intro rnd_mono) simp_all
  moreover have "rnd (29 / 100) = 5224175567749775 / 18014398509481984"
    using f64_roundI [of "- 2" "29 / 100" 5224175567749775] rnd_range [of "29 / 100" 1]
    by (simp add: pow2_def)
  ultimately show ?thesis using assms by (simp add: shouldSample_eq)
qed

lemma SamplePath_keeps:
  assumes "length path \<le> 6"
  shows "SamplePath NewProofCompressor path = path"
proof (cases "length path \<le> 3")
  case False
  let ?n = "length path"
  have "filter (\<lambda>i. shouldSample NewProofCompressor i ?n) [1..<?n - 1] = [1..<?n - 1]"
  proof (rule filter_True, rule ballI)
    fix i
    assume "i \<in> set [1..<?n - 1]"
    with assms False have "3 * i \<le> 2 * ?n" by auto
    then show "shouldSample NewProofCompressor i ?n"
      using assms False by (intro shouldSample_keeps) auto
  qed
  then have "SamplePath NewProofCompressor path = map ((!) path) ([0] @ [1..<?n - 1] @ [?n - 1])"
    using False by (auto simp: SamplePath_def NewProofCompressor_def)
  also have "0 < ?n - 1" using False by simp
  from upt_conv_Cons [OF this] have "[0] @ [1..<?n - 1] @ [?n - 1] = [0..<?n]"
    using False by (cases path) simp_all
  finally show ?thesis by (simp add: map_nth)
qed (simp add: SamplePath_def NewProofCompressor_def)

lemma SamplePath_drops:
  assumes "7 \<le> length path" and "length path < 2 ^ 53"
  shows "length (SamplePath NewProofCompressor path) < length path"
proof -
  let ?n = "length path"
  have "\<not> shouldSample NewProofCompressor (?n - 2) ?n"
    using assms by (intro shouldSample_drops) auto
  then have "length (filter (\<lambda>i. shouldSample NewProofCompressor i ?n) [1..<?n - 1]) <
      length [1..<?n - 1]"
    using assms(1) by (intro length_filter_less [of "?n - 2"]) auto
  then have "length (filter (\<lambda>i. shouldSample NewProofCompressor i ?n) [1..<?n - 1]) < ?n - 2"
    by simp
  moreover have "length (SamplePath NewProofCompressor path) =
      length (filter (\<lambda>i. shouldSample NewProofCompressor i ?n) [1..<?n - 1]) + 2"
    using assms(1) by (auto simp: SamplePath_def NewProofCompressor_def)
  ultimately show ?thesis using assms(1) by linarith
qed

section \<open>Properties\<close>

text \<open>
  C34: compression is lossless exactly for paths of at most six nodes: \<open>CompressProof\<close> always
  succeeds, keeps the root and a filter that contains every hash of the path, and decompressing
  gives the path back if and only if it has at most six nodes. For an empty path (a tree
  with one leaf) the filter is empty and the compressed proof is rejected for every key and value.
\<close>

theorem compression_lossless_iff:
  assumes "length (mp_Path p) < 2 ^ 53"
  shows "\<exists>c. CompressProof sha NewProofGenerator (Some p) = Ok (Some c) \<and> mp_Root c = mp_Root p \<and>
    (mp_Path (DecompressProof c) = mp_Path p \<longleftrightarrow> length (mp_Path p) \<le> 6) \<and>
    (\<forall>node \<in> set (mp_Path p). \<exists>f. mp_AMQFilter c = Some f \<and>
       amq_Contains (be_bytes (pn_Hash node)) f = Ok True) \<and>
    (mp_Path p = [] \<longrightarrow> (\<forall>key v. proof_Verify sha c key v = Ok False))"
proof -
  from GenerateFilter_Ok [of sha "mp_Path p"] obtain f where f:
    "GenerateFilter sha NewAMQGenerator (mp_Path p) = Ok f"
    "\<forall>node \<in> set (mp_Path p). amq_Contains (be_bytes (pn_Hash node)) f = Ok True"
    "mp_Path p = [] \<longrightarrow> (\<forall>d. amq_Contains d f = Ok False)"
    by blast
  have "SamplePath NewProofCompressor (mp_Path p) = mp_Path p \<longleftrightarrow> length (mp_Path p) \<le> 6"
    using SamplePath_keeps [of "mp_Path p"] SamplePath_drops [of "mp_Path p"] assms
    by (metis eval_nat_numeral(3) less_irrefl not_less_eq_eq)
  with f show ?thesis
    by (auto simp: CompressProof_def NewProofGenerator_def DecompressProof_def Let_def
        proof_Verify_def)
qed

theorem compression_lossless_iff_witness:
  "\<exists>c. CompressProof height_digest NewProofGenerator
       (Some (standard_proof
         (replicate 7 \<lparr>pn_Hash = 0, pn_Position = LeftPos, pn_IsLeaf = False\<rparr>) 0)) = Ok (Some c) \<and>
     mp_Path (DecompressProof c) \<noteq>
       replicate 7 \<lparr>pn_Hash = 0, pn_Position = LeftPos, pn_IsLeaf = False\<rparr>"
  using compression_lossless_iff [of "standard_proof
    (replicate 7 \<lparr>pn_Hash = 0, pn_Position = LeftPos, pn_IsLeaf = False\<rparr>) 0" height_digest]
  by (auto simp: standard_proof_def)

text \<open>The messages hashed while a path is folded.\<close>

fun path_msgs :: "digest \<Rightarrow> proof_node list \<Rightarrow> hash \<Rightarrow> bytes list" where
  "path_msgs sha [] h = []"
| "path_msgs sha (n # path) h =
     (let m = (case pn_Position n of
          LeftPos \<Rightarrow> be_bytes (pn_Hash n) @ be_bytes h
        | RightPos \<Rightarrow> be_bytes h @ be_bytes (pn_Hash n))
      in m # path_msgs sha path (sha m))"

lemma fold_path_Cons_sha:
  "fold_path sha (n # path) h = fold_path sha path (sha (case pn_Position n of
     LeftPos \<Rightarrow> be_bytes (pn_Hash n) @ be_bytes h | RightPos \<Rightarrow> be_bytes h @ be_bytes (pn_Hash n)))"
  by (simp add: pair_hash_def ComputeHash_def split: position.split)

definition collision_in :: "digest \<Rightarrow> bytes list \<Rightarrow> bytes list \<Rightarrow> bool" where
  "collision_in sha ms ms' \<longleftrightarrow> (\<exists>(x, y) \<in> set (zip ms ms'). x \<noteq> y \<and> sha x = sha y)"

lemma fold_path_binding:
  assumes "map pn_Position path = map pn_Position path'"
    and "fold_path sha path h = fold_path sha path' h'"
  shows "(h = h' \<and> map pn_Hash path = map pn_Hash path') \<or>
    collision_in sha (path_msgs sha path h) (path_msgs sha path' h')"
  using assms
proof (induction path arbitrary: path' h h')
  case Nil
  then show ?case by simp
next
  case (Cons n path)
  then obtain n' rest where path': "path' = n' # rest" by (cases path') auto
  let ?m = "case pn_Position n of
     LeftPos \<Rightarrow> be_bytes (pn_Hash n) @ be_bytes h | RightPos \<Rightarrow> be_bytes h @ be_bytes (pn_Hash n)"
  let ?m' = "case pn_Position n' of
     LeftPos \<Rightarrow> be_bytes (pn_Hash n') @ be_bytes h' | RightPos \<Rightarrow> be_bytes h' @ be_bytes (pn_Hash n')"
  from Cons.prems path' have "fold_path sha path (sha ?m) = fold_path sha rest (sha ?m')"
      "map pn_Position path = map pn_Position rest" and pos: "pn_Position n = pn_Position n'"
    by (simp_all add: fold_path_Cons_sha del: fold_path.simps)
  with Cons.IH consider
      "sha ?m = sha ?m'" "map pn_Hash path = map pn_Hash rest"
    | "collision_in sha (path_msgs sha path (sha ?m)) (path_msgs sha rest (sha ?m'))"
    by blast
  then show ?case
  proof cases
    case 1
    show ?thesis
    proof (cases "?m = ?m'")
      case True
      with pos have "h = h' \<and> pn_Hash n = pn_Hash n'" by (auto split: position.splits)
      with 1 path' show ?thesis by simp
    next
      case False
      with 1 path' show ?thesis by (simp add: collision_in_def Let_def)
    qed
  next
    case 2
    with path' show ?thesis by (auto simp: collision_in_def Let_def)
  qed
qed

text \<open>
  C8: an accepted proof is binding: if two proofs of the same shape for the same root are accepted
  for two keys and values, then the hashed inputs and all path hashes agree, or two different
  messages among those hashed in the two verifications collide under the hash function.
\<close>

theorem Verify_binding:
  assumes "proof_Verify sha p key v = Ok True" and "proof_Verify sha p' key' v' = Ok True"
    and "mp_Root p = mp_Root p'" and "map pn_Position (mp_Path p) = map pn_Position (mp_Path p')"
  shows "(key @ v = key' @ v' \<and> map pn_Hash (mp_Path p) = map pn_Hash (mp_Path p')) \<or>
    collision_in sha ((key @ v) # path_msgs sha (mp_Path p) (ComputeHash sha (key @ v)))
      ((key' @ v') # path_msgs sha (mp_Path p') (ComputeHash sha (key' @ v')))"
proof -
  from assms(1-3) have "fold_path sha (mp_Path p) (ComputeHash sha (key @ v)) =
      fold_path sha (mp_Path p') (ComputeHash sha (key' @ v'))"
    by (auto simp: proof_Verify_def bind_res_Ok_iff split: if_splits)
  from fold_path_binding [OF assms(4) this] show ?thesis
    by (auto simp: collision_in_def ComputeHash_def)
qed

theorem Verify_binding_witness:
  "proof_Verify height_digest (standard_proof [] (height_digest [1, 2])) [1] [2] = Ok True \<and>
   [1] @ [2] = [1, 2] @ ([] :: bytes)"
proof -
  let ?p = "standard_proof [] (height_digest [1, 2])"
  have "proof_Verify height_digest ?p [1] [2] = Ok True"
      "proof_Verify height_digest ?p [1, 2] [] = Ok True"
    by (simp_all add: proof_Verify_def standard_proof_def ComputeHash_def)
  from Verify_binding [OF this refl refl] this(1) show ?thesis by simp
qed

text \<open>
  C7: tree proofs prove membership of a key, not of a value: a proof that the tree generates for a
  key verifies for that key with the empty value, and if it also verifies with a non-empty value
  then a hash collision is among the verified messages. The test of the forest
  (\<open>merkle/merkle_test.go\<close>, line 56) asserts the opposite, that the proof generated for a key verifies
  with a non-empty value; the code decides here: \<open>GenerateProof\<close> looks up the hash of the key alone, while
  \<open>Verify\<close> starts from the hash of the key followed by the value.
\<close>

theorem tree_proof_verifies:
  assumes "fold_res (AddLeaf sha) leaves NewMerkleTree = Ok mt"
    and "ComputeHash sha key \<in> set leaves"
  shows "\<exists>path. tree_GenerateProof sha key mt = Some (Some (path, root_of sha leaves)) \<and>
    proof_Verify sha (standard_proof path (root_of sha leaves)) key [] = Ok True \<and>
    (proof_Verify sha (standard_proof path (root_of sha leaves)) key v = Ok True \<longrightarrow> v \<noteq> [] \<longrightarrow>
       collision_in sha ((key @ v) # path_msgs sha path (ComputeHash sha (key @ v)))
         (key # path_msgs sha path (ComputeHash sha key)))"
proof -
  from AddLeaves_ok [OF NewMerkleTree_ok, of sha leaves] assms(1)
  have "tree_ok sha mt" "mt_Leaves mt = leaves" by (auto simp: NewMerkleTree_def)
  with assms(2) obtain path where path:
    "tree_GenerateProof sha key mt = Some (Some (path, root_of sha leaves))"
    "fold_path sha path (ComputeHash sha key) = root_of sha leaves"
    by (fastforce simp: tree_GenerateProof_def tree_ok_def Let_def)
  let ?p = "standard_proof path (root_of sha leaves)"
  have empty: "proof_Verify sha ?p key [] = Ok True"
    using path(2) by (simp add: proof_Verify_def standard_proof_def)
  have "collision_in sha ((key @ v) # path_msgs sha path (ComputeHash sha (key @ v)))
      (key # path_msgs sha path (ComputeHash sha key))"
    if "proof_Verify sha ?p key v = Ok True" "v \<noteq> []"
  proof -
    from that(1) path(2) have "fold_path sha path (ComputeHash sha (key @ v)) =
        fold_path sha path (ComputeHash sha key)"
      by (simp add: proof_Verify_def standard_proof_def)
    from fold_path_binding [OF refl this] that(2) show ?thesis
      by (auto simp: collision_in_def ComputeHash_def)
  qed
  with path(1) empty show ?thesis by blast
qed

theorem tree_proof_verifies_witness:
  "\<exists>mt path. fold_res (AddLeaf height_digest) [7, 0] NewMerkleTree = Ok mt \<and>
     proof_Verify height_digest (standard_proof path (root_of height_digest [7, 0])) [] [] = Ok True"
proof -
  obtain mt where mt: "fold_res (AddLeaf height_digest) [7, 0] NewMerkleTree = Ok mt"
    using AddLeaves_ok [OF NewMerkleTree_ok, of height_digest "[7, 0]"] by blast
  have "ComputeHash height_digest [] \<in> set [7, 0]"
    by (simp add: ComputeHash_def height_digest_def of_be_bytes_def word_rcat_def)
  from tree_proof_verifies [OF mt this] mt show ?thesis by blast
qed

end
