(* ===== verification/Shard_Tree.thy ===== *)
theory Shard_Tree
  imports Merkle_Tree Go_Float
begin

text \<open>
  The shard hierarchy of \<open>merkle/shard.go\<close>: nodes with parent and child pointers in a heap of
  their own, and the index by shard ID.
\<close>

record shard_node =
  sn_ShardID :: u32
  sn_Parent :: "ptr option"
  sn_Children :: "ptr list"
  sn_Depth :: int
  sn_LoadFactor :: f64

record shard_tree =
  st_Root :: "ptr option"
  st_NodeMap :: "(u32, ptr) fmap"
  st_heap :: "shard_node list"

definition NewShardTree :: shard_tree where
  "NewShardTree = \<lparr>st_Root = None, st_NodeMap = fmempty, st_heap = []\<rparr>"

definition shard_child :: "u32 \<Rightarrow> ptr option \<Rightarrow> int \<Rightarrow> shard_node" where
  "shard_child shardID parent depth =
     \<lparr>sn_ShardID = shardID, sn_Parent = parent, sn_Children = [], sn_Depth = depth,
      sn_LoadFactor = Fin 0\<rparr>"

definition AddRootNode :: "u32 \<Rightarrow> shard_tree \<Rightarrow> shard_tree" where
  "AddRootNode shardID st =
     (let p = length (st_heap st) in
      st\<lparr>st_Root := Some p, st_NodeMap := fmupd shardID p (st_NodeMap st),
         st_heap := st_heap st @ [shard_child shardID None 0]\<rparr>)"

definition AddChildNodes :: "u32 \<Rightarrow> u32 \<Rightarrow> u32 \<Rightarrow> shard_tree \<Rightarrow> shard_tree" where
  "AddChildNodes parentID leftID rightID st =
     (case fmlookup (st_NodeMap st) parentID of
        None \<Rightarrow> st
      | Some parent \<Rightarrow>
          let heap = st_heap st; node = heap ! parent; depth = sn_Depth node + 1;
              l = length heap; r = l + 1;
              heap1 = heap @ [shard_child leftID (Some parent) depth,
                              shard_child rightID (Some parent) depth]
          in st\<lparr>st_heap := heap1[parent := node\<lparr>sn_Children := [l, r]\<rparr>],
                st_NodeMap := fmupd rightID r (fmupd leftID l (st_NodeMap st))\<rparr>)"

text \<open>Two root nodes share the parent nil, which is then dereferenced.\<close>

definition ReplaceNodes :: "u32 \<Rightarrow> u32 \<Rightarrow> u32 \<Rightarrow> shard_tree \<Rightarrow> shard_tree res" where
  "ReplaceNodes id1 id2 mergedID st =
     (case (fmlookup (st_NodeMap st) id1, fmlookup (st_NodeMap st) id2) of
        (Some node1, Some node2) \<Rightarrow>
          let heap = st_heap st in
          if sn_Parent (heap ! node1) \<noteq> sn_Parent (heap ! node2) then Ok st
          else (case sn_Parent (heap ! node1) of
              None \<Rightarrow> Panic NilDereference
            | Some parent \<Rightarrow>
                let merged = length heap;
                    heap1 = heap @ [shard_child mergedID (Some parent) (sn_Depth (heap ! node1))];
                    newChildren = filter (\<lambda>c. sn_ShardID (heap ! c) \<noteq> id1 \<and>
                        sn_ShardID (heap ! c) \<noteq> id2) (sn_Children (heap ! parent)) @ [merged]
                in Ok (st\<lparr>st_heap := heap1[parent := (heap ! parent)\<lparr>sn_Children := newChildren\<rparr>],
                   st_NodeMap := fmupd mergedID merged
                     (fmdrop id2 (fmdrop id1 (st_NodeMap st)))\<rparr>))
      | _ \<Rightarrow> Ok st)"

section \<open>The hierarchy invariant\<close>

text \<open>
  A child sits one level below its parent and was allocated later, and child and parent pointers
  agree; the index files nodes under their own ID.
\<close>

definition links_ok :: "shard_node list \<Rightarrow> bool" where
  "links_ok heap \<longleftrightarrow>
     (\<forall>p < length heap. \<forall>q. sn_Parent (heap ! p) = Some q \<longrightarrow>
        q < p \<and> sn_Depth (heap ! p) = sn_Depth (heap ! q) + 1) \<and>
     (\<forall>p < length heap. \<forall>c \<in> set (sn_Children (heap ! p)).
        c < length heap \<and> sn_Parent (heap ! c) = Some p)"

definition stree_ok :: "shard_tree \<Rightarrow> bool" where
  "stree_ok st \<longleftrightarrow> links_ok (st_heap st) \<and>
     (\<forall>i p. fmlookup (st_NodeMap st) i = Some p \<longrightarrow>
        p < length (st_heap st) \<and> sn_ShardID (st_heap st ! p) = i)"

lemma links_ok_extend:
  assumes ok: "links_ok h" and parent: "parent < length h"
    and new: "\<forall>n \<in> set new. sn_Parent n = Some parent \<and> sn_Children n = [] \<and>
      sn_Depth n = sn_Depth (h ! parent) + 1"
    and cs: "\<forall>c \<in> set cs. c < length (h @ new) \<and> sn_Parent ((h @ new) ! c) = Some parent"
  shows "links_ok ((h @ new)[parent := (h ! parent)\<lparr>sn_Children := cs\<rparr>])"
proof -
  let ?h = "(h @ new)[parent := (h ! parent)\<lparr>sn_Children := cs\<rparr>]"
  have same: "sn_Parent (?h ! p) = sn_Parent ((h @ new) ! p)"
      "sn_Depth (?h ! p) = sn_Depth ((h @ new) ! p)"
      "sn_Children (?h ! p) = (if p = parent then cs else sn_Children ((h @ new) ! p))"
    if "p < length (h @ new)" for p
    using that parent by (simp_all add: nth_list_update nth_append)
  have added: "(h @ new) ! p \<in> set new" if "p < length (h @ new)" "\<not> p < length h" for p
    using that by (simp add: nth_append)
  have up: "q < p \<and> sn_Depth (?h ! p) = sn_Depth (?h ! q) + 1"
    if p: "p < length ?h" and q: "sn_Parent (?h ! p) = Some q" for p q
  proof (cases "p < length h")
    case True
    with p q same(1) [of p] have "sn_Parent (h ! p) = Some q" by (simp add: nth_append)
    with ok True have "q < p" "sn_Depth (h ! p) = sn_Depth (h ! q) + 1"
      unfolding links_ok_def by blast+
    with True same(2) [of p] same(2) [of q] show ?thesis by (simp add: nth_append)
  next
    case False
    with added [of p] new p q same [of p] have "q = parent" "p > parent"
        "sn_Depth ((h @ new) ! p) = sn_Depth (h ! parent) + 1"
      using parent by auto
    with p parent same(2) [of p] same(2) [of parent] show ?thesis by (simp add: nth_append)
  qed
  have down: "c < length ?h \<and> sn_Parent (?h ! c) = Some p"
    if p: "p < length ?h" and c: "c \<in> set (sn_Children (?h ! p))" for p c
  proof (cases "p = parent")
    case True
    with p c same cs show ?thesis by simp
  next
    case other: False
    show ?thesis
    proof (cases "p < length h")
      case True
      with other p c same have "c \<in> set (sn_Children (h ! p))" by (simp add: nth_append)
      with ok True have "c < length h" "sn_Parent (h ! c) = Some p"
        unfolding links_ok_def by blast+
      with same [of c] show ?thesis by (simp add: nth_append)
    next
      case False
      with added [of p] new p c same [of p] other show ?thesis by auto
    qed
  qed
  from up down show ?thesis unfolding links_ok_def by blast
qed

lemma NewShardTree_ok: "stree_ok NewShardTree"
  by (simp add: stree_ok_def links_ok_def NewShardTree_def)

lemma links_ok_root:
  assumes "links_ok h" and "sn_Parent n = None" and "sn_Children n = []"
  shows "links_ok (h @ [n])"
  unfolding links_ok_def
proof (intro conjI allI impI ballI)
  fix p q
  assume "p < length (h @ [n])" "sn_Parent ((h @ [n]) ! p) = Some q"
  with assms(2) have p: "p < length h" "sn_Parent (h ! p) = Some q"
    by (auto simp: nth_append split: if_splits)
  with assms(1) have "q < p" "sn_Depth (h ! p) = sn_Depth (h ! q) + 1"
    unfolding links_ok_def by blast+
  with p show "q < p" "sn_Depth ((h @ [n]) ! p) = sn_Depth ((h @ [n]) ! q) + 1"
    by (simp_all add: nth_append)
next
  fix p c
  assume "p < length (h @ [n])" "c \<in> set (sn_Children ((h @ [n]) ! p))"
  with assms(3) have "p < length h" "c \<in> set (sn_Children (h ! p))"
    by (auto simp: nth_append split: if_splits)
  with assms(1) have "c < length h" "sn_Parent (h ! c) = Some p"
    unfolding links_ok_def by blast+
  then show "c < length (h @ [n])" "sn_Parent ((h @ [n]) ! c) = Some p"
    by (simp_all add: nth_append)
qed

lemma stree_ok_extend:
  assumes ok: "stree_ok st" and parent: "parent < length (st_heap st)"
    and links: "links_ok ((st_heap st @ new)[parent := (st_heap st ! parent)\<lparr>sn_Children := cs\<rparr>])"
    and index: "\<And>i p. fmlookup m i = Some p \<Longrightarrow> fmlookup (st_NodeMap st) i = Some p \<or>
      (\<exists>k < length new. p = length (st_heap st) + k \<and> sn_ShardID (new ! k) = i)"
  shows "stree_ok (st\<lparr>
    st_heap := (st_heap st @ new)[parent := (st_heap st ! parent)\<lparr>sn_Children := cs\<rparr>],
    st_NodeMap := m\<rparr>)"
proof -
  let ?h = "(st_heap st @ new)[parent := (st_heap st ! parent)\<lparr>sn_Children := cs\<rparr>]"
  have "p < length ?h \<and> sn_ShardID (?h ! p) = i" if "fmlookup m i = Some p" for i p
    using index [OF that]
  proof
    assume "fmlookup (st_NodeMap st) i = Some p"
    with ok have "p < length (st_heap st)" "sn_ShardID (st_heap st ! p) = i"
      by (simp_all add: stree_ok_def)
    with parent show ?thesis by (cases "p = parent") (simp_all add: nth_append)
  next
    assume "\<exists>k < length new. p = length (st_heap st) + k \<and> sn_ShardID (new ! k) = i"
    with parent show ?thesis by (auto simp: nth_list_update nth_append)
  qed
  with links show ?thesis by (simp add: stree_ok_def)
qed

lemma AddRootNode_ok [inv_intros]:
  assumes "stree_ok st"
  shows "stree_ok (AddRootNode i st)"
proof -
  have "links_ok (st_heap st @ [shard_child i None 0])"
    using assms by (intro links_ok_root) (simp_all add: stree_ok_def shard_child_def)
  with assms show ?thesis
    by (auto simp: stree_ok_def AddRootNode_def Let_def nth_append shard_child_def less_Suc_eq)
qed

lemma index_ok:
  "stree_ok st \<Longrightarrow> fmlookup (st_NodeMap st) i = Some p \<Longrightarrow>
     p < length (st_heap st) \<and> sn_ShardID (st_heap st ! p) = i"
  by (simp add: stree_ok_def)

lemma AddChildNodes_ok [inv_intros]:
  assumes "stree_ok st"
  shows "stree_ok (AddChildNodes i l r st)"
proof (cases "fmlookup (st_NodeMap st) i")
  case None
  with assms show ?thesis by (simp add: AddChildNodes_def)
next
  case (Some parent)
  note parent = index_ok [OF assms Some]
  let ?new = "[shard_child l (Some parent) (sn_Depth (st_heap st ! parent) + 1),
    shard_child r (Some parent) (sn_Depth (st_heap st ! parent) + 1)]"
  let ?n = "length (st_heap st)"
  have "links_ok ((st_heap st @ ?new)[parent := (st_heap st ! parent)\<lparr>sn_Children := [?n, ?n + 1]\<rparr>])"
    using assms parent
    by (intro links_ok_extend) (auto simp: stree_ok_def shard_child_def nth_append)
  moreover have "fmlookup (st_NodeMap st) j = Some p \<or>
      (\<exists>k < length ?new. p = ?n + k \<and> sn_ShardID (?new ! k) = j)"
    if "fmlookup (fmupd r (?n + 1) (fmupd l ?n (st_NodeMap st))) j = Some p" for j p
  proof -
    from that consider "j = r" "p = ?n + 1" | "j = l" "p = ?n" | "fmlookup (st_NodeMap st) j = Some p"
      by (cases "j = r"; cases "j = l") simp_all
    then show ?thesis
    proof cases
      case 1
      then show ?thesis by (intro disjI2 exI [of _ 1]) (simp add: shard_child_def)
    next
      case 2
      then show ?thesis by (intro disjI2 exI [of _ 0]) (simp add: shard_child_def)
    qed simp
  qed
  ultimately have "stree_ok (st\<lparr>st_heap := (st_heap st @ ?new)
      [parent := (st_heap st ! parent)\<lparr>sn_Children := [?n, ?n + 1]\<rparr>],
    st_NodeMap := fmupd r (?n + 1) (fmupd l ?n (st_NodeMap st))\<rparr>)"
    using stree_ok_extend [OF assms conjunct1 [OF parent]] by blast
  with Some show ?thesis by (simp add: AddChildNodes_def Let_def)
qed

lemma ReplaceNodes_ok [inv_intros]:
  assumes ok: "stree_ok st" and r: "ReplaceNodes id1 id2 m st = Ok st'"
  shows "stree_ok st'"
proof (cases "st' = st")
  case True
  with ok show ?thesis by simp
next
  case False
  with r obtain n1 n2 where "fmlookup (st_NodeMap st) id1 = Some n1"
    "fmlookup (st_NodeMap st) id2 = Some n2" "sn_Parent (st_heap st ! n1) = sn_Parent (st_heap st ! n2)"
    "sn_Parent (st_heap st ! n1) \<noteq> None"
    by (force simp: ReplaceNodes_def Let_def split: option.splits if_splits)
  then obtain parent where n: "fmlookup (st_NodeMap st) id1 = Some n1"
    "fmlookup (st_NodeMap st) id2 = Some n2" "sn_Parent (st_heap st ! n1) = Some parent"
    "sn_Parent (st_heap st ! n2) = Some parent"
    by auto
  let ?h = "st_heap st"
  let ?new = "[shard_child m (Some parent) (sn_Depth (?h ! n1))]"
  let ?cs = "filter (\<lambda>c. sn_ShardID (?h ! c) \<noteq> id1 \<and> sn_ShardID (?h ! c) \<noteq> id2)
    (sn_Children (?h ! parent)) @ [length ?h]"
  have links: "links_ok ?h" using ok by (simp add: stree_ok_def)
  have n1: "n1 < length ?h" using index_ok [OF ok n(1)] by simp
  then have "parent < n1" "sn_Depth (?h ! n1) = sn_Depth (?h ! parent) + 1"
    using links n(3) by (simp_all add: links_ok_def)
  with n1 have parent: "parent < length ?h" "sn_Depth (?h ! n1) = sn_Depth (?h ! parent) + 1"
    by simp_all
  have kids: "\<forall>c \<in> set (sn_Children (?h ! parent)). c < length ?h \<and> sn_Parent (?h ! c) = Some parent"
    using links parent(1) unfolding links_ok_def by blast
  have "links_ok ((?h @ ?new)[parent := (?h ! parent)\<lparr>sn_Children := ?cs\<rparr>])"
    using links parent kids
    by (intro links_ok_extend) (auto simp: shard_child_def nth_append)
  moreover have "st' = st\<lparr>st_heap := (?h @ ?new)[parent := (?h ! parent)\<lparr>sn_Children := ?cs\<rparr>],
      st_NodeMap := fmupd m (length ?h) (fmdrop id2 (fmdrop id1 (st_NodeMap st)))\<rparr>"
    using r n by (simp add: ReplaceNodes_def Let_def)
  moreover have "fmlookup (st_NodeMap st) i = Some p \<or>
      (\<exists>k < length ?new. p = length ?h + k \<and> sn_ShardID (?new ! k) = i)"
    if "fmlookup (fmupd m (length ?h) (fmdrop id2 (fmdrop id1 (st_NodeMap st)))) i = Some p" for i p
    using that by (auto simp: shard_child_def split: if_splits)
  ultimately show ?thesis
    using stree_ok_extend [OF ok parent(1), of ?new ?cs] by blast
qed

end
