(* ===== verification/Merkle_Forest.thy ===== *)
theory Merkle_Forest
  imports Merkle_Proof Shard_Tree
begin

text \<open>
  \<open>merkle/adaptive_merkle_forest.go\<close> and the rebalancer of \<open>merkle/shard.go\<close>: shards with
  their Merkle trees, splitting and merging, proofs per shard and cross-shard operations. One
  clock reading stands for all calls of \<open>time.Now\<close> in an operation.
\<close>

section \<open>State\<close>

record load_metrics =
  lm_TransactionCount :: u64
  lm_StateSize :: u64
  lm_ComputeTime :: i64
  lm_NetworkLatency :: i64
  lm_LoadFactor :: f64

record merkle_shard =
  ms_ID :: u32
  ms_Root :: hash
  ms_StateTree :: merkle_tree
  ms_LoadMetrics :: load_metrics
  ms_ParentShard :: u32
  ms_ChildShards :: "u32 list"
  ms_LastRebalanced :: go_time

record shard_rebalancer =
  sr_loadThreshold :: f64
  sr_splitThreshold :: f64
  sr_mergeThreshold :: f64
  sr_rebalanceInterval :: int

record merkle_forest =
  mf_shards :: "(u32, merkle_shard) fmap"
  mf_shardTree :: shard_tree
  mf_rebalancer :: shard_rebalancer
  mf_proofGen :: proof_generator

definition load_only :: "f64 \<Rightarrow> load_metrics" where
  "load_only x = \<lparr>lm_TransactionCount = 0, lm_StateSize = 0, lm_ComputeTime = 0,
     lm_NetworkLatency = 0, lm_LoadFactor = x\<rparr>"

definition new_shard :: "u32 \<Rightarrow> f64 \<Rightarrow> u32 \<Rightarrow> go_time \<Rightarrow> merkle_shard" where
  "new_shard shardID load parent now =
     \<lparr>ms_ID = shardID, ms_Root = 0, ms_StateTree = NewMerkleTree, ms_LoadMetrics = load_only load,
      ms_ParentShard = parent, ms_ChildShards = [], ms_LastRebalanced = now\<rparr>"

definition NewShardRebalancer :: shard_rebalancer where
  "NewShardRebalancer =
     \<lparr>sr_loadThreshold = f64_round (8 / 10), sr_splitThreshold = f64_round (9 / 10),
      sr_mergeThreshold = f64_round (2 / 10), sr_rebalanceInterval = 300 * 1000000000\<rparr>"

definition initializeRootShard :: "go_time \<Rightarrow> merkle_forest \<Rightarrow> merkle_forest" where
  "initializeRootShard now amf =
     amf\<lparr>mf_shards := fmupd 0 (new_shard 0 (Fin 0) 0 now) (mf_shards amf),
         mf_shardTree := AddRootNode 0 (mf_shardTree amf)\<rparr>"

definition NewAdaptiveMerkleForest :: "go_time \<Rightarrow> merkle_forest" where
  "NewAdaptiveMerkleForest now =
     initializeRootShard now
       \<lparr>mf_shards = fmempty, mf_shardTree = NewShardTree, mf_rebalancer = NewShardRebalancer,
        mf_proofGen = NewProofGenerator\<rparr>"

section \<open>Rebalancing decisions\<close>

datatype rebalance_type = RSplit | RMerge

record rebalance_operation =
  ro_Type :: rebalance_type
  ro_ShardID :: u32
  ro_TargetShardID :: u32
  ro_Timestamp :: go_time

text \<open>The first match in the order the map is ranged over; 0 when there is none.\<close>

definition findMergeCandidate ::
  "shard_rebalancer \<Rightarrow> (u32 \<times> merkle_shard) list \<Rightarrow> u32 \<Rightarrow> merkle_shard \<Rightarrow> u32" where
  "findMergeCandidate sr es shardID shard =
     (case find (\<lambda>(i, candidate). i \<noteq> shardID \<and> ms_ParentShard candidate = ms_ParentShard shard \<and>
          f64_less (f64_add (lm_LoadFactor (ms_LoadMetrics shard))
              (lm_LoadFactor (ms_LoadMetrics candidate))) (sr_loadThreshold sr)) es of
        None \<Rightarrow> 0
      | Some (i, _) \<Rightarrow> i)"

text \<open>\<open>orders\<close> gives the order of the inner loop for each shard looked at.\<close>

definition analyze_shard ::
  "shard_rebalancer \<Rightarrow> go_time \<Rightarrow> (u32 \<Rightarrow> (u32 \<times> merkle_shard) list) \<Rightarrow> u32 \<times> merkle_shard \<Rightarrow>
     rebalance_operation list" where
  "analyze_shard sr now orders e =
     (let (shardID, shard) = e; loadFactor = lm_LoadFactor (ms_LoadMetrics shard) in
      if now - ms_LastRebalanced shard < sr_rebalanceInterval sr then []
      else if f64_less (sr_splitThreshold sr) loadFactor
        then [\<lparr>ro_Type = RSplit, ro_ShardID = shardID, ro_TargetShardID = 0, ro_Timestamp = now\<rparr>]
      else if f64_less loadFactor (sr_mergeThreshold sr)
        then let targetShard = findMergeCandidate sr (orders shardID) shardID shard in
          if targetShard \<noteq> 0
          then [\<lparr>ro_Type = RMerge, ro_ShardID = shardID, ro_TargetShardID = targetShard,
                 ro_Timestamp = now\<rparr>]
          else []
      else [])"

definition AnalyzeShardLoads ::
  "shard_rebalancer \<Rightarrow> go_time \<Rightarrow> (u32 \<Rightarrow> (u32 \<times> merkle_shard) list) \<Rightarrow>
     (u32 \<times> merkle_shard) list \<Rightarrow> rebalance_operation list" where
  "AnalyzeShardLoads sr now orders es = concat (map (analyze_shard sr now orders) es)"

section \<open>Splitting and merging\<close>

text \<open>The largest ID does not depend on the order of the range; \<open>+ 1\<close> wraps.\<close>

definition generateShardID :: "(u32, merkle_shard) fmap \<Rightarrow> u32" where
  "generateShardID shards = Max (insert 0 (fmdom' shards)) + 1"

definition splitStateTree ::
  "digest \<Rightarrow> merkle_tree \<Rightarrow> merkle_tree \<Rightarrow> merkle_tree \<Rightarrow> (merkle_tree \<times> merkle_tree) res" where
  "splitStateTree sha parent left right =
     (let leaves = GetAllLeaves parent; mid = length leaves div 2 in
      bind_res (fold_res (AddLeaf sha) (take mid leaves) left) (\<lambda>left'.
      bind_res (fold_res (AddLeaf sha) (drop mid leaves) right) (\<lambda>right'. Ok (left', right'))))"

definition mergeStateTrees ::
  "digest \<Rightarrow> merkle_tree \<Rightarrow> merkle_tree \<Rightarrow> merkle_tree \<Rightarrow> merkle_tree res" where
  "mergeStateTrees sha tree1 tree2 merged =
     bind_res (fold_res (AddLeaf sha) (GetAllLeaves tree1) merged)
       (fold_res (AddLeaf sha) (GetAllLeaves tree2))"

definition splitShard :: "digest \<Rightarrow> go_time \<Rightarrow> u32 \<Rightarrow> merkle_forest \<Rightarrow> merkle_forest res" where
  "splitShard sha now shardID amf =
     (case fmlookup (mf_shards amf) shardID of
        None \<Rightarrow> Fail (ErrorString ''shard not found'')
      | Some parentShard \<Rightarrow>
          let half = f64_div (lm_LoadFactor (ms_LoadMetrics parentShard)) (Fin 2);
              leftChild = new_shard (generateShardID (mf_shards amf)) half shardID now;
              rightChild = new_shard (generateShardID (mf_shards amf)) half shardID now
          in bind_res (splitStateTree sha (ms_StateTree parentShard) (ms_StateTree leftChild)
               (ms_StateTree rightChild)) (\<lambda>(lt, rt).
             let parentShard' = parentShard\<lparr>ms_ChildShards := [ms_ID leftChild, ms_ID rightChild]\<rparr>;
                 shards1 = fmupd shardID parentShard' (mf_shards amf);
                 shards2 = fmupd (ms_ID leftChild) (leftChild\<lparr>ms_StateTree := lt\<rparr>) shards1;
                 shards3 = fmupd (ms_ID rightChild) (rightChild\<lparr>ms_StateTree := rt\<rparr>) shards2
             in Ok (amf\<lparr>mf_shards := shards3,
                  mf_shardTree := AddChildNodes shardID (ms_ID leftChild) (ms_ID rightChild)
                    (mf_shardTree amf)\<rparr>)))"

definition mergeShards ::
  "digest \<Rightarrow> go_time \<Rightarrow> u32 \<Rightarrow> u32 \<Rightarrow> merkle_forest \<Rightarrow> merkle_forest res" where
  "mergeShards sha now shardID1 shardID2 amf =
     (case (fmlookup (mf_shards amf) shardID1, fmlookup (mf_shards amf) shardID2) of
        (Some shard1, Some shard2) \<Rightarrow>
          let load = f64_add (lm_LoadFactor (ms_LoadMetrics shard1))
                (lm_LoadFactor (ms_LoadMetrics shard2));
              mergedShard = new_shard (generateShardID (mf_shards amf)) load 0 now
          in bind_res (mergeStateTrees sha (ms_StateTree shard1) (ms_StateTree shard2)
               (ms_StateTree mergedShard)) (\<lambda>mt.
             let shards1 = fmupd (ms_ID mergedShard) (mergedShard\<lparr>ms_StateTree := mt\<rparr>)
                   (mf_shards amf);
                 shards2 = fmdrop shardID2 (fmdrop shardID1 shards1)
             in bind_res (ReplaceNodes shardID1 shardID2 (ms_ID mergedShard) (mf_shardTree amf))
                  (\<lambda>st. Ok (amf\<lparr>mf_shards := shards2, mf_shardTree := st\<rparr>)))
      | _ \<Rightarrow> Fail (ErrorString ''shard not found''))"

text \<open>
  An operation of the list that fails leaves the ones before it done, so the forest is returned
  with the result.
\<close>

fun run_rebalance ::
  "digest \<Rightarrow> go_time \<Rightarrow> rebalance_operation list \<Rightarrow> merkle_forest \<Rightarrow> merkle_forest \<times> unit res" where
  "run_rebalance sha now [] amf = (amf, Ok ())"
| "run_rebalance sha now (op # ops) amf =
     (case (case ro_Type op of
              RSplit \<Rightarrow> splitShard sha now (ro_ShardID op) amf
            | RMerge \<Rightarrow> mergeShards sha now (ro_ShardID op) (ro_TargetShardID op) amf) of
        Ok amf' \<Rightarrow> run_rebalance sha now ops amf'
      | Fail e \<Rightarrow> (amf, Fail e)
      | Panic p \<Rightarrow> (amf, Panic p))"

definition DynamicShardRebalancing ::
  "digest \<Rightarrow> go_time \<Rightarrow> (u32 \<times> merkle_shard) list \<Rightarrow> (u32 \<times> merkle_shard) list \<Rightarrow>
     (u32 \<Rightarrow> (u32 \<times> merkle_shard) list) \<Rightarrow> merkle_forest \<Rightarrow> merkle_forest \<times> unit res" where
  "DynamicShardRebalancing sha now es es' orders amf =
     (case find (\<lambda>(i, shard). f64_less (f64_round (9 / 10))
          (lm_LoadFactor (ms_LoadMetrics shard))) es of
        Some (shardID, _) \<Rightarrow>
          (case splitShard sha now shardID amf of
             Ok amf' \<Rightarrow> (amf', Ok ())
           | Fail e \<Rightarrow> (amf, Fail e)
           | Panic p \<Rightarrow> (amf, Panic p))
      | None \<Rightarrow> run_rebalance sha now (AnalyzeShardLoads (mf_rebalancer amf) now orders es') amf)"

section \<open>Proofs\<close>

definition set_tree :: "u32 \<Rightarrow> merkle_shard \<Rightarrow> merkle_tree \<Rightarrow> merkle_forest \<Rightarrow> merkle_forest" where
  "set_tree shardID shard mt amf =
     amf\<lparr>mf_shards := fmupd shardID (shard\<lparr>ms_StateTree := mt\<rparr>) (mf_shards amf)\<rparr>"

text \<open>\<open>None\<close> when the climb in the tree does not end. The key's hash is added as a leaf first.\<close>

definition forest_GenerateProof ::
  "digest \<Rightarrow> bytes \<Rightarrow> u32 \<Rightarrow> merkle_forest \<Rightarrow> (merkle_forest \<times> merkle_proof res) option" where
  "forest_GenerateProof sha key shardID amf =
     (case fmlookup (mf_shards amf) shardID of
        None \<Rightarrow> Some (amf, Fail (ErrorString ''shard not found''))
      | Some shard \<Rightarrow>
          (case AddLeaf sha (ComputeHash sha key) (ms_StateTree shard) of
             Fail e \<Rightarrow> Some (amf, Fail e)
           | Panic p \<Rightarrow> Some (amf, Panic p)
           | Ok mt \<Rightarrow>
               let amf' = set_tree shardID shard mt amf in
               map_option (\<lambda>r. (amf', case r of
                   None \<Rightarrow> Fail (ErrorString ''key not found in tree'')
                 | Some (path, rt) \<Rightarrow>
                     let proof = standard_proof path rt in
                     bind_res (CompressProof sha (mf_proofGen amf) (Some proof)) (\<lambda>c.
                       case c of
                         None \<Rightarrow> Panic NilDereference
                       | Some compressed \<Rightarrow>
                           bind_res (CreateAMQFilter sha (mf_proofGen amf) proof) (\<lambda>f.
                             Ok (compressed\<lparr>mp_AMQFilter := Some f\<rparr>)))))
                 (tree_GenerateProof sha key mt)))"

definition forest_VerifyProof ::
  "digest \<Rightarrow> merkle_proof option \<Rightarrow> bytes \<Rightarrow> bytes \<Rightarrow> bool res" where
  "forest_VerifyProof sha proof key v =
     (case proof of
        None \<Rightarrow> Ok False
      | Some p \<Rightarrow>
          bind_res (case mp_AMQFilter p of None \<Rightarrow> Ok True | Some f \<Rightarrow> amq_Contains key f)
            (\<lambda>inFilter.
              if \<not> inFilter then Ok False
              else proof_Verify sha (if mp_Compressed p then DecompressProof p else p) key v))"

section \<open>Cross-shard operations\<close>

fun rollback_shards :: "digest \<Rightarrow> u32 list \<Rightarrow> merkle_forest \<Rightarrow> merkle_forest res" where
  "rollback_shards sha [] amf = Ok amf"
| "rollback_shards sha (i # is) amf =
     (case fmlookup (mf_shards amf) i of
        None \<Rightarrow> Panic NilDereference
      | Some shard \<Rightarrow>
          bind_res (Rollback sha (ms_StateTree shard)) (\<lambda>mt.
            rollback_shards sha is (set_tree i shard mt amf)))"

text \<open>
  The shards of the operation are looked up before the first change, so every ID of the list is
  a shard here; \<open>involved\<close> is the list the rollback goes through.
\<close>

fun apply_to_shards ::
  "digest \<Rightarrow> cross_shard_op \<Rightarrow> bytes \<Rightarrow> u32 list \<Rightarrow> u32 list \<Rightarrow> merkle_forest \<Rightarrow>
     merkle_forest \<times> unit res" where
  "apply_to_shards sha op com involved [] amf = (amf, Ok ())"
| "apply_to_shards sha op com involved (i # is) amf =
     (case fmlookup (mf_shards amf) i of
        None \<Rightarrow> (amf, Panic NilDereference)
      | Some shard \<Rightarrow>
          (case ApplyOperation sha op com (ms_StateTree shard) of
             Ok mt \<Rightarrow> apply_to_shards sha op com involved is (set_tree i shard mt amf)
           | Panic p \<Rightarrow> (amf, Panic p)
           | Fail e \<Rightarrow>
               (case rollback_shards sha involved amf of
                  Ok amf' \<Rightarrow> (amf', Fail e)
                | Fail e' \<Rightarrow> (amf, Fail e')
                | Panic p \<Rightarrow> (amf, Panic p))))"

definition CrossShardOperation ::
  "digest \<Rightarrow> nat \<Rightarrow> cross_shard_op \<Rightarrow> merkle_forest \<Rightarrow> merkle_forest \<times> unit res" where
  "CrossShardOperation sha r op amf =
     (let commitment = CreateHomomorphicCommitment r (op_Data op) in
      if \<exists>i \<in> set (op_ShardIDs op). fmlookup (mf_shards amf) i = None
      then (amf, Fail (ErrorString ''shard not found''))
      else apply_to_shards sha op commitment (op_ShardIDs op) (op_ShardIDs op) amf)"

section \<open>The forest invariant\<close>

definition forest_ok :: "digest \<Rightarrow> merkle_forest \<Rightarrow> bool" where
  "forest_ok sha amf \<longleftrightarrow>
     (\<forall>i s. fmlookup (mf_shards amf) i = Some s \<longrightarrow> tree_ok sha (ms_StateTree s)) \<and>
     stree_ok (mf_shardTree amf) \<and> mf_proofGen amf = NewProofGenerator"

lemma new_shard_tree [simp]: "ms_StateTree (new_shard i x p t) = NewMerkleTree"
  "ms_ID (new_shard i x p t) = i"
  by (simp_all add: new_shard_def)

lemma NewAdaptiveMerkleForest_ok: "forest_ok sha (NewAdaptiveMerkleForest now)"
  by (simp add: forest_ok_def NewAdaptiveMerkleForest_def initializeRootShard_def
      NewMerkleTree_ok AddRootNode_ok NewShardTree_ok)

lemma set_tree_ok [inv_intros]:
  "forest_ok sha amf \<Longrightarrow> tree_ok sha mt \<Longrightarrow> forest_ok sha (set_tree i s mt amf)"
  by (simp add: forest_ok_def set_tree_def)

lemma fmupd_shards_ok:
  "forest_ok sha amf \<Longrightarrow> tree_ok sha (ms_StateTree s) \<Longrightarrow>
     forest_ok sha (amf\<lparr>mf_shards := fmupd i s (mf_shards amf)\<rparr>)"
  by (simp add: forest_ok_def)

lemma AddLeaves_new:
  "\<exists>mt. fold_res (AddLeaf sha) leaves NewMerkleTree = Ok mt \<and> tree_ok sha mt \<and> mt_Leaves mt = leaves"
  using AddLeaves_ok [OF NewMerkleTree_ok, of sha leaves] by (simp add: NewMerkleTree_def)

lemma fmupd_twice: "fmupd k v (fmupd k w m) = fmupd k v m"
  by (rule fmap_ext) simp

lemma splitShard_Ok:
  assumes ok: "forest_ok sha amf" and p: "fmlookup (mf_shards amf) i = Some parent"
  shows "\<exists>amf' right. splitShard sha now i amf = Ok amf' \<and> forest_ok sha amf' \<and>
    mf_shards amf' = fmupd (generateShardID (mf_shards amf)) right
      (fmupd i (parent\<lparr>ms_ChildShards := [generateShardID (mf_shards amf),
         generateShardID (mf_shards amf)]\<rparr>) (mf_shards amf)) \<and>
    mt_Leaves (ms_StateTree right) = drop (length (mt_Leaves (ms_StateTree parent)) div 2)
      (mt_Leaves (ms_StateTree parent)) \<and>
    ms_ParentShard right = i \<and> mf_rebalancer amf' = mf_rebalancer amf"
proof -
  let ?leaves = "mt_Leaves (ms_StateTree parent)"
  let ?n = "length ?leaves div 2" and ?id = "generateShardID (mf_shards amf)"
  obtain lt where lt: "fold_res (AddLeaf sha) (take ?n ?leaves) NewMerkleTree = Ok lt"
    using AddLeaves_new by blast
  obtain rt where rt: "fold_res (AddLeaf sha) (drop ?n ?leaves) NewMerkleTree = Ok rt"
      "tree_ok sha rt" "mt_Leaves rt = drop ?n ?leaves"
    using AddLeaves_new by blast
  let ?right = "(new_shard ?id (f64_div (lm_LoadFactor (ms_LoadMetrics parent)) (Fin 2)) i now)
    \<lparr>ms_StateTree := rt\<rparr>"
  let ?parent = "parent\<lparr>ms_ChildShards := [?id, ?id]\<rparr>"
  let ?amf = "amf\<lparr>mf_shards := fmupd ?id ?right (fmupd i ?parent (mf_shards amf)),
    mf_shardTree := AddChildNodes i ?id ?id (mf_shardTree amf)\<rparr>"
  have split: "splitShard sha now i amf = Ok ?amf"
    using p lt rt(1)
    by (simp add: splitShard_def splitStateTree_def GetAllLeaves_def Let_def fmupd_twice)
  have "forest_ok sha ?amf"
    using ok p rt(2) by (auto simp: forest_ok_def AddChildNodes_ok)
  then show ?thesis
    by (intro exI [of _ ?amf] exI [of _ ?right])
      (use split rt(3) in \<open>simp add: new_shard_def\<close>)
qed

lemma splitShard_ok [inv_intros]:
  assumes "forest_ok sha amf" and "splitShard sha now i amf = Ok amf'"
  shows "forest_ok sha amf'"
proof (cases "fmlookup (mf_shards amf) i")
  case None
  with assms(2) show ?thesis by (simp add: splitShard_def)
next
  case (Some parent)
  from splitShard_Ok [OF assms(1) this, of now] assms(2) show ?thesis by auto
qed

lemma mergeStateTrees_ok:
  assumes "tree_ok sha mt"
  shows "\<exists>mt'. mergeStateTrees sha t1 t2 mt = Ok mt' \<and> tree_ok sha mt' \<and>
    mt_Leaves mt' = mt_Leaves mt @ mt_Leaves t1 @ mt_Leaves t2"
proof -
  from AddLeaves_ok [OF assms] obtain m1 where
    m1: "fold_res (AddLeaf sha) (mt_Leaves t1) mt = Ok m1" "tree_ok sha m1"
      "mt_Leaves m1 = mt_Leaves mt @ mt_Leaves t1" by blast
  from AddLeaves_ok [OF m1(2), of "mt_Leaves t2"] m1 show ?thesis
    by (auto simp: mergeStateTrees_def GetAllLeaves_def)
qed

lemma mergeShards_ok [inv_intros]:
  assumes ok: "forest_ok sha amf" and m: "mergeShards sha now i j amf = Ok amf'"
  shows "forest_ok sha amf'"
proof -
  from m obtain s1 s2 where s: "fmlookup (mf_shards amf) i = Some s1"
      "fmlookup (mf_shards amf) j = Some s2"
    by (auto simp: mergeShards_def split: option.splits)
  from mergeStateTrees_ok [OF NewMerkleTree_ok] obtain mt where
    mt: "mergeStateTrees sha (ms_StateTree s1) (ms_StateTree s2) NewMerkleTree = Ok mt"
      "tree_ok sha mt" by blast
  from m s mt(1) obtain st where st:
    "ReplaceNodes i j (generateShardID (mf_shards amf)) (mf_shardTree amf) = Ok st"
    "mf_shardTree amf' = st" "mf_proofGen amf' = mf_proofGen amf"
    "mf_shards amf' = fmdrop j (fmdrop i (fmupd (generateShardID (mf_shards amf))
       ((new_shard (generateShardID (mf_shards amf))
          (f64_add (lm_LoadFactor (ms_LoadMetrics s1)) (lm_LoadFactor (ms_LoadMetrics s2))) 0 now)
        \<lparr>ms_StateTree := mt\<rparr>) (mf_shards amf)))"
    by (auto simp: mergeShards_def Let_def bind_res_Ok_iff)
  have "stree_ok st" using ok ReplaceNodes_ok [OF _ st(1)] by (simp add: forest_ok_def)
  moreover have "tree_ok sha (ms_StateTree s)" if "fmlookup (mf_shards amf') k = Some s" for k s
    using that ok mt(2) unfolding st(4) forest_ok_def by (auto split: if_splits)
  ultimately show ?thesis
    using ok st(2,3) by (simp add: forest_ok_def)
qed

lemma run_rebalance_ok:
  "forest_ok sha amf \<Longrightarrow> forest_ok sha (fst (run_rebalance sha now ops amf))"
proof (induction sha now ops amf rule: run_rebalance.induct)
  case (2 sha now op ops amf)
  then show ?case
    by (auto split: res.split rebalance_type.split dest: splitShard_ok mergeShards_ok)
qed simp

lemma rebalancing_ok [inv_intros]:
  assumes "forest_ok sha amf"
  shows "forest_ok sha (fst (DynamicShardRebalancing sha now es es' orders amf))"
  using assms run_rebalance_ok [OF assms]
  by (auto simp: DynamicShardRebalancing_def split: option.split res.split intro: inv_intros)

subsection \<open>Proofs and operations under the invariant\<close>

lemma forest_GenerateProof_Ok:
  assumes ok: "forest_ok sha amf" and s: "fmlookup (mf_shards amf) i = Some shard"
  shows "\<exists>mt path f c. AddLeaf sha (ComputeHash sha key) (ms_StateTree shard) = Ok mt \<and>
    tree_ok sha mt \<and> mt_Leaves mt = mt_Leaves (ms_StateTree shard) @ [ComputeHash sha key] \<and>
    forest_GenerateProof sha key i amf = Some (set_tree i shard mt amf, Ok c) \<and>
    fold_path sha path (ComputeHash sha key) = mt_Root mt \<and>
    mp_Root c = mt_Root mt \<and> mp_Path c = SamplePath NewProofCompressor path \<and>
    mp_AMQFilter c = Some f \<and> mp_Compressed c \<and> amq_wf f \<and>
    (\<forall>node \<in> set path. amq_Contains (be_bytes (pn_Hash node)) f = Ok True) \<and>
    (path = [] \<longrightarrow> (\<forall>d. amq_Contains d f = Ok False))"
proof -
  let ?h = "ComputeHash sha key"
  have "tree_ok sha (ms_StateTree shard)" using ok s by (simp add: forest_ok_def)
  from AddLeaf_ok [OF this] obtain mt where mt: "AddLeaf sha ?h (ms_StateTree shard) = Ok mt"
    "tree_ok sha mt" "mt_Leaves mt = mt_Leaves (ms_StateTree shard) @ [?h]" by blast
  then have "?h \<in> set (mt_Leaves mt)" by simp
  with mt(2) obtain path where path: "tree_GenerateProof sha key mt = Some (Some (path, mt_Root mt))"
      "fold_path sha path ?h = mt_Root mt"
    by (fastforce simp: tree_GenerateProof_def tree_ok_def Let_def)
  from GenerateFilter_Ok [of sha path] obtain f where f:
    "GenerateFilter sha NewAMQGenerator path = Ok f" "amq_wf f"
    "\<forall>node \<in> set path. amq_Contains (be_bytes (pn_Hash node)) f = Ok True"
    "path = [] \<longrightarrow> (\<forall>d. amq_Contains d f = Ok False)" by blast
  let ?c = "\<lparr>mp_Path = SamplePath NewProofCompressor path, mp_Root = mt_Root mt,
    mp_AMQFilter = Some f, mp_Compressed = True, mp_ProofType = CompressedProof\<rparr>"
  have "mf_proofGen amf = NewProofGenerator" using ok by (simp add: forest_ok_def)
  then have "forest_GenerateProof sha key i amf = Some (set_tree i shard mt amf, Ok ?c)"
    using s mt(1) path(1) f(1)
    by (simp add: forest_GenerateProof_def CompressProof_def CreateAMQFilter_def standard_proof_def
        NewProofGenerator_def Let_def)
  with mt path(2) f show ?thesis by (intro exI [of _ mt] exI [of _ path] exI [of _ f] exI [of _ ?c]) simp
qed

lemma forest_GenerateProof_ok [inv_intros]:
  assumes "forest_ok sha amf" and "forest_GenerateProof sha key i amf = Some (amf', r)"
  shows "forest_ok sha amf'"
proof (cases "fmlookup (mf_shards amf) i")
  case None
  with assms show ?thesis by (simp add: forest_GenerateProof_def)
next
  case (Some shard)
  from forest_GenerateProof_Ok [OF assms(1) this, of key] assms(2)
  show ?thesis by (auto intro: set_tree_ok [OF assms(1)])
qed

lemma apply_to_shards_Ok:
  assumes "forest_ok sha amf" and "\<forall>i \<in> set is. fmlookup (mf_shards amf) i \<noteq> None"
  shows "\<exists>amf'. apply_to_shards sha op com involved is amf = (amf', Ok ()) \<and> forest_ok sha amf' \<and>
    fmdom' (mf_shards amf') = fmdom' (mf_shards amf) \<and>
    (\<forall>i s. fmlookup (mf_shards amf) i = Some s \<longrightarrow>
       (\<exists>mt. fmlookup (mf_shards amf') i = Some (s\<lparr>ms_StateTree := mt\<rparr>) \<and>
          mt_Leaves mt = mt_Leaves (ms_StateTree s) @
            replicate (count_list is i) (ComputeHash sha (op_Data op @ com))))"
  using assms
proof (induction "is" arbitrary: amf)
  case Nil
  have "fmlookup (mf_shards amf) i = Some s \<Longrightarrow> \<exists>mt. fmlookup (mf_shards amf) i =
      Some (s\<lparr>ms_StateTree := mt\<rparr>) \<and> mt_Leaves mt = mt_Leaves (ms_StateTree s)" for i s
    by (intro exI [of _ "ms_StateTree s"]) simp
  with Nil show ?case by simp
next
  case (Cons j js)
  let ?h = "ComputeHash sha (op_Data op @ com)"
  from Cons.prems(2) obtain s where s: "fmlookup (mf_shards amf) j = Some s" by auto
  with Cons.prems(1) have "tree_ok sha (ms_StateTree s)" by (simp add: forest_ok_def)
  from ApplyOperation_ok [OF this] obtain mt where mt: "ApplyOperation sha op com (ms_StateTree s) = Ok mt"
    "tree_ok sha mt" "mt_Leaves mt = mt_Leaves (ms_StateTree s) @ [?h]" by blast
  let ?amf = "set_tree j s mt amf"
  have ok: "forest_ok sha ?amf" using Cons.prems(1) mt(2) by (rule set_tree_ok)
  have look: "fmlookup (mf_shards ?amf) i =
      (if i = j then Some (s\<lparr>ms_StateTree := mt\<rparr>) else fmlookup (mf_shards amf) i)" for i
    by (simp add: set_tree_def)
  then have "\<forall>i \<in> set js. fmlookup (mf_shards ?amf) i \<noteq> None" using Cons.prems(2) by simp
  from Cons.IH [OF ok this] obtain amf' where
    rest: "apply_to_shards sha op com involved js ?amf = (amf', Ok ())" "forest_ok sha amf'"
      "fmdom' (mf_shards amf') = fmdom' (mf_shards ?amf)"
      "\<forall>i s. fmlookup (mf_shards ?amf) i = Some s \<longrightarrow>
         (\<exists>mt. fmlookup (mf_shards amf') i = Some (s\<lparr>ms_StateTree := mt\<rparr>) \<and>
            mt_Leaves mt = mt_Leaves (ms_StateTree s) @ replicate (count_list js i) ?h)"
    by blast
  have "\<exists>mt'. fmlookup (mf_shards amf') i = Some (t\<lparr>ms_StateTree := mt'\<rparr>) \<and>
      mt_Leaves mt' = mt_Leaves (ms_StateTree t) @ replicate (count_list (j # js) i) ?h"
    if t: "fmlookup (mf_shards amf) i = Some t" for i t
  proof (cases "i = j")
    case True
    with rest(4) look [of j] have "\<exists>mt'. fmlookup (mf_shards amf') j =
        Some (s\<lparr>ms_StateTree := mt'\<rparr>) \<and> mt_Leaves mt' = mt_Leaves mt @ replicate (count_list js j) ?h"
      by fastforce
    with True s t mt(3) show ?thesis by simp
  next
    case False
    with t look [of i] rest(4) show ?thesis by auto
  qed
  moreover have "fmdom' (mf_shards ?amf) = fmdom' (mf_shards amf)"
    using s by (auto simp: set_tree_def fmdom'_lookup insert_absorb)
  ultimately show ?case using s mt(1) rest(1-3) by simp
qed

lemma CrossShardOperation_ok [inv_intros]:
  "forest_ok sha amf \<Longrightarrow> forest_ok sha (fst (CrossShardOperation sha r op amf))"
  using apply_to_shards_Ok [of sha amf "op_ShardIDs op" op
      "CreateHomomorphicCommitment r (op_Data op)" "op_ShardIDs op"]
  by (auto simp: CrossShardOperation_def Let_def)

section \<open>Reachable forests\<close>

text \<open>
  What the exported operations can lead to. Callers also write the metrics of a shard, which are
  exported fields. A panic ends the program.
\<close>

inductive forest_reachable :: "digest \<Rightarrow> merkle_forest \<Rightarrow> bool" for sha where
  init: "forest_reachable sha (NewAdaptiveMerkleForest now)"
| rebalance: "forest_reachable sha amf \<Longrightarrow> range_order es (mf_shards amf) \<Longrightarrow>
    range_order es' (mf_shards amf) \<Longrightarrow> (\<And>i. range_order (orders i) (mf_shards amf)) \<Longrightarrow>
    DynamicShardRebalancing sha now es es' orders amf = (amf', r) \<Longrightarrow> r \<noteq> Panic p \<Longrightarrow>
    forest_reachable sha amf'"
| generate: "forest_reachable sha amf \<Longrightarrow> forest_GenerateProof sha key i amf = Some (amf', r) \<Longrightarrow>
    forest_reachable sha amf'"
| cross: "forest_reachable sha amf \<Longrightarrow> CrossShardOperation sha n op amf = (amf', r) \<Longrightarrow>
    forest_reachable sha amf'"
| metrics: "forest_reachable sha amf \<Longrightarrow> fmlookup (mf_shards amf) i = Some s \<Longrightarrow>
    forest_reachable sha (amf\<lparr>mf_shards := fmupd i (s\<lparr>ms_LoadMetrics := lm\<rparr>) (mf_shards amf)\<rparr>)"

lemma forest_reachable_ok: "forest_reachable sha amf \<Longrightarrow> forest_ok sha amf"
proof (induction rule: forest_reachable.induct)
  case (init now)
  show ?case by (rule NewAdaptiveMerkleForest_ok)
next
  case (rebalance amf es es' orders now amf' r p)
  then show ?case using rebalancing_ok [of sha amf now es es' orders] by simp
next
  case (generate amf key i amf' r)
  then show ?case by (blast intro: forest_GenerateProof_ok)
next
  case (cross amf n op amf' r)
  then show ?case using CrossShardOperation_ok [of sha amf n op] by simp
next
  case (metrics amf i s lm)
  then show ?case by (intro fmupd_shards_ok) (auto simp: forest_ok_def)
qed

section \<open>Properties\<close>

text \<open>
  C9: in every reachable forest \<open>GenerateProof\<close> of an existing shard terminates without error. It
  appends the key's hash to the shard's leaves (also when the key was there), and behind the
  returned proof there is a full path that folds from the key's hash to the new root, the
  functional root of the shard's leaves. If the path has at most six nodes it is returned whole, and
  \<open>VerifyProof\<close> with the empty value then says exactly what the filter says of the key.
\<close>

theorem forest_proof_end_to_end:
  assumes "forest_reachable sha amf" and "fmlookup (mf_shards amf) i = Some shard"
  shows "\<exists>amf' shard' c path f.
    forest_GenerateProof sha key i amf = Some (amf', Ok c) \<and>
    fmlookup (mf_shards amf') i = Some shard' \<and>
    GetAllLeaves (ms_StateTree shard') = GetAllLeaves (ms_StateTree shard) @ [ComputeHash sha key] \<and>
    mp_Root c = root_of sha (GetAllLeaves (ms_StateTree shard')) \<and>
    fold_path sha path (ComputeHash sha key) = mp_Root c \<and> mp_AMQFilter c = Some f \<and>
    (length path \<le> 6 \<longrightarrow> mp_Path c = path \<and>
       forest_VerifyProof sha (Some c) key [] = amq_Contains key f)"
proof -
  from forest_GenerateProof_Ok [OF forest_reachable_ok [OF assms(1)] assms(2), of key]
  obtain mt path f c where g: "tree_ok sha mt"
    "mt_Leaves mt = mt_Leaves (ms_StateTree shard) @ [ComputeHash sha key]"
    "forest_GenerateProof sha key i amf = Some (set_tree i shard mt amf, Ok c)"
    "fold_path sha path (ComputeHash sha key) = mt_Root mt"
    "mp_Root c = mt_Root mt" "mp_Path c = SamplePath NewProofCompressor path"
    "mp_AMQFilter c = Some f" "mp_Compressed c" "amq_wf f"
    by blast
  have "mt_Root mt = root_of sha (mt_Leaves mt)" using g(1) by (simp add: tree_ok_def)
  moreover have "fmlookup (mf_shards (set_tree i shard mt amf)) i = Some (shard\<lparr>ms_StateTree := mt\<rparr>)"
    by (simp add: set_tree_def)
  moreover have "mp_Path c = path \<and> forest_VerifyProof sha (Some c) key [] = amq_Contains key f"
    if "length path \<le> 6"
  proof -
    have path: "mp_Path c = path" using g(6) that by (simp add: SamplePath_keeps)
    obtain b where b: "amq_Contains key f = Ok b" using amq.mem_wf [OF g(9)] by blast
    have "forest_VerifyProof sha (Some c) key [] = Ok b"
      using path b g(4,5,7,8)
      by (simp add: forest_VerifyProof_def proof_Verify_def DecompressProof_def)
    with path b show ?thesis by simp
  qed
  ultimately show ?thesis
    using g(2-7)
    by (intro exI [of _ "set_tree i shard mt amf"] exI [of _ "shard\<lparr>ms_StateTree := mt\<rparr>"]
        exI [of _ c] exI [of _ path] exI [of _ f]) (simp add: GetAllLeaves_def)
qed

lemma new_forest_shard:
  "fmlookup (mf_shards (NewAdaptiveMerkleForest now)) 0 = Some (new_shard 0 (Fin 0) 0 now)"
  by (simp add: NewAdaptiveMerkleForest_def initializeRootShard_def)

theorem forest_proof_end_to_end_witness:
  "\<exists>amf' c. forest_GenerateProof height_digest [1, 2] 0 (NewAdaptiveMerkleForest 0) =
     Some (amf', Ok c)"
  using forest_proof_end_to_end [OF forest_reachable.init new_forest_shard,
      of height_digest "[1, 2]" 0] by blast

text \<open>
  C23: \<open>CrossShardOperation\<close> is atomic: in a reachable forest it either finds a shard missing and
  changes nothing, or succeeds and appends the operation's hash to every listed shard, as often as
  it is listed, and to no other; it keeps the set of shards and never panics.
\<close>

theorem CrossShardOperation_atomic:
  assumes "forest_reachable sha amf"
  shows "\<exists>amf' res. CrossShardOperation sha r op amf = (amf', res) \<and>
    (res = Ok () \<longleftrightarrow> (\<forall>i \<in> set (op_ShardIDs op). fmlookup (mf_shards amf) i \<noteq> None)) \<and>
    (res \<noteq> Ok () \<longrightarrow> amf' = amf \<and> res = Fail (ErrorString ''shard not found'')) \<and>
    fmdom' (mf_shards amf') = fmdom' (mf_shards amf) \<and>
    (res = Ok () \<longrightarrow> (\<forall>i s. fmlookup (mf_shards amf) i = Some s \<longrightarrow>
       (\<exists>s'. fmlookup (mf_shards amf') i = Some s' \<and>
          GetAllLeaves (ms_StateTree s') = GetAllLeaves (ms_StateTree s) @
            replicate (count_list (op_ShardIDs op) i)
              (ComputeHash sha (op_Data op @ CreateHomomorphicCommitment r (op_Data op))))))"
proof (cases "\<forall>i \<in> set (op_ShardIDs op). fmlookup (mf_shards amf) i \<noteq> None")
  case False
  then show ?thesis by (auto simp: CrossShardOperation_def)
next
  case True
  let ?com = "CreateHomomorphicCommitment r (op_Data op)"
  from apply_to_shards_Ok [OF forest_reachable_ok [OF assms] True, of op ?com "op_ShardIDs op"]
  obtain amf' where a: "apply_to_shards sha op ?com (op_ShardIDs op) (op_ShardIDs op) amf =
      (amf', Ok ())" "fmdom' (mf_shards amf') = fmdom' (mf_shards amf)"
    "\<forall>i s. fmlookup (mf_shards amf) i = Some s \<longrightarrow>
       (\<exists>mt. fmlookup (mf_shards amf') i = Some (s\<lparr>ms_StateTree := mt\<rparr>) \<and>
          mt_Leaves mt = mt_Leaves (ms_StateTree s) @ replicate (count_list (op_ShardIDs op) i)
            (ComputeHash sha (op_Data op @ ?com)))"
    by blast
  from True have "\<not> (\<exists>i \<in> set (op_ShardIDs op). fmlookup (mf_shards amf) i = None)" by blast
  then have "CrossShardOperation sha r op amf = (amf', Ok ())"
    by (simp add: CrossShardOperation_def Let_def a(1))
  moreover have "\<exists>s'. fmlookup (mf_shards amf') i = Some s' \<and>
      GetAllLeaves (ms_StateTree s') = GetAllLeaves (ms_StateTree s) @
        replicate (count_list (op_ShardIDs op) i) (ComputeHash sha (op_Data op @ ?com))"
    if "fmlookup (mf_shards amf) i = Some s" for i s
    using a(3) that by (fastforce simp: GetAllLeaves_def)
  ultimately show ?thesis
    using True a(2) by (intro exI [of _ amf'] exI [of _ "Ok ()"] conjI impI allI) blast+
qed

theorem CrossShardOperation_atomic_witness:
  "\<exists>amf' r. CrossShardOperation height_digest 5
     \<lparr>op_Type = ''transfer'', op_ShardIDs = [0, 7], op_Data = [1]\<rparr> (NewAdaptiveMerkleForest 0) =
     (amf', r) \<and> r \<noteq> Ok ()"
proof -
  have "fmlookup (mf_shards (NewAdaptiveMerkleForest 0)) 7 = None"
    by (simp add: NewAdaptiveMerkleForest_def initializeRootShard_def)
  with CrossShardOperation_atomic [OF forest_reachable.init, of height_digest 5
      "\<lparr>op_Type = ''transfer'', op_ShardIDs = [0, 7], op_Data = [1]\<rparr>" 0]
  show ?thesis by fastforce
qed

text \<open>
  Splitting a shard of a reachable forest (below the largest shard ID) creates one shard, not
  two: both children get the same fresh ID, the second replaces the first in the map, and it holds
  the second half of the parent's leaves. The parent keeps its leaves and lists that ID twice as
  its children; every other shard is unchanged.
\<close>

theorem splitShard_one_child:
  assumes "forest_reachable sha amf" and "fmlookup (mf_shards amf) i = Some parent"
    and "\<forall>k \<in> fmdom' (mf_shards amf). k < - 1"
  shows "\<exists>amf' k child parent'. splitShard sha now i amf = Ok amf' \<and>
    fmlookup (mf_shards amf) k = None \<and> fmlookup (mf_shards amf') k = Some child \<and>
    fmdom' (mf_shards amf') = insert k (fmdom' (mf_shards amf)) \<and>
    GetAllLeaves (ms_StateTree child) =
      drop (length (GetAllLeaves (ms_StateTree parent)) div 2) (GetAllLeaves (ms_StateTree parent)) \<and>
    fmlookup (mf_shards amf') i = Some parent' \<and> ms_ChildShards parent' = [k, k] \<and>
    ms_StateTree parent' = ms_StateTree parent \<and>
    (\<forall>j. j \<noteq> i \<longrightarrow> j \<noteq> k \<longrightarrow> fmlookup (mf_shards amf') j = fmlookup (mf_shards amf) j)"
proof -
  let ?ids = "insert 0 (fmdom' (mf_shards amf))" and ?k = "generateShardID (mf_shards amf)"
  have max: "Max ?ids \<in> ?ids" by (rule Max_in) auto
  have "Max ?ids < - 1"
  proof (cases "Max ?ids = 0")
    case True
    then show ?thesis by (simp add: word_gt_0)
  next
    case False
    with max assms(3) show ?thesis by auto
  qed
  then have less: "Max ?ids < ?k"
    by (simp add: generateShardID_def word_less_nat_alt unat_word_ariths unsigned_minus_1_eq_mask mask_eq_exp_minus_1)
  then have fresh: "?k \<notin> fmdom' (mf_shards amf)"
    using Max_ge [of ?ids ?k] by (auto simp: not_le)
  then have none: "fmlookup (mf_shards amf) ?k = None" by (simp add: fmdom'_lookup)
  with assms(2) have ne: "i \<noteq> ?k" by auto
  from splitShard_Ok [OF forest_reachable_ok [OF assms(1)] assms(2), of now] obtain amf' right where
    s: "splitShard sha now i amf = Ok amf'"
      "mf_shards amf' = fmupd ?k right (fmupd i (parent\<lparr>ms_ChildShards := [?k, ?k]\<rparr>) (mf_shards amf))"
      "mt_Leaves (ms_StateTree right) = drop (length (mt_Leaves (ms_StateTree parent)) div 2)
         (mt_Leaves (ms_StateTree parent))"
    by blast
  have "i \<in> fmdom' (mf_shards amf)" using assms(2) by (simp add: fmdom'I)
  then have "fmdom' (mf_shards amf') = insert ?k (fmdom' (mf_shards amf))"
    by (auto simp: s(2))
  with s none ne show ?thesis
    by (intro exI [of _ amf'] exI [of _ ?k] exI [of _ right]
        exI [of _ "parent\<lparr>ms_ChildShards := [?k, ?k]\<rparr>"]) (simp add: GetAllLeaves_def)
qed

theorem splitShard_one_child_witness:
  "\<exists>amf' k. splitShard height_digest 0 0 (NewAdaptiveMerkleForest 0) = Ok amf' \<and>
     fmdom' (mf_shards amf') = {k, 0}"
proof -
  have dom: "fmdom' (mf_shards (NewAdaptiveMerkleForest 0)) = {0}"
    by (simp add: NewAdaptiveMerkleForest_def initializeRootShard_def)
  then have "\<forall>k \<in> fmdom' (mf_shards (NewAdaptiveMerkleForest 0)). k < - 1"
    by (simp add: word_gt_0)
  from splitShard_one_child [OF forest_reachable.init new_forest_shard this, of height_digest 0]
  show ?thesis unfolding dom by blast
qed

text \<open>
  Every operation that \<open>AnalyzeShardLoads\<close> proposes is justified, whatever orders the maps are
  ranged over: its shard exists and was not rebalanced within the interval; a split has a load
  above the split threshold; a merge has a load below the merge threshold and a different existing
  target with the same parent, whose ID is not 0 and with which the combined load is acceptable.
\<close>

theorem AnalyzeShardLoads_sound:
  assumes "range_order es shards" and "\<And>i. range_order (orders i) shards"
    and "op \<in> set (AnalyzeShardLoads sr now orders es)"
  shows "\<exists>shard. fmlookup shards (ro_ShardID op) = Some shard \<and>
    sr_rebalanceInterval sr \<le> now - ms_LastRebalanced shard \<and>
    (ro_Type op = RSplit \<longrightarrow> f64_less (sr_splitThreshold sr) (lm_LoadFactor (ms_LoadMetrics shard))) \<and>
    (ro_Type op = RMerge \<longrightarrow> f64_less (lm_LoadFactor (ms_LoadMetrics shard)) (sr_mergeThreshold sr) \<and>
       (\<exists>target. fmlookup shards (ro_TargetShardID op) = Some target \<and> ro_TargetShardID op \<noteq> 0 \<and>
          ro_TargetShardID op \<noteq> ro_ShardID op \<and> ms_ParentShard target = ms_ParentShard shard \<and>
          f64_less (f64_add (lm_LoadFactor (ms_LoadMetrics shard))
            (lm_LoadFactor (ms_LoadMetrics target))) (sr_loadThreshold sr)))"
proof -
  from assms(3) obtain i shard where e: "(i, shard) \<in> set es"
      "op \<in> set (analyze_shard sr now orders (i, shard))"
    by (auto simp: AnalyzeShardLoads_def)
  have shard: "fmlookup shards i = Some shard"
    using range_order_lookup [OF assms(1)] e(1) by simp
  have target: "\<exists>target. fmlookup shards t = Some target \<and> t \<noteq> i \<and>
      ms_ParentShard target = ms_ParentShard shard \<and>
      f64_less (f64_add (lm_LoadFactor (ms_LoadMetrics shard))
        (lm_LoadFactor (ms_LoadMetrics target))) (sr_loadThreshold sr)"
    if "t = findMergeCandidate sr (orders i) i shard" "t \<noteq> 0" for t
  proof -
    from that obtain target where f: "find (\<lambda>(j, candidate). j \<noteq> i \<and>
        ms_ParentShard candidate = ms_ParentShard shard \<and>
        f64_less (f64_add (lm_LoadFactor (ms_LoadMetrics shard))
          (lm_LoadFactor (ms_LoadMetrics candidate))) (sr_loadThreshold sr)) (orders i) =
        Some (t, target)"
      by (auto simp: findMergeCandidate_def split: option.splits)
    then obtain j where "j < length (orders i)" "orders i ! j = (t, target)"
      by (auto simp: find_Some_iff)
    then have "(t, target) \<in> set (orders i)" by (metis nth_mem)
    then have "fmlookup shards t = Some target"
      using range_order_lookup [OF assms(2)] by blast
    with f show ?thesis by (auto simp: find_Some_iff)
  qed
  from e(2) shard target [OF refl] show ?thesis
    by (auto simp: analyze_shard_def Let_def split: if_splits)
qed

theorem AnalyzeShardLoads_sound_witness:
  "\<exists>shard. fmlookup (fmupd 3 (new_shard 3 (Fin 1) 0 0) fmempty) 3 = Some shard \<and>
     f64_less (f64_round (9 / 10)) (lm_LoadFactor (ms_LoadMetrics shard))"
proof -
  let ?s = "new_shard 3 (Fin 1) 0 0"
  let ?op = "\<lparr>ro_Type = RSplit, ro_ShardID = 3, ro_TargetShardID = 0, ro_Timestamp = 300000000000\<rparr>"
  have order: "range_order [(3, ?s)] (fmupd 3 ?s fmempty)"
    by (simp add: range_order_def)
  have "?op \<in> set (AnalyzeShardLoads NewShardRebalancer 300000000000 (\<lambda>_. [(3, ?s)]) [(3, ?s)])"
    by (simp add: AnalyzeShardLoads_def analyze_shard_def NewShardRebalancer_def new_shard_def
        load_only_def f64_constants)
  from AnalyzeShardLoads_sound [OF order order this] show ?thesis
    by (simp add: NewShardRebalancer_def)
qed

end
