(* ===== verification/State_Store.thy ===== *)
theory State_Store
  imports Core_Types Interfaces
begin

text \<open>
  What the state manager is built from: the in-memory database of \<open>state/state_manager.go\<close>, the
  world state, \<open>state/compression.go\<close> and \<open>state/archival.go\<close>. Accounts, contracts and shard
  states sit behind pointers in the code; the manager copies them before every change, so they are
  values here. Timestamps are of the years 0 to 9999, the ones JSON can encode.
\<close>

section \<open>The database\<close>

record memory_db =
  db_data :: "(bytes, bytes) fmap"

definition NewMemoryStateDB :: memory_db where
  "NewMemoryStateDB = \<lparr>db_data = fmempty\<rparr>"

definition db_Get :: "bytes \<Rightarrow> memory_db \<Rightarrow> bytes res" where
  "db_Get key db =
     (case fmlookup (db_data db) key of
        None \<Rightarrow> Fail (ErrorString ''key not found'')
      | Some v \<Rightarrow> Ok v)"

definition db_Put :: "bytes \<Rightarrow> bytes \<Rightarrow> memory_db \<Rightarrow> memory_db" where
  "db_Put key v db = db\<lparr>db_data := fmupd key v (db_data db)\<rparr>"

definition db_Delete :: "bytes \<Rightarrow> memory_db \<Rightarrow> memory_db" where
  "db_Delete key db = db\<lparr>db_data := fmdrop key (db_data db)\<rparr>"

definition db_Has :: "bytes \<Rightarrow> memory_db \<Rightarrow> bool" where
  "db_Has key db = (fmlookup (db_data db) key \<noteq> None)"

definition db_load :: "memory_db \<Rightarrow> bytes \<Rightarrow> bytes option" where
  "db_load db key = fmlookup (db_data db) key"

interpretation db: kv_store_del db_Put db_load db_Delete
  by unfold_locales (simp_all add: db_Put_def db_Delete_def db_load_def)

lemma db_Get_load: "db_Get key db = (case db_load db key of
    None \<Rightarrow> Fail (ErrorString ''key not found'') | Some v \<Rightarrow> Ok v)"
  by (simp add: db_Get_def db_load_def)

lemma db_Has_load: "db_Has key db \<longleftrightarrow> db_load db key \<noteq> None"
  by (simp add: db_Has_def db_load_def)

section \<open>World states\<close>

record contract_state =
  con_CodeHash :: hash
  con_Storage :: "(hash, hash) fmap"
  con_Balance :: u64
  con_Nonce :: u64

record world_state =
  ws_StateRoot :: hash
  ws_Accounts :: "(address, account_state) fmap"
  ws_Contracts :: "(address, contract_state) fmap"
  ws_Shards :: "(u32, shard_state) fmap"
  ws_AccumulatorRoot :: hash
  ws_Timestamp :: go_time

record state_snapshot =
  sn_Height :: u64
  sn_StateRoot :: hash
  sn_Timestamp :: go_time
  sn_Compressed :: bool
  sn_Archived :: bool

section \<open>Compression\<close>

text \<open>Every hash and address becomes its \<open>String\<close>, keys of maps included.\<close>

record ser_account =
  sa_Balance :: u64
  sa_Nonce :: u64
  sa_CodeHash :: string
  sa_Storage :: "(string, string) fmap"

record ser_contract =
  sc_CodeHash :: string
  sc_Storage :: "(string, string) fmap"
  sc_Balance :: u64
  sc_Nonce :: u64

record ser_shard =
  ss_shardID :: u32
  ss_stateRoot :: string
  ss_lastModified :: go_time
  ss_accounts :: "(string, ser_account) fmap"

record ser_state =
  ser_StateRoot :: string
  ser_Accounts :: "(string, ser_account) fmap"
  ser_Contracts :: "(string, ser_contract) fmap"
  ser_Shards :: "(u32, ser_shard) fmap"
  ser_AccumulatorRoot :: string
  ser_Timestamp :: go_time

definition ser_storage :: "(hash, hash) fmap \<Rightarrow> (string, string) fmap" where
  "ser_storage st = rekey Hash_String Hash_String st"

definition ser_of_account :: "account_state \<Rightarrow> ser_account" where
  "ser_of_account a =
     \<lparr>sa_Balance = acc_Balance a, sa_Nonce = acc_Nonce a, sa_CodeHash = Hash_String (acc_CodeHash a),
      sa_Storage = ser_storage (acc_Storage a)\<rparr>"

definition ser_of_contract :: "contract_state \<Rightarrow> ser_contract" where
  "ser_of_contract c =
     \<lparr>sc_CodeHash = Hash_String (con_CodeHash c), sc_Storage = ser_storage (con_Storage c),
      sc_Balance = con_Balance c, sc_Nonce = con_Nonce c\<rparr>"

definition ser_of_shard :: "shard_state \<Rightarrow> ser_shard" where
  "ser_of_shard s =
     \<lparr>ss_shardID = ss_ShardID s, ss_stateRoot = Hash_String (ss_StateRoot s),
      ss_lastModified = ss_LastModified s,
      ss_accounts = rekey Address_String ser_of_account (ss_Accounts s)\<rparr>"

definition to_serializable :: "world_state \<Rightarrow> ser_state" where
  "to_serializable st =
     \<lparr>ser_StateRoot = Hash_String (ws_StateRoot st),
      ser_Accounts = rekey Address_String ser_of_account (ws_Accounts st),
      ser_Contracts = rekey Address_String ser_of_contract (ws_Contracts st),
      ser_Shards = fmmap ser_of_shard (ws_Shards st),
      ser_AccumulatorRoot = Hash_String (ws_AccumulatorRoot st),
      ser_Timestamp = ws_Timestamp st\<rparr>"

text \<open>JSON and gzip are an argument: they never fail on these values.\<close>

definition CompressWorldState :: "(ser_state \<Rightarrow> bytes) \<Rightarrow> world_state \<Rightarrow> bytes" where
  "CompressWorldState encode st = encode (to_serializable st)"

definition DecompressWorldState :: "state_snapshot \<Rightarrow> world_state res" where
  "DecompressWorldState snapshot = Fail (ErrorString ''decompression not implemented'')"

section \<open>Archive\<close>

record archive_record =
  ar_StateRoot :: string
  ar_Accounts :: "(string, account_state) fmap"
  ar_Contracts :: "(string, contract_state) fmap"
  ar_Shards :: "(u32, shard_state) fmap"
  ar_AccumulatorRoot :: string
  ar_Timestamp :: go_time

text \<open>
  \<open>json.Marshal\<close> refuses maps whose key type is an array, so it fails as soon as it meets an
  account, a contract (their \<open>Storage\<close>) or a shard (its \<open>Accounts\<close>). Bytes it produces decode to
  the record they were made from, so the record stands for them.
\<close>

definition json_archive :: "archive_record \<Rightarrow> archive_record res" where
  "json_archive r =
     (if ar_Accounts r \<noteq> fmempty \<or> ar_Contracts r \<noteq> fmempty
      then Fail (ErrUnsupportedType ''map[core.Hash]core.Hash'')
      else if ar_Shards r \<noteq> fmempty
      then Fail (ErrUnsupportedType ''map[core.Address]core.AccountState'')
      else Ok r)"

record state_archive =
  sar_archivedData :: "(u64, archive_record) fmap"

definition NewStateArchive :: state_archive where
  "NewStateArchive = \<lparr>sar_archivedData = fmempty\<rparr>"

definition Archive :: "world_state \<Rightarrow> state_archive \<Rightarrow> state_archive res" where
  "Archive st sar =
     bind_res (json_archive
       \<lparr>ar_StateRoot = Hash_String (ws_StateRoot st),
        ar_Accounts = rekey Address_String id (ws_Accounts st),
        ar_Contracts = rekey Address_String id (ws_Contracts st),
        ar_Shards = ws_Shards st,
        ar_AccumulatorRoot = Hash_String (ws_AccumulatorRoot st),
        ar_Timestamp = ws_Timestamp st\<rparr>) (\<lambda>d.
       Ok (sar\<lparr>sar_archivedData := fmupd (Unix (ws_Timestamp st)) d (sar_archivedData sar)\<rparr>))"

definition parse_hash :: "string \<Rightarrow> hash" where
  "parse_hash s =
     (case hex_decode s of
        Some bs \<Rightarrow> if length bs = 32 then of_be_bytes bs else 0
      | None \<Rightarrow> 0)"

definition parse_address :: "string \<Rightarrow> address option" where
  "parse_address s =
     (let s' = (if 2 \<le> length s \<and> take 2 s = ''0x'' then drop 2 s else s) in
      case hex_decode s' of
        Some bs \<Rightarrow> if length bs = 20 then Some (of_be_bytes bs) else None
      | None \<Rightarrow> None)"

text \<open>The loop that converts keys back, over the entries in the order of the range.\<close>

fun parse_entries :: "(string \<times> 'v) list \<Rightarrow> (address, 'v) fmap \<Rightarrow> (address, 'v) fmap" where
  "parse_entries [] m = m"
| "parse_entries ((s, v) # es) m =
     parse_entries es (case parse_address s of None \<Rightarrow> m | Some a \<Rightarrow> fmupd a v m)"

text \<open>\<open>acc_order\<close> and \<open>con_order\<close> give the orders of the two loops.\<close>

definition Retrieve ::
  "((string, account_state) fmap \<Rightarrow> (string \<times> account_state) list) \<Rightarrow>
   ((string, contract_state) fmap \<Rightarrow> (string \<times> contract_state) list) \<Rightarrow>
   u64 \<Rightarrow> state_archive \<Rightarrow> world_state res" where
  "Retrieve acc_order con_order height sar =
     (case fmlookup (sar_archivedData sar) height of
        None \<Rightarrow> Fail (ErrorString ''archived state not found'')
      | Some r \<Rightarrow>
          Ok \<lparr>ws_StateRoot = parse_hash (ar_StateRoot r),
              ws_Accounts = parse_entries (acc_order (ar_Accounts r)) fmempty,
              ws_Contracts = parse_entries (con_order (ar_Contracts r)) fmempty,
              ws_Shards = ar_Shards r,
              ws_AccumulatorRoot = parse_hash (ar_AccumulatorRoot r),
              ws_Timestamp = ar_Timestamp r\<rparr>)"

section \<open>Pruning\<close>

record state_pruner =
  sp_retentionPeriod :: int

definition NewStatePruner :: state_pruner where
  "NewStatePruner = \<lparr>sp_retentionPeriod = 30 * 24 * 3600 * 1000000000\<rparr>"

definition Prune ::
  "state_pruner \<Rightarrow> go_time \<Rightarrow> u64 \<Rightarrow> (u64 \<times> state_snapshot) list \<Rightarrow> u64 list" where
  "Prune sp now beforeHeight es =
     map fst (filter (\<lambda>(height, snapshot). height < beforeHeight \<and> \<not> sn_Archived snapshot \<and>
       now - sn_Timestamp snapshot > sp_retentionPeriod sp) es)"

section \<open>Properties\<close>

lemma inj_Hash_String: "inj Hash_String"
  by (rule injI) (rule Hash_String_inj)

lemma inj_Address_String: "inj Address_String"
  by (rule injI) (rule Address_String_inj)

lemma ser_storage_inj: "ser_storage m = ser_storage m' \<Longrightarrow> m = m'"
  unfolding ser_storage_def by (rule rekey_inj [OF inj_Hash_String inj_Hash_String])

lemma inj_ser_of_account: "inj ser_of_account"
  by (rule injI) (auto simp: ser_of_account_def dest: Hash_String_inj ser_storage_inj
      intro: account_state.equality)

lemma inj_ser_of_contract: "inj ser_of_contract"
  by (rule injI) (auto simp: ser_of_contract_def dest: Hash_String_inj ser_storage_inj
      intro: contract_state.equality)

lemma inj_ser_of_shard: "inj ser_of_shard"
  by (rule injI) (auto simp: ser_of_shard_def dest: Hash_String_inj
      rekey_inj [OF inj_Address_String inj_ser_of_account] intro: shard_state.equality)

lemma fmmap_inj: "inj f \<Longrightarrow> fmmap f m = fmmap f m' \<Longrightarrow> m = m'"
  by (rule fmap_ext) (metis fmlookup_map inj_map_eq_map option.inj_map injD)

text \<open>
  Compression loses nothing: the serializable copy determines the world state, every hash,
  address, map and timestamp included, so two states with the same copy are the same.
\<close>

theorem serializable_lossless: "to_serializable st = to_serializable st' \<longleftrightarrow> st = st'"
  by (auto simp: to_serializable_def dest: Hash_String_inj
      rekey_inj [OF inj_Address_String inj_ser_of_account]
      rekey_inj [OF inj_Address_String inj_ser_of_contract]
      fmmap_inj [OF inj_ser_of_shard] intro: world_state.equality)

lemma rekey_empty_iff: "inj f \<Longrightarrow> rekey f g m = fmempty \<longleftrightarrow> m = fmempty"
  by (metis fmap_ext fmempty_lookup option.map_disc_iff rekey_empty rekey_lookup)

lemma parse_hash_String: "parse_hash (Hash_String h) = h"
  by (simp add: parse_hash_def Hash_String_def of_be_bytes_be_bytes)

text \<open>
  Archiving works only for states without accounts, contracts and shards; then retrieving gives
  the state back, but under the Unix time of the state, not under a height: every other number finds
  what was archived before.
\<close>

theorem archive_keyed_by_time:
  assumes "acc_order fmempty = []" and "con_order fmempty = []"
  shows "(is_Ok (Archive st sar) \<longleftrightarrow>
      ws_Accounts st = fmempty \<and> ws_Contracts st = fmempty \<and> ws_Shards st = fmempty) \<and>
    (\<forall>sar'. Archive st sar = Ok sar' \<longrightarrow>
      (\<forall>height. Retrieve acc_order con_order height sar' =
        (if height = Unix (ws_Timestamp st) then Ok st
         else Retrieve acc_order con_order height sar)))"
proof -
  have iff: "is_Ok (Archive st sar) \<longleftrightarrow>
      ws_Accounts st = fmempty \<and> ws_Contracts st = fmempty \<and> ws_Shards st = fmempty"
    by (auto simp: Archive_def json_archive_def rekey_empty_iff [OF inj_Address_String])
  have "Retrieve acc_order con_order height sar' =
      (if height = Unix (ws_Timestamp st) then Ok st else Retrieve acc_order con_order height sar)"
    if "Archive st sar = Ok sar'" for sar' height
  proof -
    from that iff have e: "ws_Accounts st = fmempty" "ws_Contracts st = fmempty" "ws_Shards st = fmempty"
      by auto
    from that have "sar' = sar\<lparr>sar_archivedData := fmupd (Unix (ws_Timestamp st))
       \<lparr>ar_StateRoot = Hash_String (ws_StateRoot st), ar_Accounts = fmempty, ar_Contracts = fmempty,
        ar_Shards = fmempty, ar_AccumulatorRoot = Hash_String (ws_AccumulatorRoot st),
        ar_Timestamp = ws_Timestamp st\<rparr> (sar_archivedData sar)\<rparr>"
      by (simp add: Archive_def json_archive_def e)
    with e assms show ?thesis
      by (simp add: Retrieve_def parse_hash_String)
  qed
  with iff show ?thesis by blast
qed

definition empty_world :: "go_time \<Rightarrow> world_state" where
  "empty_world t =
     \<lparr>ws_StateRoot = 0, ws_Accounts = fmempty, ws_Contracts = fmempty, ws_Shards = fmempty,
      ws_AccumulatorRoot = 0, ws_Timestamp = t\<rparr>"

theorem archive_keyed_by_time_witness:
  "\<exists>sar. Archive (empty_world 5000000000) NewStateArchive = Ok sar \<and>
     Retrieve (\<lambda>_. []) (\<lambda>_. []) 5 sar = Ok (empty_world 5000000000) \<and>
     Retrieve (\<lambda>_. []) (\<lambda>_. []) 1 sar = Fail (ErrorString ''archived state not found'')"
proof -
  note a = archive_keyed_by_time [of "\<lambda>_. []" "\<lambda>_. []" "empty_world 5000000000" NewStateArchive,
      OF refl refl]
  then obtain sar where sar: "Archive (empty_world 5000000000) NewStateArchive = Ok sar"
    by (auto simp: empty_world_def is_Ok_iff)
  have "Unix (ws_Timestamp (empty_world 5000000000)) = 5"
    by (simp add: Unix_def empty_world_def)
  with a sar show ?thesis
    by (intro exI [of _ sar]) (simp add: Retrieve_def NewStateArchive_def)
qed

end
