(* ===== verification/State_Manager.thy ===== *)
theory State_Manager
  imports State_Store Crypto_Accumulator
begin

text \<open>
  \<open>state/state_manager.go\<close>: applying the transactions of a block to a copy of the world state,
  the accumulator and state root over all accounts, snapshots, and the lookup by height. Every
  exported method is one atomic step (the \<open>RWMutex\<close>).
\<close>

section \<open>Serialization and roots\<close>

text \<open>
  \<open>json.Marshal\<close> of an account or contract always fails: both have a map keyed by
  \<open>core.Hash\<close>, an array type without text encoding. The error is dropped and the data is nil.
\<close>

definition json_account :: "account_state \<Rightarrow> bytes res" where
  "json_account a = Fail (ErrUnsupportedType ''map[core.Hash]core.Hash'')"

definition json_contract :: "contract_state \<Rightarrow> bytes res" where
  "json_contract c = Fail (ErrUnsupportedType ''map[core.Hash]core.Hash'')"

definition dropped_error :: "bytes res \<Rightarrow> bytes" where
  "dropped_error r = (case r of Ok d \<Rightarrow> d | _ \<Rightarrow> [])"

definition serializeAccountState :: "account_state \<Rightarrow> bytes" where
  "serializeAccountState a = dropped_error (json_account a)"

definition serializeContractState :: "contract_state \<Rightarrow> bytes" where
  "serializeContractState c = dropped_error (json_contract c)"

definition hashAccountState :: "digest \<Rightarrow> account_state \<Rightarrow> hash" where
  "hashAccountState sha a = ComputeHash sha (serializeAccountState a)"

definition hashContractState :: "digest \<Rightarrow> contract_state \<Rightarrow> hash" where
  "hashContractState sha c = ComputeHash sha (serializeContractState c)"

text \<open>The orders in which one function ranges over the maps of a state.\<close>

record ws_orders =
  wo_accounts :: "(address \<times> account_state) list"
  wo_contracts :: "(address \<times> contract_state) list"
  wo_shards :: "(u32 \<times> shard_state) list"

definition orders_of :: "ws_orders \<Rightarrow> world_state \<Rightarrow> bool" where
  "orders_of os st \<longleftrightarrow> range_order (wo_accounts os) (ws_Accounts st) \<and>
     range_order (wo_contracts os) (ws_Contracts st) \<and> range_order (wo_shards os) (ws_Shards st)"

definition updateAccumulator :: "digest \<Rightarrow> ws_orders \<Rightarrow> accumulator" where
  "updateAccumulator sha os =
     fold (\<lambda>(addr, c). acc_Add sha (be_bytes addr @ serializeContractState c)) (wo_contracts os)
       (fold (\<lambda>(addr, a). acc_Add sha (be_bytes addr @ serializeAccountState a)) (wo_accounts os)
         NewAccumulator)"

definition state_root_data :: "digest \<Rightarrow> ws_orders \<Rightarrow> bytes" where
  "state_root_data sha os =
     concat (map (\<lambda>(addr, a). be_bytes addr @ be_bytes (hashAccountState sha a)) (wo_accounts os)) @
     concat (map (\<lambda>(addr, c). be_bytes addr @ be_bytes (hashContractState sha c)) (wo_contracts os)) @
     concat (map (\<lambda>(i, s). be_bytes i @ be_bytes (ss_StateRoot s)) (wo_shards os))"

definition calculateStateRoot :: "digest \<Rightarrow> ws_orders \<Rightarrow> hash" where
  "calculateStateRoot sha os = ComputeHash sha (state_root_data sha os)"

section \<open>Copies and transactions\<close>

text \<open>Rebuilding a map entry by entry gives the same map; both roots are left zero.\<close>

definition copy_account :: "account_state \<Rightarrow> account_state" where
  "copy_account a = \<lparr>acc_Balance = acc_Balance a, acc_Nonce = acc_Nonce a,
     acc_CodeHash = acc_CodeHash a, acc_Storage = acc_Storage a\<rparr>"

definition copy_contract :: "contract_state \<Rightarrow> contract_state" where
  "copy_contract c = \<lparr>con_CodeHash = con_CodeHash c, con_Storage = con_Storage c,
     con_Balance = con_Balance c, con_Nonce = con_Nonce c\<rparr>"

definition copy_shard :: "shard_state \<Rightarrow> shard_state" where
  "copy_shard s = \<lparr>ss_ShardID = ss_ShardID s, ss_StateRoot = ss_StateRoot s,
     ss_Accounts = ss_Accounts s, ss_LastModified = ss_LastModified s\<rparr>"

definition copyState :: "world_state \<Rightarrow> world_state" where
  "copyState st =
     \<lparr>ws_StateRoot = 0, ws_Accounts = fmmap copy_account (ws_Accounts st),
      ws_Contracts = fmmap copy_contract (ws_Contracts st),
      ws_Shards = fmmap copy_shard (ws_Shards st),
      ws_AccumulatorRoot = 0, ws_Timestamp = ws_Timestamp st\<rparr>"

definition new_account :: account_state where
  "new_account = \<lparr>acc_Balance = 0, acc_Nonce = 0, acc_CodeHash = 0, acc_Storage = fmempty\<rparr>"

text \<open>
  The sender is written before the receiver is looked up, so a transfer to oneself sees the
  reduced balance. Additions wrap.
\<close>

definition applyTransaction :: "transaction \<Rightarrow> world_state \<Rightarrow> world_state res" where
  "applyTransaction tx st =
     (case fmlookup (ws_Accounts st) (tx_From tx) of
        None \<Rightarrow> Fail (ErrorString ''sender account not found'')
      | Some sender \<Rightarrow>
          if tx_Nonce tx \<noteq> acc_Nonce sender then Fail (ErrorString ''invalid nonce'')
          else if acc_Balance sender < tx_Value tx then Fail (ErrorString ''insufficient balance'')
          else
            let sender' = sender\<lparr>acc_Balance := acc_Balance sender - tx_Value tx,
                  acc_Nonce := acc_Nonce sender + 1\<rparr>;
                accounts = fmupd (tx_From tx) sender' (ws_Accounts st);
                receiver = (case fmlookup accounts (tx_To tx) of
                    None \<Rightarrow> new_account | Some r \<Rightarrow> r);
                receiver' = receiver\<lparr>acc_Balance := acc_Balance receiver + tx_Value tx\<rparr>
            in Ok (st\<lparr>ws_Accounts := fmupd (tx_To tx) receiver' accounts\<rparr>))"

fun applyTransactions :: "transaction list \<Rightarrow> world_state \<Rightarrow> world_state res" where
  "applyTransactions [] st = Ok st"
| "applyTransactions (tx # txs) st =
     (case applyTransaction tx st of
        Ok st' \<Rightarrow> applyTransactions txs st'
      | Fail e \<Rightarrow> Fail (ErrApplyTx (tx_ID tx) e)
      | Panic p \<Rightarrow> Panic p)"

section \<open>The manager\<close>

record state_manager =
  sm_currentState :: world_state
  sm_stateArchive :: state_archive
  sm_pruner :: state_pruner
  sm_accumulators :: "(hash, accumulator) fmap"
  sm_stateHistory :: "(u64, state_snapshot) fmap"
  sm_stateDB :: memory_db

definition NewStateManager :: "go_time \<Rightarrow> state_manager" where
  "NewStateManager now =
     \<lparr>sm_currentState =
        \<lparr>ws_StateRoot = 0, ws_Accounts = fmempty, ws_Contracts = fmempty, ws_Shards = fmempty,
         ws_AccumulatorRoot = 0, ws_Timestamp = now\<rparr>,
      sm_stateArchive = NewStateArchive, sm_pruner = NewStatePruner, sm_accumulators = fmempty,
      sm_stateHistory = fmempty, sm_stateDB = NewMemoryStateDB\<rparr>"

definition GetCurrentState :: "state_manager \<Rightarrow> world_state" where
  "GetCurrentState sm = sm_currentState sm"

definition shouldCompress :: "u64 \<Rightarrow> bool" where
  "shouldCompress height \<longleftrightarrow> height mod 1000 = 0"

definition shouldArchive :: "u64 \<Rightarrow> bool" where
  "shouldArchive height \<longleftrightarrow> height mod 10000 = 0"

definition account_key :: "address \<Rightarrow> bytes" where
  "account_key addr = string_bytes ''account:'' @ be_bytes addr"

definition contract_key :: "address \<Rightarrow> bytes" where
  "contract_key addr = string_bytes ''contract:'' @ be_bytes addr"

definition save_entries :: "ws_orders \<Rightarrow> hash \<Rightarrow> (bytes \<times> bytes) list" where
  "save_entries os rt =
     (string_bytes ''stateRoot'', be_bytes rt) #
     map (\<lambda>(addr, a). (account_key addr, serializeAccountState a)) (wo_accounts os) @
     map (\<lambda>(addr, c). (contract_key addr, serializeContractState c)) (wo_contracts os)"

text \<open>\<open>Put\<close> never fails.\<close>

definition saveState :: "ws_orders \<Rightarrow> world_state \<Rightarrow> memory_db \<Rightarrow> memory_db" where
  "saveState os st db = fold (case_prod db_Put) (save_entries os (ws_StateRoot st)) db"

text \<open>\<open>fmt.Sprintf\<close> of an integer.\<close>

fun dec_digits :: "nat \<Rightarrow> string" where
  "dec_digits n = (if n < 10 then [char_of (48 + n)] else dec_digits (n div 10) @ [char_of (48 + n mod 10)])"

declare dec_digits.simps [simp del]

definition decimal :: "int \<Rightarrow> string" where
  "decimal i = (if i < 0 then CHR ''-'' # dec_digits (nat (- i)) else dec_digits (nat i))"

definition compressState ::
  "(ser_state \<Rightarrow> bytes) \<Rightarrow> go_time \<Rightarrow> world_state \<Rightarrow> memory_db \<Rightarrow> memory_db" where
  "compressState encode now st db =
     db_Put (string_bytes (''compressed:'' @ decimal (sint (Unix now)))) (CompressWorldState encode st) db"

text \<open>
  The conversion \<open>core.Hash(accumulator.Root())\<close> of a slice to an array panics when the slice
  is shorter than 32 bytes.
\<close>

definition slice_to_hash :: "bytes \<Rightarrow> hash res" where
  "slice_to_hash bs =
     (if length bs < 32 then Panic SliceToArray else Ok (of_be_bytes (take 32 bs)))"

text \<open>
  \<open>o1\<close>, \<open>o2\<close>, \<open>o3\<close> are the orders of the accumulator, of the state root and of saving. A
  failing update may leave a written database entry behind, so the manager is returned with the
  result.
\<close>

definition UpdateState ::
  "digest \<Rightarrow> (ser_state \<Rightarrow> bytes) \<Rightarrow> ws_orders \<Rightarrow> ws_orders \<Rightarrow> ws_orders \<Rightarrow> go_time \<Rightarrow> block \<Rightarrow>
     state_manager \<Rightarrow> state_manager \<times> unit res" where
  "UpdateState sha encode o1 o2 o3 now b sm =
     (case applyTransactions (blk_Transactions b) (copyState (sm_currentState sm)) of
        Fail e \<Rightarrow> (sm, Fail e)
      | Panic p \<Rightarrow> (sm, Panic p)
      | Ok st \<Rightarrow>
          (case slice_to_hash (acc_Root (updateAccumulator sha o1)) of
             Fail e \<Rightarrow> (sm, Fail e)
           | Panic p \<Rightarrow> (sm, Panic p)
           | Ok accRoot \<Rightarrow>
               let h = hdr_Height (blk_Header b);
                   newState = st\<lparr>ws_AccumulatorRoot := accRoot,
                     ws_StateRoot := calculateStateRoot sha o2, ws_Timestamp := now\<rparr>;
                   snapshot = \<lparr>sn_Height = h, sn_StateRoot = ws_StateRoot newState,
                     sn_Timestamp = now, sn_Compressed = shouldCompress h,
                     sn_Archived = shouldArchive h\<rparr>;
                   sm1 = (if shouldCompress h
                     then sm\<lparr>sm_stateDB := compressState encode now (sm_currentState sm)
                            (sm_stateDB sm)\<rparr>
                     else sm)
               in (case (if shouldArchive h
                         then Archive (sm_currentState sm) (sm_stateArchive sm)
                         else Ok (sm_stateArchive sm)) of
                     Fail e \<Rightarrow> (sm1, Fail e)
                   | Panic p \<Rightarrow> (sm1, Panic p)
                   | Ok sar \<Rightarrow>
                       (sm1\<lparr>sm_stateArchive := sar,
                            sm_stateDB := saveState o3 newState (sm_stateDB sm1),
                            sm_currentState := newState,
                            sm_stateHistory := fmupd h snapshot (sm_stateHistory sm)\<rparr>, Ok ()))))"

definition GetState ::
  "((string, account_state) fmap \<Rightarrow> (string \<times> account_state) list) \<Rightarrow>
   ((string, contract_state) fmap \<Rightarrow> (string \<times> contract_state) list) \<Rightarrow>
   u64 \<Rightarrow> state_manager \<Rightarrow> world_state res" where
  "GetState acc_order con_order height sm =
     (case fmlookup (sm_stateHistory sm) height of
        None \<Rightarrow> Fail (ErrorString ''state not found'')
      | Some snapshot \<Rightarrow>
          if sn_Archived snapshot then Retrieve acc_order con_order height (sm_stateArchive sm)
          else if sn_Compressed snapshot then DecompressWorldState snapshot
          else if sn_StateRoot snapshot = ws_StateRoot (sm_currentState sm)
          then Ok (sm_currentState sm)
          else Fail (ErrorString ''state not available''))"

section \<open>Supply and nonces\<close>

definition balance_of :: "world_state \<Rightarrow> address \<Rightarrow> u64" where
  "balance_of st a = (case fmlookup (ws_Accounts st) a of None \<Rightarrow> 0 | Some x \<Rightarrow> acc_Balance x)"

definition nonce_of :: "world_state \<Rightarrow> address \<Rightarrow> u64" where
  "nonce_of st a = (case fmlookup (ws_Accounts st) a of None \<Rightarrow> 0 | Some x \<Rightarrow> acc_Nonce x)"

text \<open>The sum of all balances, as a number without bound.\<close>

definition total_supply :: "world_state \<Rightarrow> nat" where
  "total_supply st = (\<Sum>a \<in> fmdom' (ws_Accounts st). unat (balance_of st a))"

lemma total_supply_upd:
  assumes "ws_Accounts st' = fmupd a x (ws_Accounts st)"
  shows "total_supply st' + unat (balance_of st a) = total_supply st + unat (acc_Balance x)"
proof -
  let ?D = "fmdom' (ws_Accounts st)"
  have bal: "balance_of st' b = (if b = a then acc_Balance x else balance_of st b)" for b
    by (simp add: balance_of_def assms)
  have "total_supply st' = (\<Sum>b \<in> insert a (?D - {a}). unat (balance_of st' b))"
    by (simp add: total_supply_def assms)
  also have "\<dots> = unat (acc_Balance x) + (\<Sum>b \<in> ?D - {a}. unat (balance_of st' b))"
    by (subst sum.insert) (simp_all add: bal)
  also have "(\<Sum>b \<in> ?D - {a}. unat (balance_of st' b)) = (\<Sum>b \<in> ?D - {a}. unat (balance_of st b))"
    by (rule sum.cong) (simp_all add: bal)
  finally have new: "total_supply st' =
      unat (acc_Balance x) + (\<Sum>b \<in> ?D - {a}. unat (balance_of st b))" .
  have "total_supply st = unat (balance_of st a) + (\<Sum>b \<in> ?D - {a}. unat (balance_of st b))"
  proof (cases "a \<in> ?D")
    case True
    then show ?thesis unfolding total_supply_def by (intro sum.remove) simp_all
  next
    case False
    then have "balance_of st a = 0" by (simp add: balance_of_def fmdom'_lookup)
    with False show ?thesis by (simp add: total_supply_def)
  qed
  with new show ?thesis by simp
qed

lemma unat_add_wrap: "\<exists>k. unat (x :: u64) + unat y = unat (x + y) + k * 2 ^ 64"
proof
  show "unat x + unat y = unat (x + y) + ((unat x + unat y) div 2 ^ 64) * 2 ^ 64"
    by (simp add: unat_word_ariths)
qed

lemma applyTransaction_OkE:
  assumes "applyTransaction tx st = Ok st'"
  obtains sender where "fmlookup (ws_Accounts st) (tx_From tx) = Some sender"
    "tx_Nonce tx = acc_Nonce sender" "tx_Value tx \<le> acc_Balance sender"
    "ws_Contracts st' = ws_Contracts st" "ws_Shards st' = ws_Shards st"
    "ws_Accounts st' =
      (let accounts = fmupd (tx_From tx) (sender\<lparr>acc_Balance := acc_Balance sender - tx_Value tx,
             acc_Nonce := acc_Nonce sender + 1\<rparr>) (ws_Accounts st);
           receiver = (case fmlookup accounts (tx_To tx) of None \<Rightarrow> new_account | Some r \<Rightarrow> r)
       in fmupd (tx_To tx) (receiver\<lparr>acc_Balance := acc_Balance receiver + tx_Value tx\<rparr>) accounts)"
  using assms by (auto simp: applyTransaction_def Let_def split: option.splits if_splits)

lemma applyTransaction_supply:
  assumes "applyTransaction tx st = Ok st'"
  shows "\<exists>k. total_supply st = total_supply st' + k * 2 ^ 64"
  using assms
proof (cases rule: applyTransaction_OkE)
  case (1 sender)
  let ?v = "tx_Value tx" and ?to = "tx_To tx"
  define st1 where "st1 = st\<lparr>ws_Accounts := fmupd (tx_From tx)
    (sender\<lparr>acc_Balance := acc_Balance sender - ?v, acc_Nonce := acc_Nonce sender + 1\<rparr>)
    (ws_Accounts st)\<rparr>"
  have "total_supply st1 + unat (acc_Balance sender) = total_supply st + unat (acc_Balance sender - ?v)"
    using total_supply_upd [of st1 "tx_From tx" _ st] 1(1) by (simp add: st1_def balance_of_def)
  moreover have "unat (acc_Balance sender - ?v) = unat (acc_Balance sender) - unat ?v"
    using 1(3) by (rule unat_sub)
  moreover have "unat ?v \<le> unat (acc_Balance sender)"
    using 1(3) by (simp add: word_le_nat_alt)
  ultimately have s1: "total_supply st1 + unat ?v = total_supply st" by linarith
  let ?r = "case fmlookup (ws_Accounts st1) ?to of None \<Rightarrow> new_account | Some r \<Rightarrow> r"
  have r: "acc_Balance ?r = balance_of st1 ?to"
    by (simp add: balance_of_def new_account_def split: option.split)
  have "ws_Accounts st' = fmupd ?to (?r\<lparr>acc_Balance := acc_Balance ?r + ?v\<rparr>) (ws_Accounts st1)"
    using 1(6) by (simp add: st1_def Let_def)
  from total_supply_upd [OF this] r
  have "total_supply st' + unat (balance_of st1 ?to) = total_supply st1 + unat (balance_of st1 ?to + ?v)"
    by simp
  moreover obtain k where "unat (balance_of st1 ?to) + unat ?v = unat (balance_of st1 ?to + ?v) + k * 2 ^ 64"
    using unat_add_wrap by blast
  ultimately have "total_supply st = total_supply st' + k * 2 ^ 64" using s1 by linarith
  then show ?thesis ..
qed

lemma applyTransaction_nonce:
  assumes "applyTransaction tx st = Ok st'"
  shows "tx_Nonce tx = nonce_of st (tx_From tx) \<and>
    nonce_of st' a = nonce_of st a + (if tx_From tx = a then 1 else 0)"
  using assms
proof (cases rule: applyTransaction_OkE)
  case (1 sender)
  then show ?thesis
    by (auto simp: nonce_of_def new_account_def Let_def split: option.splits)
qed

lemma applyTransactions_supply:
  "applyTransactions txs st = Ok st' \<Longrightarrow> \<exists>k. total_supply st = total_supply st' + k * 2 ^ 64"
proof (induction txs arbitrary: st)
  case Nil
  then show ?case by (intro exI [of _ 0]) simp
next
  case (Cons tx txs)
  then obtain st1 where st1: "applyTransaction tx st = Ok st1" "applyTransactions txs st1 = Ok st'"
    by (auto split: res.splits)
  from applyTransaction_supply [OF st1(1)] Cons.IH [OF st1(2)] obtain k l where
    "total_supply st = total_supply st1 + k * 2 ^ 64" "total_supply st1 = total_supply st' + l * 2 ^ 64" by blast
  then have "total_supply st = total_supply st' + (k + l) * 2 ^ 64" by (simp add: algebra_simps)
  then show ?case ..
qed

lemma applyTransactions_append:
  "applyTransactions (xs @ ys) st = Ok st' \<longleftrightarrow>
     (\<exists>st1. applyTransactions xs st = Ok st1 \<and> applyTransactions ys st1 = Ok st')"
  by (induction xs arbitrary: st) (auto split: res.splits)

definition sent_by :: "address \<Rightarrow> transaction list \<Rightarrow> nat" where
  "sent_by a txs = length (filter (\<lambda>tx. tx_From tx = a) txs)"

lemma applyTransactions_nonce:
  "applyTransactions txs st = Ok st' \<Longrightarrow> nonce_of st' a = nonce_of st a + of_nat (sent_by a txs)"
proof (induction txs arbitrary: st)
  case Nil
  then show ?case by (simp add: sent_by_def)
next
  case (Cons tx txs)
  then obtain st1 where st1: "applyTransaction tx st = Ok st1" "applyTransactions txs st1 = Ok st'"
    by (auto split: res.splits)
  from applyTransaction_nonce [OF st1(1), of a] Cons.IH [OF st1(2)] show ?case
    by (auto simp: sent_by_def)
qed

lemma applyTransactions_nth_nonce:
  assumes "applyTransactions txs st = Ok st'" and "i < length txs"
  shows "tx_Nonce (txs ! i) = nonce_of st (tx_From (txs ! i)) +
    of_nat (sent_by (tx_From (txs ! i)) (take i txs))"
proof -
  have "txs = take i txs @ txs ! i # drop (Suc i) txs"
    using assms(2) by (rule id_take_nth_drop)
  with assms(1) have "applyTransactions (take i txs @ txs ! i # drop (Suc i) txs) st = Ok st'"
    by simp
  then obtain st1 where st1: "applyTransactions (take i txs) st = Ok st1"
      "applyTransactions (txs ! i # drop (Suc i) txs) st1 = Ok st'"
    unfolding applyTransactions_append by blast
  then obtain st2 where "applyTransaction (txs ! i) st1 = Ok st2" by (auto split: res.splits)
  from applyTransaction_nonce [OF this] applyTransactions_nonce [OF st1(1)] show ?thesis by simp
qed

lemma sent_by_strict:
  assumes "i < j" and "j < length txs" and "tx_From (txs ! i) = a"
  shows "sent_by a (take i txs) < sent_by a (take j txs)"
proof -
  have "take j txs = take i txs @ txs ! i # drop (Suc i) (take j txs)"
    using assms id_take_nth_drop [of i "take j txs"] by (simp add: min_def)
  then have "sent_by a (take j txs) = sent_by a (take i txs @ txs ! i # drop (Suc i) (take j txs))"
    by simp
  also have "\<dots> > sent_by a (take i txs)"
    using assms(3) by (simp add: sent_by_def)
  finally show ?thesis .
qed

lemma applyTransactions_no_replay:
  assumes "applyTransactions txs st = Ok st'" and "length txs < 2 ^ 64"
  shows "distinct (map (\<lambda>tx. (tx_From tx, tx_Nonce tx)) txs)"
proof -
  have False if ij: "i < j" "j < length txs" "tx_From (txs ! i) = tx_From (txs ! j)"
    "tx_Nonce (txs ! i) = tx_Nonce (txs ! j)" for i j
  proof -
    let ?a = "tx_From (txs ! j)"
    let ?m = "sent_by ?a (take i txs)" and ?n = "sent_by ?a (take j txs)"
    have less: "?m < ?n" using ij by (intro sent_by_strict) simp_all
    have "?n \<le> length (take j txs)" unfolding sent_by_def by (rule length_filter_le)
    with ij(2) assms(2) have n: "?n < 2 ^ 64" by simp
    have "(of_nat ?m :: u64) = of_nat ?n"
      using applyTransactions_nth_nonce [OF assms(1), of i]
        applyTransactions_nth_nonce [OF assms(1), of j] ij by simp
    from arg_cong [OF this, of unat] have "?m mod 2 ^ 64 = ?n mod 2 ^ 64"
      by (simp add: unat_of_nat)
    with less n show False by simp
  qed
  then show ?thesis
    unfolding distinct_conv_nth by (metis (no_types, lifting) length_map linorder_neqE_nat nth_map prod.inject)
qed

section \<open>The accumulator, the root and the database\<close>

definition acc_elements :: "ws_orders \<Rightarrow> bytes list" where
  "acc_elements os =
     map (\<lambda>(addr, a). be_bytes addr @ serializeAccountState a) (wo_accounts os) @
     map (\<lambda>(addr, c). be_bytes addr @ serializeContractState c) (wo_contracts os)"

lemma updateAccumulator_eq:
  "updateAccumulator sha os = fold (acc_Add sha) (acc_elements os) NewAccumulator"
  by (simp add: updateAccumulator_def acc_elements_def fold_map comp_def case_prod_unfold)

lemma acc_Root_short: "length (acc_Root (updateAccumulator sha os)) \<le> 2"
proof -
  have "ac_value (updateAccumulator sha os) < 257"
    unfolding updateAccumulator_eq accumulated_value by simp
  then have "ac_value (updateAccumulator sha os) < 256 ^ 2" by simp
  then show ?thesis unfolding acc_Root_def by (rule length_big_Bytes_le)
qed

lemma slice_to_hash_Root: "slice_to_hash (acc_Root (updateAccumulator sha os)) = Panic SliceToArray"
  using acc_Root_short [of sha os] by (simp add: slice_to_hash_def)

lemma UpdateState_eq:
  "UpdateState sha encode o1 o2 o3 now b sm =
     (sm, case applyTransactions (blk_Transactions b) (copyState (sm_currentState sm)) of
        Fail e \<Rightarrow> Fail e | Panic p \<Rightarrow> Panic p | Ok _ \<Rightarrow> Panic SliceToArray)"
  by (simp add: UpdateState_def slice_to_hash_Root split: res.split)

lemma serialize_nil [simp]: "serializeAccountState a = []" "serializeContractState c = []"
  by (simp_all add: serializeAccountState_def serializeContractState_def json_account_def
      json_contract_def dropped_error_def)

lemma copyState_fields [simp]:
  "ws_Accounts (copyState st) = ws_Accounts st" "ws_Contracts (copyState st) = ws_Contracts st"
  "ws_Shards (copyState st) = ws_Shards st" "ws_Timestamp (copyState st) = ws_Timestamp st"
proof -
  have "copy_account = id" "copy_contract = id" "copy_shard = id"
    by (simp_all add: fun_eq_iff copy_account_def copy_contract_def copy_shard_def)
  then show "ws_Accounts (copyState st) = ws_Accounts st" "ws_Contracts (copyState st) = ws_Contracts st"
    "ws_Shards (copyState st) = ws_Shards st" "ws_Timestamp (copyState st) = ws_Timestamp st"
    by (simp_all add: copyState_def fmap.map_id)
qed

lemma applyTransactions_no_panic: "applyTransactions txs st \<noteq> Panic p"
  by (induction txs arbitrary: st)
    (auto simp: applyTransaction_def Let_def split: option.split res.split)

section \<open>Properties\<close>

text \<open>
  C5: applying the transactions of a block never creates money: the total of all balances only
  changes by multiples of \<open>2 ^ 64\<close> and never grows, so below \<open>2 ^ 64\<close> it is conserved exactly,
  self-transfers and new receivers included.
\<close>

theorem supply_conserved:
  assumes "applyTransactions txs st = Ok st'"
  shows "total_supply st' mod 2 ^ 64 = total_supply st mod 2 ^ 64 \<and>
    total_supply st' \<le> total_supply st \<and>
    (total_supply st < 2 ^ 64 \<longrightarrow> total_supply st' = total_supply st)"
proof -
  obtain k where "total_supply st = total_supply st' + k * 2 ^ 64"
    using applyTransactions_supply [OF assms] by blast
  moreover from this have "total_supply st mod 2 ^ 64 = total_supply st' mod 2 ^ 64"
    by (simp only: mod_mult_self1)
  ultimately show ?thesis by (cases k) simp_all
qed

definition demo_account :: "u64 \<Rightarrow> u64 \<Rightarrow> account_state" where
  "demo_account b n = new_account\<lparr>acc_Balance := b, acc_Nonce := n\<rparr>"

definition demo_world :: world_state where
  "demo_world = (empty_world 0)\<lparr>ws_Accounts := fmupd 1 (demo_account 10 0) fmempty\<rparr>"

definition demo_transfer :: "address \<Rightarrow> u64 \<Rightarrow> u64 \<Rightarrow> transaction" where
  "demo_transfer to v n = \<lparr>tx_ID = 9, tx_From = 1, tx_To = to, tx_Value = v, tx_Nonce = n,
     tx_Timestamp = 0, tx_Signature = [1]\<rparr>"

lemmas demo_state_defs = demo_account_def demo_world_def demo_transfer_def new_account_def
  empty_world_def applyTransaction_def Let_def

lemma demo_applies: "is_Ok (applyTransactions [demo_transfer 2 3 0, demo_transfer 1 4 1] demo_world)"
  by (simp add: demo_state_defs)

theorem supply_conserved_witness:
  "\<exists>st'. applyTransactions [demo_transfer 2 3 0, demo_transfer 1 4 1] demo_world = Ok st' \<and>
     total_supply st' = 10"
proof -
  obtain st' where st': "applyTransactions [demo_transfer 2 3 0, demo_transfer 1 4 1] demo_world = Ok st'"
    using demo_applies by (auto simp: is_Ok_iff)
  have "total_supply demo_world = 10"
    by (simp add: total_supply_def demo_world_def balance_of_def demo_account_def empty_world_def)
  with supply_conserved [OF st'] st' show ?thesis by simp
qed

text \<open>
  C16: nonces prevent replay: when the transactions of a block apply, the i-th one carries its
  sender's nonce advanced by the number of earlier ones of the same sender, every nonce ends
  advanced by the number sent, and no two transactions agree on sender and nonce.
\<close>

theorem nonces_prevent_replay:
  assumes "applyTransactions txs st = Ok st'" and "length txs < 2 ^ 64"
  shows "distinct (map (\<lambda>tx. (tx_From tx, tx_Nonce tx)) txs) \<and>
    (\<forall>a. nonce_of st' a = nonce_of st a + of_nat (sent_by a txs)) \<and>
    (\<forall>i < length txs. tx_Nonce (txs ! i) = nonce_of st (tx_From (txs ! i)) +
       of_nat (sent_by (tx_From (txs ! i)) (take i txs)))"
  using applyTransactions_no_replay [OF assms] applyTransactions_nonce [OF assms(1)]
    applyTransactions_nth_nonce [OF assms(1)] by blast

theorem nonces_prevent_replay_witness:
  "\<exists>st'. applyTransactions [demo_transfer 2 3 0, demo_transfer 1 4 1] demo_world = Ok st' \<and>
     nonce_of st' 1 = 2"
proof -
  obtain st' where st': "applyTransactions [demo_transfer 2 3 0, demo_transfer 1 4 1] demo_world = Ok st'"
    using demo_applies by (auto simp: is_Ok_iff)
  have "nonce_of demo_world 1 = 0" "sent_by 1 [demo_transfer 2 3 0, demo_transfer 1 4 1] = 2"
    by (simp_all add: nonce_of_def demo_world_def demo_account_def new_account_def empty_world_def
        sent_by_def demo_transfer_def)
  with nonces_prevent_replay [OF st'] st' show ?thesis by simp
qed

text \<open>
  C17: what one transaction does. It is applied exactly when the sender exists, the nonce is the
  sender's and the balance covers the value. Then the value moves from sender to receiver (nothing
  moves in a transfer to oneself), only the sender's nonce advances, and no other account,
  contract or shard changes.
\<close>

theorem applyTransaction_moves_value:
  "(is_Ok (applyTransaction tx st) \<longleftrightarrow>
      (\<exists>sender. fmlookup (ws_Accounts st) (tx_From tx) = Some sender \<and>
         tx_Nonce tx = acc_Nonce sender \<and> tx_Value tx \<le> acc_Balance sender)) \<and>
   (\<forall>st'. applyTransaction tx st = Ok st' \<longrightarrow>
      (\<forall>a. balance_of st' a = balance_of st a - (if a = tx_From tx then tx_Value tx else 0) +
         (if a = tx_To tx then tx_Value tx else 0)) \<and>
      (\<forall>a. nonce_of st' a = nonce_of st a + (if a = tx_From tx then 1 else 0)) \<and>
      (\<forall>a. a \<noteq> tx_From tx \<longrightarrow> a \<noteq> tx_To tx \<longrightarrow>
         fmlookup (ws_Accounts st') a = fmlookup (ws_Accounts st) a) \<and>
      ws_Contracts st' = ws_Contracts st \<and> ws_Shards st' = ws_Shards st)"
proof (intro conjI allI impI)
  show "is_Ok (applyTransaction tx st) \<longleftrightarrow>
      (\<exists>sender. fmlookup (ws_Accounts st) (tx_From tx) = Some sender \<and>
         tx_Nonce tx = acc_Nonce sender \<and> tx_Value tx \<le> acc_Balance sender)"
    by (auto simp: applyTransaction_def Let_def linorder_not_less split: option.split)
next
  fix st' a
  assume ok: "applyTransaction tx st = Ok st'"
  show "nonce_of st' a = nonce_of st a + (if a = tx_From tx then 1 else 0)"
    using applyTransaction_nonce [OF ok, of a] by auto
  from ok show "balance_of st' a = balance_of st a - (if a = tx_From tx then tx_Value tx else 0) +
      (if a = tx_To tx then tx_Value tx else 0)"
    by (cases rule: applyTransaction_OkE)
      (auto simp: balance_of_def new_account_def Let_def split: option.splits)
  assume "a \<noteq> tx_From tx" "a \<noteq> tx_To tx"
  with ok show "fmlookup (ws_Accounts st') a = fmlookup (ws_Accounts st) a"
    by (cases rule: applyTransaction_OkE) (simp add: Let_def)
next
  fix st'
  assume ok: "applyTransaction tx st = Ok st'"
  then show "ws_Contracts st' = ws_Contracts st" "ws_Shards st' = ws_Shards st"
    by (auto elim: applyTransaction_OkE)
qed

theorem applyTransaction_moves_value_witness:
  "is_Ok (applyTransaction (demo_transfer 2 3 0) demo_world)"
  using applyTransaction_moves_value [of "demo_transfer 2 3 0" demo_world]
  by (simp add: demo_world_def demo_transfer_def demo_account_def new_account_def empty_world_def
      word_le_nat_alt)

text \<open>
  What callers can do to a manager: update it, and write the current state through the pointer
  that \<open>GetCurrentState\<close> hands out.
\<close>

inductive sm_reachable :: "state_manager \<Rightarrow> bool" where
  new: "sm_reachable (NewStateManager now)"
| update: "sm_reachable sm \<Longrightarrow> orders_of o1 st1 \<Longrightarrow> orders_of o2 st2 \<Longrightarrow> orders_of o3 st3 \<Longrightarrow>
    UpdateState sha encode o1 o2 o3 now b sm = (sm', r) \<Longrightarrow> sm_reachable sm'"
| external: "sm_reachable sm \<Longrightarrow> sm_reachable (sm\<lparr>sm_currentState := st\<rparr>)"

lemma sm_reachable_empty: "sm_reachable sm \<Longrightarrow>
  sm_stateHistory sm = fmempty \<and> sm_stateDB sm = NewMemoryStateDB \<and> sm_stateArchive sm = NewStateArchive"
  by (induction rule: sm_reachable.induct) (simp_all add: NewStateManager_def UpdateState_eq)

text \<open>
  C25: the state never advances. \<open>UpdateState\<close> cannot succeed: it reports the first transaction that
  does not apply, and when all apply it panics, since the accumulator root has at most two bytes
  and is converted to a 32-byte array; in both cases nothing is committed. So in every reachable
  manager the history, the archive and the database are empty and \<open>GetState\<close> finds no height.
\<close>

theorem state_never_advances:
  assumes "sm_reachable sm"
  shows "fst (UpdateState sha encode o1 o2 o3 now b sm) = sm \<and>
    (snd (UpdateState sha encode o1 o2 o3 now b sm) = Panic SliceToArray \<longleftrightarrow>
       is_Ok (applyTransactions (blk_Transactions b) (copyState (sm_currentState sm)))) \<and>
    \<not> is_Ok (snd (UpdateState sha encode o1 o2 o3 now b sm)) \<and>
    GetState acc_order con_order height sm = Fail (ErrorString ''state not found'') \<and>
    (\<forall>key. db_Get key (sm_stateDB sm) = Fail (ErrorString ''key not found''))"
proof -
  from sm_reachable_empty [OF assms] show ?thesis
    by (auto simp: UpdateState_eq GetState_def db_Get_def NewMemoryStateDB_def applyTransactions_no_panic
        split: res.split)
qed

theorem state_never_advances_witness:
  "GetState (\<lambda>_. []) (\<lambda>_. []) 0 (NewStateManager 5) = Fail (ErrorString ''state not found'')"
  using state_never_advances [OF sm_reachable.new] by blast

text \<open>
  The state root does not commit to the accounts. Serialization always fails, so the bytes
  that are hashed depend only on the addresses and on the shards' IDs and roots: states that differ
  in every balance, nonce and storage have the same root and accumulator. And they depend on the
  order of the ranges: for two accounts the two possible orders hash different bytes.
\<close>

theorem state_root_misses_content:
  assumes "map fst (wo_accounts os) = map fst (wo_accounts os')"
    and "map fst (wo_contracts os) = map fst (wo_contracts os')"
    and "map (map_prod id ss_StateRoot) (wo_shards os) = map (map_prod id ss_StateRoot) (wo_shards os')"
    and "a \<noteq> b"
  shows "calculateStateRoot sha os = calculateStateRoot sha os' \<and>
    updateAccumulator sha os = updateAccumulator sha os' \<and>
    (let st = (empty_world t)\<lparr>ws_Accounts := fmap_of_list [(a, x), (b, y)]\<rparr>;
         p = \<lparr>wo_accounts = [(a, x), (b, y)], wo_contracts = [], wo_shards = []\<rparr>;
         q = \<lparr>wo_accounts = [(b, y), (a, x)], wo_contracts = [], wo_shards = []\<rparr>
     in orders_of p st \<and> orders_of q st \<and> state_root_data sha p \<noteq> state_root_data sha q)"
proof -
  have root: "state_root_data sha os = state_root_data sha os'"
  proof -
    have acc: "concat (map (\<lambda>(addr, a). be_bytes addr @ be_bytes (hashAccountState sha a)) es) =
        concat (map (\<lambda>addr. be_bytes addr @ be_bytes (ComputeHash sha [])) (map fst es))" for es
      by (simp add: hashAccountState_def comp_def case_prod_unfold)
    have con: "concat (map (\<lambda>(addr, c). be_bytes addr @ be_bytes (hashContractState sha c)) es) =
        concat (map (\<lambda>addr. be_bytes addr @ be_bytes (ComputeHash sha [])) (map fst es))" for es
      by (simp add: hashContractState_def comp_def case_prod_unfold)
    have sh: "concat (map (\<lambda>(i, s). be_bytes i @ be_bytes (ss_StateRoot s)) es) =
        concat (map (\<lambda>(i, r). be_bytes i @ be_bytes r) (map (map_prod id ss_StateRoot) es))"
      for es :: "(u32 \<times> shard_state) list"
      by (simp add: comp_def case_prod_unfold)
    show ?thesis unfolding state_root_data_def acc con sh assms(1,2,3) ..
  qed
  have "acc_elements os = acc_elements os'"
  proof -
    have "acc_elements p = map be_bytes (map fst (wo_accounts p)) @
        map be_bytes (map fst (wo_contracts p))" for p
      by (simp add: acc_elements_def comp_def case_prod_unfold)
    then show ?thesis unfolding assms(1,2) by (simp only: assms(1,2))
  qed
  with root have "calculateStateRoot sha os = calculateStateRoot sha os'"
      "updateAccumulator sha os = updateAccumulator sha os'"
    by (simp_all add: calculateStateRoot_def updateAccumulator_eq)
  moreover have "fmap_of_list [(b, y), (a, x)] = fmap_of_list [(a, x), (b, y)]"
    using assms(4) by (intro fmap_ext) auto
  ultimately show ?thesis
    using assms(4)
    by (simp add: Let_def orders_of_def range_order_def empty_world_def state_root_data_def)
qed

theorem state_root_misses_content_witness:
  "calculateStateRoot height_digest
     \<lparr>wo_accounts = [(1, demo_account 5 0)], wo_contracts = [], wo_shards = []\<rparr> =
   calculateStateRoot height_digest
     \<lparr>wo_accounts = [(1, demo_account 7 3)], wo_contracts = [], wo_shards = []\<rparr>"
  using state_root_misses_content [of
      "\<lparr>wo_accounts = [(1, demo_account 5 0)], wo_contracts = [], wo_shards = []\<rparr>"
      "\<lparr>wo_accounts = [(1, demo_account 7 3)], wo_contracts = [], wo_shards = []\<rparr>" 1 2]
  by simp

lemma key_prefixes:
  "account_key a = account_key a' \<longleftrightarrow> a = a'" "contract_key a = contract_key a' \<longleftrightarrow> a = a'"
  "account_key a \<noteq> contract_key c" "string_bytes ''stateRoot'' \<noteq> account_key a"
  "string_bytes ''stateRoot'' \<noteq> contract_key c"
proof -
  have "hd (account_key a) = of_char CHR ''a''" "hd (contract_key c) = of_char CHR ''c''"
      "hd (string_bytes ''stateRoot'') = of_char CHR ''s''" for a c
    by (simp_all add: account_key_def contract_key_def string_bytes_def)
  moreover have "(of_char CHR ''a'' :: byte) \<noteq> of_char CHR ''c''"
      "(of_char CHR ''a'' :: byte) \<noteq> of_char CHR ''s''"
      "(of_char CHR ''c'' :: byte) \<noteq> of_char CHR ''s''"
    by (simp_all add: of_char_def)
  ultimately show "account_key a \<noteq> contract_key c" "string_bytes ''stateRoot'' \<noteq> account_key a"
      "string_bytes ''stateRoot'' \<noteq> contract_key c" by metis+
qed (simp_all add: account_key_def contract_key_def)

text \<open>
  \<open>saveState\<close> on any database: the state root is stored in full, but every account and
  contract is stored as an empty value, and all other keys keep what they had. The order of the
  ranges does not matter.
\<close>

theorem saveState_stores:
  assumes "orders_of os st"
  shows "db_Get (string_bytes ''stateRoot'') (saveState os st db) = Ok (be_bytes (ws_StateRoot st)) \<and>
    (\<forall>a. db_Has (account_key a) (saveState os st db) \<longleftrightarrow>
       a \<in> fmdom' (ws_Accounts st) \<or> db_Has (account_key a) db) \<and>
    (\<forall>a \<in> fmdom' (ws_Accounts st). db_Get (account_key a) (saveState os st db) = Ok []) \<and>
    (\<forall>c \<in> fmdom' (ws_Contracts st). db_Get (contract_key c) (saveState os st db) = Ok []) \<and>
    (\<forall>k. k \<noteq> string_bytes ''stateRoot'' \<longrightarrow> k \<notin> account_key ` fmdom' (ws_Accounts st) \<longrightarrow>
       k \<notin> contract_key ` fmdom' (ws_Contracts st) \<longrightarrow>
       db_Get k (saveState os st db) = db_Get k db)"
proof -
  let ?kvs = "save_entries os (ws_StateRoot st)"
  from assms have o: "range_order (wo_accounts os) (ws_Accounts st)"
      "range_order (wo_contracts os) (ws_Contracts st)"
    by (simp_all add: orders_of_def)
  have keys: "map fst ?kvs = string_bytes ''stateRoot'' # map account_key (map fst (wo_accounts os)) @
      map contract_key (map fst (wo_contracts os))"
    by (simp add: save_entries_def comp_def case_prod_unfold)
  have "distinct (map fst (wo_accounts os))" "distinct (map fst (wo_contracts os))"
    using o by (simp_all add: range_order_def)
  then have dist: "distinct (map fst ?kvs)"
    unfolding keys by (auto simp: distinct_map inj_on_def key_prefixes)
  have acc: "(account_key a, []) \<in> set ?kvs" if "a \<in> fmdom' (ws_Accounts st)" for a
    using that range_order_keys [OF o(1)] by (force simp: save_entries_def)
  have con: "(contract_key c, []) \<in> set ?kvs" if "c \<in> fmdom' (ws_Contracts st)" for c
    using that range_order_keys [OF o(2)] by (force simp: save_entries_def)
  have root: "(string_bytes ''stateRoot'', be_bytes (ws_StateRoot st)) \<in> set ?kvs"
    by (simp add: save_entries_def)
  have fsts: "fst ` set ?kvs = insert (string_bytes ''stateRoot'')
      (account_key ` fmdom' (ws_Accounts st) \<union> contract_key ` fmdom' (ws_Contracts st))"
    unfolding range_order_keys [OF o(1), symmetric] range_order_keys [OF o(2), symmetric]
    using arg_cong [OF keys, of set] by (simp add: image_image)
  have load: "db_load (saveState os st db) k = Some v" if "(k, v) \<in> set ?kvs" for k v
    unfolding saveState_def using dist that by (rule db.load_fold_mem)
  have other: "db_load (saveState os st db) k = db_load db k" if "k \<notin> fst ` set ?kvs" for k
    unfolding saveState_def using that by (rule db.load_fold_other)
  have has: "db_Has (account_key a) (saveState os st db) \<longleftrightarrow>
      a \<in> fmdom' (ws_Accounts st) \<or> db_Has (account_key a) db" for a
  proof (cases "a \<in> fmdom' (ws_Accounts st)")
    case True
    with load [OF acc] show ?thesis by (simp add: db_Has_load)
  next
    case False
    then have "account_key a \<notin> fst ` set ?kvs"
      unfolding fsts by (auto simp: key_prefixes key_prefixes(4) [symmetric])
    with False other show ?thesis by (simp add: db_Has_load)
  qed
  show ?thesis
    using load [OF root] load [OF acc] load [OF con] other has
    by (simp add: db_Get_load fsts)
qed

theorem saveState_stores_witness:
  "db_Get (string_bytes ''stateRoot'')
     (saveState \<lparr>wo_accounts = [], wo_contracts = [], wo_shards = []\<rparr> (empty_world 0)
       NewMemoryStateDB) = Ok (be_bytes (0 :: hash))"
  using saveState_stores [of "\<lparr>wo_accounts = [], wo_contracts = [], wo_shards = []\<rparr>" "empty_world 0"
      NewMemoryStateDB]
  by (simp add: orders_of_def empty_world_def)

end
