(* ===== verification/Consensus_Byzantine.thy ===== *)
theory Consensus_Byzantine
  imports Core_Types Go_Float
begin

text \<open>
  \<open>consensus/byzantine.go\<close>: attack detection, reputation scores, the blacklist, the adaptive
  consensus threshold and the separate \<open>ReputationManager\<close>. Floats are those of \<open>Go_Float\<close>
  (no fused multiply-add); the clock readings within one call are one argument \<open>now\<close>.
\<close>

section \<open>Data\<close>

record node_behavior =
  nb_ValidBlocks :: i64
  nb_InvalidBlocks :: i64
  nb_ValidTransactions :: i64
  nb_InvalidTransactions :: i64
  nb_ConsensusParticipation :: f64
  nb_DoubleVotes :: i64
  nb_NetworkLatency :: int

record attack =
  at_Type :: string
  at_Severity :: f64
  at_Timestamp :: go_time
  at_Description :: string

record detection_rule =
  dr_Name :: string
  dr_Condition :: "node_behavior \<Rightarrow> bool"
  dr_Severity :: f64

record attack_pattern =
  ap_Name :: string
  ap_Indicators :: "string list"
  ap_Severity :: f64
  ap_Frequency :: i64
  ap_LastSeen :: go_time

record attack_detector =
  ad_patterns :: "(string, attack_pattern) fmap"
  ad_detectionRules :: "detection_rule list"
  ad_alertThresholds :: "(string, f64) fmap"

record reputation_event =
  re_EventType :: string
  re_Impact :: f64
  re_Timestamp :: go_time
  re_Description :: string

record node_reputation =
  nr_Address :: address
  nr_Score :: f64
  nr_HistoricalData :: "reputation_event list"
  nr_LastUpdated :: go_time
  nr_ViolationCount :: i64

record reputation_system =
  rs_scores :: "(address, node_reputation) fmap"
  rs_historyWindow :: int
  rs_decayFactor :: f64

type_synonym defense_strategy = unit \<comment> \<open>the struct has no field\<close>

record byz_defender =
  bd_reputationSystem :: reputation_system
  bd_attackDetector :: attack_detector
  bd_defenseStrategy :: defense_strategy
  bd_nodeScores :: "(address, f64) fmap"
  bd_blacklist :: "(address, go_time) fmap"
  bd_suspiciousNodes :: "(address, i64) fmap"

definition hour :: int where
  "hour = 3600 * 1000000000"

definition NewReputationSystem :: reputation_system where
  "NewReputationSystem =
     \<lparr>rs_scores = fmempty, rs_historyWindow = 24 * hour, rs_decayFactor = f64_round (95 / 100)\<rparr>"

definition NewAttackDetector :: attack_detector where
  "NewAttackDetector =
     \<lparr>ad_patterns = fmempty, ad_detectionRules = [], ad_alertThresholds = fmempty\<rparr>"

definition NewDefenseStrategy :: defense_strategy where
  "NewDefenseStrategy = ()"

definition NewByzantineDefender :: byz_defender where
  "NewByzantineDefender =
     \<lparr>bd_reputationSystem = NewReputationSystem, bd_attackDetector = NewAttackDetector,
      bd_defenseStrategy = NewDefenseStrategy, bd_nodeScores = fmempty, bd_blacklist = fmempty,
      bd_suspiciousNodes = fmempty\<rparr>"

section \<open>Detection and reputation\<close>

definition float64 :: "i64 \<Rightarrow> f64" where
  "float64 n = f64_of_int (sint n)"

definition DetectAttacks :: "go_time \<Rightarrow> node_behavior \<Rightarrow> attack list" where
  "DetectAttacks now behavior =
     (if sint (nb_DoubleVotes behavior) > 0
      then [\<lparr>at_Type = ''double_vote'', at_Severity = float64 (nb_DoubleVotes behavior),
             at_Timestamp = now, at_Description = ''Multiple votes detected''\<rparr>] else []) @
     (if sint (nb_InvalidBlocks behavior) > sint (nb_ValidBlocks behavior)
      then [\<lparr>at_Type = ''invalid_blocks'',
             at_Severity = f64_div (float64 (nb_InvalidBlocks behavior)) (float64 (nb_ValidBlocks behavior + 1)),
             at_Timestamp = now, at_Description = ''High ratio of invalid blocks''\<rparr>] else [])"

definition delta_gain :: "node_behavior \<Rightarrow> f64" where
  "delta_gain behavior =
     (let delta = Fin 0;
          delta = (if sint (nb_ValidBlocks behavior) > 0
            then f64_add delta (f64_mul (float64 (nb_ValidBlocks behavior)) (f64_round (1 / 10))) else delta);
          delta = (if sint (nb_ValidTransactions behavior) > 0
            then f64_add delta (f64_mul (float64 (nb_ValidTransactions behavior)) (f64_round (1 / 100))) else delta)
      in if f64_less (Fin 0) (nb_ConsensusParticipation behavior)
         then f64_add delta (f64_mul (nb_ConsensusParticipation behavior) (f64_round (2 / 10))) else delta)"

definition delta_attacks :: "attack list \<Rightarrow> f64 \<Rightarrow> f64" where
  "delta_attacks attacks delta =
     fold (\<lambda>attack delta. f64_sub delta (f64_mul (at_Severity attack) (f64_round (5 / 10)))) attacks delta"

definition calculateReputationDelta :: "node_behavior \<Rightarrow> attack list \<Rightarrow> f64" where
  "calculateReputationDelta behavior attacks =
     (let delta = delta_attacks attacks (delta_gain behavior);
          delta = (if sint (nb_InvalidBlocks behavior) > 0
            then f64_sub delta (f64_mul (float64 (nb_InvalidBlocks behavior)) (f64_round (3 / 10))) else delta)
      in if sint (nb_DoubleVotes behavior) > 0
         then f64_sub delta (f64_mul (float64 (nb_DoubleVotes behavior)) (Fin 1)) else delta)"

text \<open>\<open>GetReputation\<close> inserts a neutral entry where there is none.\<close>

definition GetReputation :: "go_time \<Rightarrow> address \<Rightarrow> reputation_system \<Rightarrow> node_reputation \<times> reputation_system" where
  "GetReputation now addr rs =
     (case fmlookup (rs_scores rs) addr of
        Some rep \<Rightarrow> (rep, rs)
      | None \<Rightarrow>
          let rep = \<lparr>nr_Address = addr, nr_Score = Fin 50, nr_HistoricalData = [],
                     nr_LastUpdated = now, nr_ViolationCount = 0\<rparr>
          in (rep, rs\<lparr>rs_scores := fmupd addr rep (rs_scores rs)\<rparr>))"

definition clamp_score :: "f64 \<Rightarrow> f64" where
  "clamp_score x = f64_max (Fin 0) (f64_min (Fin 100) x)"

definition updateNodeReputation :: "go_time \<Rightarrow> address \<Rightarrow> f64 \<Rightarrow> byz_defender \<Rightarrow> byz_defender" where
  "updateNodeReputation now nodeAddr delta bd =
     (let (rep, rs) = GetReputation now nodeAddr (bd_reputationSystem bd);
          newScore = clamp_score (f64_add (nr_Score rep) delta);
          event = \<lparr>re_EventType = ''score_update'', re_Impact = delta, re_Timestamp = now,
                   re_Description = ''Reputation score updated''\<rparr>;
          rep' = rep\<lparr>nr_Score := newScore, nr_LastUpdated := now,
                     nr_HistoricalData := nr_HistoricalData rep @ [event]\<rparr>
      in bd\<lparr>bd_reputationSystem := rs\<lparr>rs_scores := fmupd nodeAddr rep' (rs_scores rs)\<rparr>,
            bd_nodeScores := fmupd nodeAddr newScore (bd_nodeScores bd)\<rparr>)"

section \<open>Defensive measures\<close>

definition suspicion :: "address \<Rightarrow> byz_defender \<Rightarrow> i64" where
  "suspicion addr bd = (case fmlookup (bd_suspiciousNodes bd) addr of None \<Rightarrow> 0 | Some n \<Rightarrow> n)"

definition suspect :: "address \<Rightarrow> byz_defender \<Rightarrow> byz_defender" where
  "suspect addr bd = bd\<lparr>bd_suspiciousNodes := fmupd addr (suspicion addr bd + 1) (bd_suspiciousNodes bd)\<rparr>"

definition ban :: "go_time \<Rightarrow> address \<Rightarrow> byz_defender \<Rightarrow> byz_defender" where
  "ban now addr bd = bd\<lparr>bd_blacklist := fmupd addr now (bd_blacklist bd)\<rparr>"

definition broadcastAlert :: "string \<Rightarrow> address \<Rightarrow> byz_defender \<Rightarrow> byz_defender" where
  "broadcastAlert attackType nodeAddr bd = bd"

definition findSimilarNodes :: "address \<Rightarrow> byz_defender \<Rightarrow> address list" where
  "findSimilarNodes nodeAddr bd = []"

definition handleDoubleSpend :: "go_time \<Rightarrow> address \<Rightarrow> byz_defender \<Rightarrow> byz_defender" where
  "handleDoubleSpend now nodeAddr bd =
     (let bd = suspect nodeAddr bd;
          bd = (if sint (suspicion nodeAddr bd) > 3 then ban now nodeAddr bd else bd)
      in broadcastAlert ''double_spend'' nodeAddr bd)"

definition handleSybilAttack :: "go_time \<Rightarrow> address \<Rightarrow> byz_defender \<Rightarrow> byz_defender" where
  "handleSybilAttack now nodeAddr bd =
     (let similarNodes = findSimilarNodes nodeAddr bd in
      if 5 < length similarNodes then fold (ban now) similarNodes bd else bd)"

definition handleEclipseAttack :: "address \<Rightarrow> byz_defender \<Rightarrow> byz_defender" where
  "handleEclipseAttack nodeAddr bd = broadcastAlert ''eclipse_attack'' nodeAddr bd"

definition handleLongRangeAttack :: "address \<Rightarrow> byz_defender \<Rightarrow> byz_defender" where
  "handleLongRangeAttack nodeAddr bd = broadcastAlert ''long_range_attack'' nodeAddr bd"

definition handleGenericAttack :: "go_time \<Rightarrow> address \<Rightarrow> attack \<Rightarrow> byz_defender \<Rightarrow> byz_defender" where
  "handleGenericAttack now nodeAddr attack bd =
     (let bd = suspect nodeAddr bd in
      if f64_less (f64_round (8 / 10)) (at_Severity attack) then ban now nodeAddr bd else bd)"

definition handle_attack :: "go_time \<Rightarrow> address \<Rightarrow> attack \<Rightarrow> byz_defender \<Rightarrow> byz_defender" where
  "handle_attack now nodeAddr attack bd =
     (if at_Type attack = ''double_spend'' then handleDoubleSpend now nodeAddr bd
      else if at_Type attack = ''sybil_attack'' then handleSybilAttack now nodeAddr bd
      else if at_Type attack = ''eclipse_attack'' then handleEclipseAttack nodeAddr bd
      else if at_Type attack = ''long_range_attack'' then handleLongRangeAttack nodeAddr bd
      else handleGenericAttack now nodeAddr attack bd)"

definition applyDefensiveMeasures :: "go_time \<Rightarrow> address \<Rightarrow> attack list \<Rightarrow> byz_defender \<Rightarrow> byz_defender" where
  "applyDefensiveMeasures now nodeAddr attacks bd = fold (handle_attack now nodeAddr) attacks bd"

text \<open>\<open>nil\<close> in place of a behaviour is dereferenced by \<open>DetectAttacks\<close>, after the blacklist.\<close>

definition blacklisted :: "go_time \<Rightarrow> address \<Rightarrow> byz_defender \<Rightarrow> bool" where
  "blacklisted now addr bd =
     (case fmlookup (bd_blacklist bd) addr of None \<Rightarrow> False | Some t \<Rightarrow> now - t < 24 * hour)"

definition ValidateNode ::
  "go_time \<Rightarrow> address \<Rightarrow> node_behavior option \<Rightarrow> byz_defender \<Rightarrow> byz_defender \<times> unit res" where
  "ValidateNode now nodeAddr behavior bd =
     (if blacklisted now nodeAddr bd then (bd, Fail (ErrorString ''node is blacklisted''))
      else
        let bd = bd\<lparr>bd_blacklist := fmdrop nodeAddr (bd_blacklist bd)\<rparr> in
        case behavior of
          None \<Rightarrow> (bd, Panic NilDereference)
        | Some b \<Rightarrow>
            let attacks = DetectAttacks now b;
                bd = updateNodeReputation now nodeAddr (calculateReputationDelta b attacks) bd
            in (if attacks \<noteq> [] then applyDefensiveMeasures now nodeAddr attacks bd else bd, Ok ()))"

section \<open>The consensus threshold\<close>

text \<open>\<open>es\<close> is the order in which the scores are summed.\<close>

definition calculateNetworkHealth :: "(address \<times> f64) list \<Rightarrow> byz_defender \<Rightarrow> f64" where
  "calculateNetworkHealth es bd =
     (let totalScore = fold (\<lambda>(_, score) total. f64_add total score) es (Fin 0);
          nodeCount = length es
      in if nodeCount = 0 then Fin 1
         else f64_div totalScore (f64_mul (f64_of_int (int nodeCount)) (Fin 100)))"

definition GetConsensusThreshold :: "(address \<times> f64) list \<Rightarrow> byz_defender \<Rightarrow> f64" where
  "GetConsensusThreshold es bd =
     (let healthScore = calculateNetworkHealth es bd;
          baseThreshold = f64_round (67 / 100)
      in if f64_less healthScore (Fin (1 / 2))
         then f64_min (f64_round (9 / 10)) (f64_add baseThreshold (f64_round (1 / 10)))
         else if f64_less (f64_round (8 / 10)) healthScore
         then f64_max (f64_round (6 / 10)) (f64_sub baseThreshold (f64_round (5 / 100)))
         else baseThreshold)"

section \<open>The reputation manager\<close>

record reputation_manager =
  rm_reputations :: "(address, f64) fmap"

definition NewReputationManager :: reputation_manager where
  "NewReputationManager = \<lparr>rm_reputations = fmempty\<rparr>"

definition UpdateReputation :: "address \<Rightarrow> bool \<Rightarrow> reputation_manager \<Rightarrow> reputation_manager" where
  "UpdateReputation addr isValid rm =
     (let current = (case fmlookup (rm_reputations rm) addr of None \<Rightarrow> Fin 50 | Some c \<Rightarrow> c);
          current = (if isValid then f64_min (Fin 100) (f64_add current (Fin 1))
                     else f64_max (Fin 0) (f64_sub current (Fin 5)))
      in rm\<lparr>rm_reputations := fmupd addr current (rm_reputations rm)\<rparr>)"

section \<open>Lemmas on scores\<close>

definition score_ok :: "f64 \<Rightarrow> bool" where
  "score_ok x = (case x of Fin r \<Rightarrow> 0 \<le> r \<and> r \<le> 100 | _ \<Rightarrow> False)"

lemma score_okE: "score_ok x \<Longrightarrow> (\<And>r. x = Fin r \<Longrightarrow> 0 \<le> r \<Longrightarrow> r \<le> 100 \<Longrightarrow> P) \<Longrightarrow> P"
  by (auto simp: score_ok_def split: f64.splits)

lemma clamp_score_ok: "x \<noteq> NaN \<Longrightarrow> score_ok (clamp_score x)"
  by (cases x) (simp_all add: clamp_score_def f64_max_def f64_min_def score_ok_def)

lemma clamp_score_NaN [simp]: "clamp_score NaN = NaN"
  by (simp add: clamp_score_def f64_max_def f64_min_def)

lemma score_ok_bounded: "score_ok x \<Longrightarrow> bounded 7 x"
  by (auto simp: bounded_Fin pow2_def elim!: score_okE)

lemma sint_i64_abs: "\<bar>sint (n :: i64)\<bar> \<le> 2 ^ 63"
  using sint_greater_eq [of n] sint_less [of n] by (simp add: abs_le_iff)

lemma bounded_float64: "bounded 63 (float64 n)"
proof -
  have "of_int \<bar>sint n\<bar> \<le> (of_int (2 ^ 63) :: rat)"
    unfolding of_int_le_iff by (rule sint_i64_abs)
  then show ?thesis
    unfolding float64_def f64_of_int_def by (intro bounded_round) (simp_all add: pow2_def)
qed

lemma float64_ge1: "n \<noteq> 0 \<Longrightarrow> \<exists>s. float64 n = Fin s \<and> 1 \<le> \<bar>s\<bar>"
proof -
  assume "n \<noteq> 0"
  then have i: "1 \<le> sint n \<or> sint n \<le> - 1" using signed_eq_0_iff [of n, where ?'a = int] by simp linarith
  from bounded_float64 [of n] obtain s where s: "float64 n = Fin s" by (rule boundedE)
  then have "s = rnd (of_int (sint n))"
    by (auto simp: float64_def f64_of_int_def f64_round_def Let_def split: if_splits)
  moreover have "dyadic53 1" "dyadic53 (- 1)" using dyadic53_int [of 1] dyadic53_int [of "- 1"] by simp_all
  ultimately have "1 \<le> s \<or> s \<le> - 1"
    using i rnd_bound_ge [of 1 "of_int (sint n)"] rnd_bound [of "- 1" "of_int (sint n)"]
    by (metis of_int_1 of_int_le_iff of_int_minus)
  with s show ?thesis by auto
qed

lemma bounded_const: "0 \<le> r \<Longrightarrow> r \<le> 1 \<Longrightarrow> bounded 0 (f64_round r)"
  by (rule bounded_round) (simp_all add: pow2_def)

lemma bounded_zero: "0 \<le> k \<Longrightarrow> bounded k (Fin 0)"
  by (simp add: bounded_Fin less_imp_le)

lemma severity_bounded:
  "nb_ValidBlocks b \<noteq> - 1 \<Longrightarrow> attack \<in> set (DetectAttacks now b) \<Longrightarrow> bounded 63 (at_Severity attack)"
proof -
  assume vb: "nb_ValidBlocks b \<noteq> - 1" and at: "attack \<in> set (DetectAttacks now b)"
  from vb have "nb_ValidBlocks b + 1 \<noteq> 0" by (metis add_eq_0_iff2)
  then obtain s where "float64 (nb_ValidBlocks b + 1) = Fin s" "1 \<le> \<bar>s\<bar>"
    using float64_ge1 by blast
  with at show ?thesis
    by (auto simp: DetectAttacks_def bounded_float64 intro!: bounded_div split: if_splits)
qed

lemma delta_gain_not_NaN: "delta_gain b \<noteq> NaN"
proof -
  have t: "bounded 63 (f64_mul (float64 n) (f64_round r))" if "0 \<le> r" "r \<le> 1" for r n
    using bounded_mul [OF bounded_float64 bounded_const [OF that], of n] by simp
  define d where "d = (if sint (nb_ValidBlocks b) > 0
     then f64_add (Fin 0) (f64_mul (float64 (nb_ValidBlocks b)) (f64_round (1 / 10))) else Fin 0)"
  have d: "bounded 64 d"
    unfolding d_def using bounded_add [OF bounded_zero t [of "1 / 10"]] by (auto intro: bounded_zero simp del: f64_add.simps)
  define e where "e = (if sint (nb_ValidTransactions b) > 0
     then f64_add d (f64_mul (float64 (nb_ValidTransactions b)) (f64_round (1 / 100))) else d)"
  have "bounded 65 e"
    unfolding e_def using bounded_add [OF d bounded_mono [OF t [of "1 / 100"]]] bounded_mono [OF d]
    by (auto simp del: f64_add.simps)
  then have e: "\<And>y. y \<noteq> NaN \<Longrightarrow> f64_add e y \<noteq> NaN" "e \<noteq> NaN"
    using f64_add_not_NaN(2) [of 65 e] by (blast, auto simp: bounded_def)
  have "f64_mul c (f64_round (2 / 10)) \<noteq> NaN" if "f64_less (Fin 0) c" for c
    unfolding f64_constants using that by (cases c) (simp_all add: f64_inf_def)
  with e show ?thesis
    unfolding delta_gain_def Let_def d_def [symmetric] e_def [symmetric] by (simp del: f64_mul.simps)
qed

lemma delta_attacks_not_NaN:
  "\<forall>attack \<in> set attacks. bounded 63 (at_Severity attack) \<Longrightarrow> delta \<noteq> NaN \<Longrightarrow>
     delta_attacks attacks delta \<noteq> NaN"
  unfolding delta_attacks_def
proof (induction attacks arbitrary: delta)
  case (Cons attack attacks)
  have "bounded (63 + 0) (f64_mul (at_Severity attack) (f64_round (5 / 10)))"
    using Cons.prems by (intro bounded_mul bounded_const) simp_all
  then have "f64_sub delta (f64_mul (at_Severity attack) (f64_round (5 / 10))) \<noteq> NaN"
    using Cons.prems by (intro f64_sub_not_NaN)
  with Cons show ?case by simp
qed simp

lemma reputation_delta_not_NaN:
  assumes "nb_ValidBlocks b \<noteq> - 1"
  shows "calculateReputationDelta b (DetectAttacks now b) \<noteq> NaN"
proof -
  have t: "f64_sub d (f64_mul (float64 n) c) \<noteq> NaN" if "bounded 0 c" "d \<noteq> NaN" for d n c
    using bounded_mul [OF bounded_float64 that(1), of n] that(2) by (simp add: f64_sub_not_NaN)
  have "delta_attacks (DetectAttacks now b) (delta_gain b) \<noteq> NaN"
    using delta_attacks_not_NaN severity_bounded [OF assms] delta_gain_not_NaN by blast
  then show ?thesis
    by (simp add: calculateReputationDelta_def Let_def t bounded_const bounded_Fin pow2_def)
qed

section \<open>Scores along a run\<close>

definition node_score :: "byz_defender \<Rightarrow> address \<Rightarrow> f64 option" where
  "node_score bd a = map_option nr_Score (fmlookup (rs_scores (bd_reputationSystem bd)) a)"

text \<open>The two tables of scores agree, and every score is a number from 0 to 100.\<close>

definition byz_ok :: "byz_defender \<Rightarrow> bool" where
  "byz_ok bd \<longleftrightarrow> (\<forall>a. fmlookup (bd_nodeScores bd) a = node_score bd a \<and>
     (\<forall>x. node_score bd a = Some x \<longrightarrow> score_ok x))"

text \<open>What a call changes apart from the blacklist and the suspicions.\<close>

definition same_scores :: "byz_defender \<Rightarrow> byz_defender \<Rightarrow> bool" where
  "same_scores bd bd' \<longleftrightarrow> bd_nodeScores bd' = bd_nodeScores bd \<and>
     bd_reputationSystem bd' = bd_reputationSystem bd"

lemma same_scores_refl [simp]: "same_scores bd bd"
  by (simp add: same_scores_def)

lemma handle_attack_scores [simp]: "same_scores bd (handle_attack now a attack bd)"
  by (simp add: handle_attack_def handleDoubleSpend_def handleSybilAttack_def findSimilarNodes_def
      handleEclipseAttack_def handleLongRangeAttack_def handleGenericAttack_def broadcastAlert_def
      suspect_def ban_def same_scores_def Let_def)

lemma applyDefensiveMeasures_scores [simp]: "same_scores bd (applyDefensiveMeasures now a attacks bd)"
  unfolding applyDefensiveMeasures_def
  by (induction attacks arbitrary: bd)
    (simp_all, metis handle_attack_scores same_scores_def)

lemma byz_ok_same: "same_scores bd bd' \<Longrightarrow> byz_ok bd' = byz_ok bd"
  "same_scores bd bd' \<Longrightarrow> node_score bd' = node_score bd"
  by (simp_all add: byz_ok_def node_score_def same_scores_def fun_eq_iff)

lemma updateNodeReputation_score:
  "node_score (updateNodeReputation now a delta bd) =
     (node_score bd)(a \<mapsto> clamp_score (f64_add (case node_score bd a of None \<Rightarrow> Fin 50 | Some x \<Rightarrow> x) delta))"
  by (auto simp: node_score_def updateNodeReputation_def GetReputation_def Let_def fun_eq_iff
      split: option.splits prod.splits)

lemma updateNodeReputation_table:
  "fmlookup (bd_nodeScores (updateNodeReputation now a delta bd)) =
     (fmlookup (bd_nodeScores bd))(a := node_score (updateNodeReputation now a delta bd) a)"
  by (auto simp: node_score_def updateNodeReputation_def GetReputation_def Let_def fun_eq_iff
      split: option.splits prod.splits)

lemma updateNodeReputation_ok:
  assumes "byz_ok bd" and "delta \<noteq> NaN"
  shows "byz_ok (updateNodeReputation now a delta bd)"
proof -
  let ?old = "case node_score bd a of None \<Rightarrow> Fin 50 | Some x \<Rightarrow> x"
  have "score_ok ?old"
    using assms(1) by (auto simp: byz_ok_def score_ok_def split: option.splits)
  then have "f64_add ?old delta \<noteq> NaN"
    using assms(2) by (intro f64_add_not_NaN(2)) (rule score_ok_bounded)
  then have "score_ok (clamp_score (f64_add ?old delta))" by (rule clamp_score_ok)
  then show ?thesis
    using assms(1) unfolding byz_ok_def updateNodeReputation_table by (simp add: updateNodeReputation_score)
qed

text \<open>One call, by its scores: a refused call and a nil behaviour leave them, any other moves one.\<close>

definition delta_of :: "go_time \<Rightarrow> node_behavior \<Rightarrow> f64" where
  "delta_of now b = calculateReputationDelta b (DetectAttacks now b)"

lemma ValidateNode_scores:
  "same_scores (if blacklisted now a bd \<or> b = None then bd
      else updateNodeReputation now a (delta_of now (the b)) bd) (fst (ValidateNode now a b bd))"
proof (cases "blacklisted now a bd")
  case False
  define bd0 where "bd0 = bd\<lparr>bd_blacklist := fmdrop a (bd_blacklist bd)\<rparr>"
  show ?thesis
  proof (cases b)
    case (Some c)
    let ?u = "updateNodeReputation now a (delta_of now c)"
    have "same_scores (?u bd) (?u bd0)"
      by (auto simp: same_scores_def updateNodeReputation_def GetReputation_def Let_def bd0_def
          split: option.splits prod.splits)
    moreover have "same_scores (?u bd0) (fst (ValidateNode now a b bd))"
      using False Some by (simp add: ValidateNode_def Let_def delta_of_def bd0_def)
    ultimately show ?thesis using False Some by (simp add: same_scores_def)
  qed (use False in \<open>simp add: ValidateNode_def same_scores_def Let_def\<close>)
qed (simp add: ValidateNode_def)

lemma ValidateNode_ok:
  assumes "byz_ok bd" and "\<And>c. b = Some c \<Longrightarrow> nb_ValidBlocks c \<noteq> - 1"
  shows "byz_ok (fst (ValidateNode now a b bd))"
proof -
  have "byz_ok (if blacklisted now a bd \<or> b = None then bd
      else updateNodeReputation now a (delta_of now (the b)) bd)"
    using assms by (auto intro!: updateNodeReputation_ok simp: delta_of_def reputation_delta_not_NaN)
  then show ?thesis using byz_ok_same(1) [OF ValidateNode_scores] by blast
qed

fun validations :: "(go_time \<times> address \<times> node_behavior option) list \<Rightarrow> byz_defender \<Rightarrow> byz_defender" where
  "validations [] bd = bd"
| "validations ((now, a, b) # calls) bd = validations calls (fst (ValidateNode now a b bd))"

text \<open>
  C27: whatever calls of \<open>ValidateNode\<close> a fresh defender has served, refused ones and nil behaviours
  included, its two score tables agree and every score is a number from 0 to 100, as long as no
  behaviour reports \<open>ValidBlocks = -1\<close>.
\<close>

theorem scores_stay_in_range:
  assumes "\<forall>(now, a, b) \<in> set calls. \<forall>c. b = Some c \<longrightarrow> nb_ValidBlocks c \<noteq> - 1"
  shows "byz_ok (validations calls NewByzantineDefender)"
proof -
  have "byz_ok bd \<Longrightarrow> byz_ok (validations calls bd)" for bd
    using assms
  proof (induction calls arbitrary: bd)
    case (Cons call calls)
    then show ?case by (cases call) (auto intro!: ValidateNode_ok Cons.IH)
  qed simp
  moreover have "byz_ok NewByzantineDefender"
    by (simp add: byz_ok_def node_score_def NewByzantineDefender_def NewReputationSystem_def)
  ultimately show ?thesis .
qed

definition demo_behavior :: node_behavior where
  "demo_behavior = \<lparr>nb_ValidBlocks = 3, nb_InvalidBlocks = 1, nb_ValidTransactions = 0,
     nb_InvalidTransactions = 0, nb_ConsensusParticipation = PInf, nb_DoubleVotes = 2,
     nb_NetworkLatency = 0\<rparr>"

theorem scores_stay_in_range_witness:
  "byz_ok (validations [(0, 7, Some demo_behavior), (5, 7, None)] NewByzantineDefender)"
  by (rule scores_stay_in_range) (simp add: demo_behavior_def)

text \<open>
  \<open>ValidBlocks = -1\<close> with no invalid block divides zero by zero: the node's score becomes NaN,
  and a score that is NaN stays so through every later call, whatever the behaviour.
\<close>

theorem nan_score_sticks:
  "(\<not> blacklisted now a bd \<longrightarrow> nb_ValidBlocks b = - 1 \<longrightarrow> nb_InvalidBlocks b = 0 \<longrightarrow>
     node_score (fst (ValidateNode now a (Some b) bd)) a = Some NaN) \<and>
   (node_score bd a = Some NaN \<longrightarrow> node_score (validations calls bd) a = Some NaN)"
proof (intro conjI impI)
  assume "\<not> blacklisted now a bd" and v: "nb_ValidBlocks b = - 1" and i: "nb_InvalidBlocks b = 0"
  have "float64 0 = Fin 0" using f64_of_int_exact [of 0] by (simp add: float64_def)
  then have "NaN \<in> at_Severity ` set (DetectAttacks now b)"
    by (simp add: DetectAttacks_def v i f64_inf_def)
  then have "\<exists>att. att \<in> set (DetectAttacks now b) \<and> at_Severity att = NaN" by force
  moreover have "delta_attacks atts d = NaN" if "\<exists>att. att \<in> set atts \<and> at_Severity att = NaN" for atts d
  proof -
    have stick: "f64_sub NaN y = NaN" for y by (simp add: f64_sub_def)
    have nan: "fold (\<lambda>att d. f64_sub d (f64_mul (at_Severity att) c)) xs NaN = NaN"
      for xs :: "attack list" and c by (induction xs) (simp_all add: stick)
    have add: "f64_sub e NaN = NaN" for e by (cases e) (simp_all add: f64_sub_def)
    from that show ?thesis
      unfolding delta_attacks_def by (induction atts arbitrary: d) (auto simp: nan add)
  qed
  ultimately have "delta_attacks (DetectAttacks now b) (delta_gain b) = NaN" by blast
  then have "delta_of now b = NaN"
    by (simp add: delta_of_def calculateReputationDelta_def i Let_def f64_sub_def)
  moreover have "f64_add x NaN = NaN" for x by (cases x) simp_all
  ultimately show "node_score (fst (ValidateNode now a (Some b) bd)) a = Some NaN"
    using \<open>\<not> blacklisted now a bd\<close> byz_ok_same(2) [OF ValidateNode_scores, of now a "Some b" bd]
    by (simp add: updateNodeReputation_score)
next
  have "node_score (fst (ValidateNode t x c bd)) a = Some NaN" if "node_score bd a = Some NaN" for t x c bd
    using that byz_ok_same(2) [OF ValidateNode_scores, of t x c bd]
    by (cases "x = a") (simp_all add: updateNodeReputation_score)
  then show "node_score (validations calls bd) a = Some NaN" if "node_score bd a = Some NaN"
    using that by (induction calls bd rule: validations.induct) simp_all
qed

theorem nan_score_sticks_witness:
  "node_score (validations [(9, 7, Some demo_behavior)]
     (fst (ValidateNode 0 7 (Some (demo_behavior\<lparr>nb_ValidBlocks := - 1, nb_InvalidBlocks := 0\<rparr>))
        NewByzantineDefender))) 7 = Some NaN"
  using nan_score_sticks [of 0 7 NewByzantineDefender "demo_behavior\<lparr>nb_ValidBlocks := - 1, nb_InvalidBlocks := 0\<rparr>"]
    nan_score_sticks [of _ 7 "fst (ValidateNode 0 7 (Some (demo_behavior\<lparr>nb_ValidBlocks := - 1, nb_InvalidBlocks := 0\<rparr>))
        NewByzantineDefender)" _ "[(9, 7, Some demo_behavior)]"]
  by (simp add: blacklisted_def NewByzantineDefender_def)

section \<open>The blacklist\<close>

lemma generic_blacklist:
  assumes "at_Type att \<in> {''double_vote'', ''invalid_blocks''}"
  shows "bd_blacklist (handle_attack now a att bd) =
    (if f64_less (f64_round (8 / 10)) (at_Severity att) then fmupd a now (bd_blacklist bd) else bd_blacklist bd)"
  using assms by (auto simp: handle_attack_def handleGenericAttack_def suspect_def ban_def Let_def)

lemma generic_blacklist_fold:
  assumes "\<forall>att \<in> set atts. at_Type att \<in> {''double_vote'', ''invalid_blocks''}"
  shows "bd_blacklist (applyDefensiveMeasures now a atts bd) =
    (if \<exists>att \<in> set atts. f64_less (f64_round (8 / 10)) (at_Severity att)
     then fmupd a now (bd_blacklist bd) else bd_blacklist bd)"
  using assms unfolding applyDefensiveMeasures_def
proof (induction atts arbitrary: bd)
  case (Cons att atts)
  then show ?case by (simp add: generic_blacklist)
qed simp

lemma DetectAttacks_types: "att \<in> set (DetectAttacks now b) \<Longrightarrow> at_Type att \<in> {''double_vote'', ''invalid_blocks''}"
  by (auto simp: DetectAttacks_def split: if_splits)

lemma ValidateNode_blacklist:
  assumes "\<not> blacklisted now a bd"
  shows "bd_blacklist (fst (ValidateNode now a (Some b) bd)) =
    (if \<exists>att \<in> set (DetectAttacks now b). f64_less (f64_round (8 / 10)) (at_Severity att)
     then fmupd a now (bd_blacklist bd) else fmdrop a (bd_blacklist bd))"
proof -
  have u: "bd_blacklist (updateNodeReputation now a d bd) = bd_blacklist bd" for d bd
    by (simp add: updateNodeReputation_def Let_def split: prod.splits)
  have "fmupd a now (fmdrop a m) = fmupd a now m" for m :: "(address, go_time) fmap"
    by (rule fmap_ext) simp
  with assms DetectAttacks_types [of _ now b] show ?thesis
    by (simp add: ValidateNode_def Let_def generic_blacklist_fold u)
qed

lemma large_severity: "1 \<le> r \<Longrightarrow> f64_less (f64_round (8 / 10)) (f64_round r)"
proof -
  assume "1 \<le> r"
  moreover have "dyadic53 1" using dyadic53_int [of 1] by simp
  ultimately have "1 \<le> rnd r" by (simp add: rnd_bound_ge)
  then show ?thesis unfolding f64_constants by (auto simp: f64_round_def Let_def)
qed

lemma one_le_of_int: "1 \<le> n \<Longrightarrow> 1 \<le> (of_int n :: rat)"
  by simp

lemma float64_Fin: "float64 n = Fin (rnd (of_int (sint n)))"
  using bounded_float64 [of n]
  by (auto simp: float64_def f64_of_int_def f64_round_def Let_def bounded_def split: if_splits)

lemma invalid_severity:
  assumes "0 \<le> sint (nb_ValidBlocks b)" and "sint (nb_ValidBlocks b) < sint (nb_InvalidBlocks b)"
  shows "f64_less (f64_round (8 / 10))
    (f64_div (float64 (nb_InvalidBlocks b)) (float64 (nb_ValidBlocks b + 1)))"
proof -
  let ?v = "nb_ValidBlocks b" and ?i = "nb_InvalidBlocks b"
  have "sint ?v + 1 < 2 ^ 63" using assms sint_less [of ?i] by simp
  then have v: "sint (?v + 1) = sint ?v + 1"
    using assms by (subst sint_word_ariths) (simp add: signed_take_bit_int_eq_self)
  have "dyadic53 1" using dyadic53_int [of 1] by simp
  then have one: "1 \<le> rnd (of_int (sint (?v + 1)))"
    using assms(1) by (intro rnd_bound_ge one_le_of_int) (simp_all add: v)
  have "rnd (of_int (sint (?v + 1))) \<le> rnd (of_int (sint ?i))"
    using assms by (intro rnd_mono' of_int_le_iff [THEN iffD2]) (simp add: v)
  with one have "1 \<le> rnd (of_int (sint ?i)) / rnd (of_int (sint (?v + 1)))"
    by (simp add: pos_le_divide_eq)
  then have "f64_less (f64_round (8 / 10))
      (f64_round (rnd (of_int (sint ?i)) / rnd (of_int (sint (?v + 1)))))" by (rule large_severity)
  moreover have "rnd (of_int (sint (?v + 1))) \<noteq> 0" using one by linarith
  ultimately show ?thesis unfolding float64_Fin f64_div.simps by simp
qed

lemma attack_severe:
  assumes "0 \<le> sint (nb_ValidBlocks b)"
  shows "(\<exists>att \<in> set (DetectAttacks now b). f64_less (f64_round (8 / 10)) (at_Severity att)) \<longleftrightarrow>
    0 < sint (nb_DoubleVotes b) \<or> sint (nb_ValidBlocks b) < sint (nb_InvalidBlocks b)"
proof -
  have "f64_less (f64_round (8 / 10)) (float64 n)" if "0 < sint n" for n
    unfolding float64_def f64_of_int_def using that by (intro large_severity one_le_of_int) simp
  with invalid_severity [OF assms] show ?thesis
    by (auto simp: DetectAttacks_def)
qed

text \<open>
  C35: an accepted validation of a node with \<open>ValidBlocks \<ge> 0\<close> bans it exactly when it voted twice or
  reports more invalid than valid blocks; the ban holds for the 24 hours that follow, in which every
  validation of the node is refused and changes nothing, then it is over. No other node's standing
  changes.
\<close>

theorem ban_for_a_day:
  assumes "\<not> blacklisted now a bd" and "0 \<le> sint (nb_ValidBlocks b)"
  defines "bd' \<equiv> fst (ValidateNode now a (Some b) bd)"
    and "guilty \<equiv> 0 < sint (nb_DoubleVotes b) \<or> sint (nb_ValidBlocks b) < sint (nb_InvalidBlocks b)"
  shows "snd (ValidateNode now a (Some b) bd) = Ok () \<and>
    (\<forall>later. blacklisted later a bd' \<longleftrightarrow> guilty \<and> later - now < 24 * hour) \<and>
    (\<forall>later c. ValidateNode later a c bd' = (bd', Fail (ErrorString ''node is blacklisted'')) \<longleftrightarrow>
       guilty \<and> later - now < 24 * hour) \<and>
    (\<forall>later other. other \<noteq> a \<longrightarrow> blacklisted later other bd' = blacklisted later other bd)"
proof -
  have bl: "bd_blacklist bd' = (if guilty then fmupd a now (bd_blacklist bd) else fmdrop a (bd_blacklist bd))"
    unfolding bd'_def guilty_def using ValidateNode_blacklist [OF assms(1)] attack_severe [OF assms(2)] by simp
  then have self: "blacklisted later a bd' \<longleftrightarrow> guilty \<and> later - now < 24 * hour" for later
    by (simp add: blacklisted_def)
  have "ValidateNode later a c bd' = (bd', Fail (ErrorString ''node is blacklisted'')) \<longleftrightarrow>
      blacklisted later a bd'" for later c
    by (simp add: ValidateNode_def Let_def split: option.splits)
  moreover have "snd (ValidateNode now a (Some b) bd) = Ok ()"
    using assms(1) by (simp add: ValidateNode_def Let_def)
  moreover have "blacklisted later other bd' = blacklisted later other bd" if "other \<noteq> a" for later other
    using that bl by (simp add: blacklisted_def)
  ultimately show ?thesis using self by simp
qed

theorem ban_for_a_day_witness:
  "blacklisted (23 * hour) 7 (fst (ValidateNode 0 7 (Some demo_behavior) NewByzantineDefender)) \<and>
   \<not> blacklisted (24 * hour) 7 (fst (ValidateNode 0 7 (Some demo_behavior) NewByzantineDefender))"
  using ban_for_a_day [of 0 7 NewByzantineDefender demo_behavior]
  by (simp add: blacklisted_def NewByzantineDefender_def demo_behavior_def hour_def)

section \<open>The threshold\<close>

lemma threshold_constants:
  "f64_round (67 / 100) = Fin (6034823500676465 / 9007199254740992)"
  "f64_round (1 / 10) = Fin (3602879701896397 / 36028797018963968)"
  "f64_round (5 / 100) = Fin (3602879701896397 / 72057594037927936)"
  "f64_round (6 / 10) = Fin (5404319552844595 / 9007199254740992)"
  using f64_roundI [of "- 1" "67 / 100" 6034823500676465]
    f64_roundI [of "- 4" "1 / 10" 7205759403792794]
    f64_roundI [of "- 5" "5 / 100" 7205759403792794]
    f64_roundI [of "- 1" "6 / 10" 5404319552844595]
  by (simp_all add: pow2_def)

lemma threshold_sums:
  "f64_add (f64_round (67 / 100)) (f64_round (1 / 10)) = Fin (1733885856537641 / 2251799813685248)"
  "f64_sub (f64_round (67 / 100)) (f64_round (5 / 100)) = Fin (5584463537939415 / 9007199254740992)"
  unfolding threshold_constants f64_sub_def
  using f64_roundI [of "- 1" "6034823500676465 / 9007199254740992 + 3602879701896397 / 36028797018963968" 6935543426150564]
    f64_roundI [of "- 1" "6034823500676465 / 9007199254740992 - 3602879701896397 / 72057594037927936" 5584463537939415]
  by (simp_all add: pow2_def)

text \<open>The three values of the threshold.\<close>

definition strict_threshold :: rat where
  "strict_threshold = 1733885856537641 / 2251799813685248"

definition base_threshold :: rat where
  "base_threshold = 6034823500676465 / 9007199254740992"

definition relaxed_threshold :: rat where
  "relaxed_threshold = 5584463537939415 / 9007199254740992"

lemma threshold_cases:
  "GetConsensusThreshold es bd = Fin
     (if f64_less (calculateNetworkHealth es bd) (Fin (1 / 2)) then strict_threshold
      else if f64_less (f64_round (8 / 10)) (calculateNetworkHealth es bd) then relaxed_threshold
      else base_threshold)"
proof -
  have "f64_min (f64_round (9 / 10)) (f64_add (f64_round (67 / 100)) (f64_round (1 / 10))) = Fin strict_threshold"
    unfolding threshold_sums f64_constants by (simp add: f64_min_def strict_threshold_def)
  moreover have "f64_max (f64_round (6 / 10)) (f64_sub (f64_round (67 / 100)) (f64_round (5 / 100))) =
      Fin relaxed_threshold"
    unfolding threshold_sums threshold_constants(4) by (simp add: f64_max_def relaxed_threshold_def)
  moreover have "f64_round (67 / 100) = Fin base_threshold"
    by (simp only: threshold_constants base_threshold_def)
  ultimately show ?thesis
    unfolding GetConsensusThreshold_def Let_def by simp
qed

lemma rnd_add_int:
  assumes "of_int m \<le> x" and "x \<le> of_int n" and "\<bar>m\<bar> \<le> 2 ^ 53" and "\<bar>n\<bar> \<le> 2 ^ 53"
  shows "f64_round x = Fin (rnd x) \<and> of_int m \<le> rnd x \<and> rnd x \<le> of_int n"
proof -
  have b: "of_int m \<le> rnd x" "rnd x \<le> of_int n"
    using assms by (blast intro: rnd_bound rnd_bound_ge dyadic53_int)+
  have "(2 :: int) ^ 53 < 2 ^ 1024" by simp
  then have "n < 2 ^ 1024" "- (2 ^ 1024) < m" using assms(3,4) by linarith+
  then have "of_int n < (of_int (2 ^ 1024) :: rat)" "of_int (- (2 ^ 1024)) < (of_int m :: rat)"
    unfolding of_int_less_iff by simp_all
  with b have "rnd x < 2 ^ 1024" "- (2 ^ 1024) < rnd x" by simp_all
  then have "\<bar>rnd x\<bar> < 2 ^ 1024" by (simp only: abs_less_iff minus_less_iff)
  with b show ?thesis by (simp add: f64_round_Fin)
qed

text \<open>Sums of scores between two integers stay between the multiples of these, rounding included.\<close>

lemma sum_scores:
  assumes "\<forall>(a, x) \<in> set es. \<exists>r. x = Fin r \<and> of_int lo \<le> r \<and> r \<le> of_int hi"
    and "0 \<le> lo" and "lo \<le> hi" and "hi \<le> 100" and "length es < 2 ^ 40"
  shows "\<exists>s. fold (\<lambda>(_, score) total. f64_add total score) es (Fin 0) = Fin s \<and>
    of_int (lo * int (length es)) \<le> s \<and> s \<le> of_int (hi * int (length es))"
  using assms
proof (induction es rule: rev_induct)
  case (snoc e es)
  then obtain s where s: "fold (\<lambda>(_, score) total. f64_add total score) es (Fin 0) = Fin s"
      "of_int (lo * int (length es)) \<le> s" "s \<le> of_int (hi * int (length es))" by auto
  from snoc.prems(1) obtain r where r: "snd e = Fin r" "of_int lo \<le> r" "r \<le> of_int hi"
    by (cases e) auto
  let ?n = "int (length (es @ [e]))"
  have len: "?n = int (length es) + 1" by simp
  have sum: "of_int (lo * ?n) \<le> s + r" "s + r \<le> of_int (hi * ?n)"
    using s(2,3) r(2,3) unfolding len by (simp_all add: distrib_left)
  have "hi * ?n \<le> 100 * 2 ^ 40" "lo * ?n \<le> 100 * 2 ^ 40"
    using snoc.prems by (intro mult_mono; simp)+
  then have "\<bar>lo * ?n\<bar> \<le> 2 ^ 53" "\<bar>hi * ?n\<bar> \<le> 2 ^ 53" using snoc.prems(2,3) by simp_all
  with rnd_add_int [OF sum] s(1) r(1) show ?case by (cases e) auto
qed simp

text \<open>The health is the float quotient of that sum, for a sum in range.\<close>

lemma health_of_sum:
  assumes "fold (\<lambda>(_, score) total. f64_add total score) es (Fin 0) = Fin s"
    and "0 \<le> s" and "s \<le> of_int (100 * int (length es))" and "es \<noteq> []" and "length es < 2 ^ 40"
  shows "calculateNetworkHealth es bd = Fin (rnd (s / (of_int (int (length es)) * 100)))"
proof -
  let ?n = "int (length es)"
  have n: "0 < ?n" "?n * 100 < 2 ^ 53" using assms(4,5) by simp_all
  have "f64_of_int ?n = Fin (of_int ?n)" using n by (intro f64_of_int_exact) simp_all
  moreover have "f64_round (of_int (?n * 100)) = Fin (of_int (?n * 100))"
    using n by (intro f64_of_int_rep) simp
  ultimately have count: "f64_mul (f64_of_int ?n) (Fin 100) = Fin (of_int ?n * 100)" by simp
  have pos: "0 < (of_int ?n * 100 :: rat)" using n(1) by simp
  have "of_int 0 \<le> s / (of_int ?n * 100)" "s / (of_int ?n * 100) \<le> of_int 1"
    using assms(2,3) pos by (simp_all add: pos_divide_le_eq [OF pos] mult.commute)
  then have "f64_round (s / (of_int ?n * 100)) = Fin (rnd (s / (of_int ?n * 100)))"
    using rnd_add_int [of 0 _ 1] by simp
  moreover have "calculateNetworkHealth es bd = f64_round (s / (of_int ?n * 100))"
    unfolding calculateNetworkHealth_def Let_def assms(1) count using assms(4) pos by simp
  ultimately show ?thesis by simp
qed

lemma health_between:
  assumes "\<forall>(a, x) \<in> set es. \<exists>r. x = Fin r \<and> of_int lo \<le> r \<and> r \<le> of_int hi"
    and "0 \<le> lo" and "lo \<le> hi" and "hi \<le> 100" and "es \<noteq> []" and "length es < 2 ^ 40"
  shows "\<exists>q. calculateNetworkHealth es bd = Fin (rnd q) \<and> of_int lo / 100 \<le> q \<and> q \<le> of_int hi / 100"
proof -
  let ?n = "int (length es)"
  from sum_scores [OF assms(1-4,6)] obtain s where
    s: "fold (\<lambda>(_, score) total. f64_add total score) es (Fin 0) = Fin s"
      "of_int (lo * ?n) \<le> s" "s \<le> of_int (hi * ?n)" by blast
  have "0 \<le> lo * ?n" "hi * ?n \<le> 100 * ?n" using assms(2,4) by (auto intro: mult_right_mono)
  then have "0 \<le> s" "s \<le> of_int (100 * ?n)"
    using s(2,3) by (metis of_int_0_le_iff order_trans, metis of_int_le_iff order_trans)
  then have "calculateNetworkHealth es bd = Fin (rnd (s / (of_int ?n * 100)))"
    using s(1) assms(5,6) by (intro health_of_sum)
  moreover have pos: "0 < (of_int ?n * 100 :: rat)" using assms(5) by simp
  have "of_int lo / 100 * (of_int ?n * 100) \<le> s" "s \<le> of_int hi / 100 * (of_int ?n * 100)"
    using s(2,3) by simp_all
  then have "of_int lo / 100 \<le> s / (of_int ?n * 100)" "s / (of_int ?n * 100) \<le> of_int hi / 100"
    unfolding pos_le_divide_eq [OF pos] pos_divide_le_eq [OF pos] by blast+
  ultimately show ?thesis by blast
qed

text \<open>
  The float sum against the exact one. Below \<open>2 ^ 47\<close> the doubles are at most \<open>1 / 64\<close> apart, so every
  addition is off by at most that much; sums of integers are exact.
\<close>

lemma rnd_close:
  assumes "0 \<le> x" and "x \<le> 2 ^ 47 - 1"
  shows "\<bar>rnd x - x\<bar> \<le> 1 / 64"
proof -
  have dy: "dyadic53 (of_int m / 64)" if "\<bar>m\<bar> \<le> 2 ^ 53" for m
    using that unfolding dyadic53_def by (intro exI [of _ m] exI [of _ "- 6"]) (simp add: pow2_def)
  have "0 \<le> \<lfloor>x * 64\<rfloor>" using assms(1) by simp
  moreover have "\<lfloor>x * 64\<rfloor> \<le> \<lfloor>(2 ^ 47 - 1) * 64 :: rat\<rfloor>"
    using assms(2) by (intro floor_mono) simp
  ultimately have m: "\<bar>\<lfloor>x * 64\<rfloor>\<bar> \<le> 2 ^ 53" "\<bar>\<lfloor>x * 64\<rfloor> + 1\<bar> \<le> 2 ^ 53" by simp_all
  have f: "of_int \<lfloor>x * 64\<rfloor> \<le> x * 64" "x * 64 \<le> of_int (\<lfloor>x * 64\<rfloor> + 1)" by linarith+
  have "of_int \<lfloor>x * 64\<rfloor> / 64 \<le> rnd x" using f(1) by (intro rnd_bound_ge [OF dy [OF m(1)]]) simp
  moreover have "rnd x \<le> of_int (\<lfloor>x * 64\<rfloor> + 1) / 64" using f(2) by (intro rnd_bound [OF dy [OF m(2)]]) simp
  moreover have "\<bar>y - x\<bar> \<le> 1 / 64" if "b / 64 \<le> y" "y \<le> (b + 1) / 64" "b \<le> x * 64" "x * 64 \<le> b + 1"
    for b y :: rat
  proof -
    from that have "y - x \<le> 1 / 64" "x - y \<le> 1 / 64" by (simp_all add: field_simps)
    then show ?thesis by (simp only: abs_le_iff minus_diff_eq)
  qed
  ultimately show ?thesis using f by simp
qed

lemma sum_scores_close:
  assumes "\<forall>(a, x) \<in> set es. x = Fin (r a) \<and> 0 \<le> r a \<and> r a \<le> 100" and "length es < 2 ^ 40"
  shows "\<exists>s. fold (\<lambda>(_, score) total. f64_add total score) es (Fin 0) = Fin s \<and> 0 \<le> s \<and>
    s \<le> of_int (100 * int (length es)) \<and>
    \<bar>s - (\<Sum>(a, _) \<leftarrow> es. r a)\<bar> \<le> of_nat (length es) / 64 \<and>
    ((\<forall>(a, _) \<in> set es. r a \<in> \<int>) \<longrightarrow> s = (\<Sum>(a, _) \<leftarrow> es. r a))"
  using assms
proof (induction es rule: rev_induct)
  case (snoc e es)
  then obtain s where s: "fold (\<lambda>(_, score) total. f64_add total score) es (Fin 0) = Fin s" "0 \<le> s"
      "s \<le> of_int (100 * int (length es))" "\<bar>s - (\<Sum>(a, _) \<leftarrow> es. r a)\<bar> \<le> of_nat (length es) / 64"
      "(\<forall>(a, _) \<in> set es. r a \<in> \<int>) \<longrightarrow> s = (\<Sum>(a, _) \<leftarrow> es. r a)" by auto
  obtain a where e: "e = (a, Fin (r a))" "0 \<le> r a" "r a \<le> 100"
    using snoc.prems(1) by (cases e) auto
  let ?n = "int (length (es @ [e]))"
  have sum: "of_int 0 \<le> s + r a" "s + r a \<le> of_int (100 * ?n)" using s(2,3) e(2,3) by simp_all
  have "100 * ?n \<le> 100 * 2 ^ 40" using snoc.prems(2) by simp
  then have "\<bar>100 * ?n\<bar> \<le> 2 ^ 53" "(of_int (100 * ?n) :: rat) \<le> of_int (100 * 2 ^ 40)"
    unfolding of_int_le_iff by simp_all
  moreover have "(of_int (100 * 2 ^ 40) :: rat) \<le> 2 ^ 47 - 1" by simp
  ultimately have "f64_round (s + r a) = Fin (rnd (s + r a))" "0 \<le> rnd (s + r a)"
      "rnd (s + r a) \<le> of_int (100 * ?n)" "\<bar>rnd (s + r a) - (s + r a)\<bar> \<le> 1 / 64"
    using rnd_add_int [OF sum] rnd_close [of "s + r a"] sum by auto
  moreover have "rnd (s + r a) = s + r a" if "s \<in> \<int>" "r a \<in> \<int>"
  proof -
    from that obtain m where m: "s + r a = of_int m" by (metis Ints_add Ints_cases)
    with sum have "0 \<le> m" "m \<le> 100 * ?n" by (metis of_int_le_iff)+
    then have "\<bar>m\<bar> \<le> 2 ^ 53" using \<open>\<bar>100 * ?n\<bar> \<le> 2 ^ 53\<close> by simp
    then show ?thesis unfolding m by (rule rnd_dyadic53 [OF dyadic53_int])
  qed
  moreover have "(\<Sum>(a, _) \<leftarrow> es. r a) \<in> \<int>" if "\<forall>(a, _) \<in> set es. r a \<in> \<int>"
    using that by (induction es) auto
  moreover have "\<bar>rnd (s + r a) - (\<Sum>(a, _) \<leftarrow> es @ [e]. r a)\<bar> \<le> of_nat (length (es @ [e])) / 64"
    if "\<bar>rnd (s + r a) - (s + r a)\<bar> \<le> 1 / 64"
  proof -
    have "(\<Sum>(a, _) \<leftarrow> es @ [e]. r a) = (\<Sum>(a, _) \<leftarrow> es. r a) + r a"
        "(of_nat (length (es @ [e])) :: rat) = of_nat (length es) + 1" by (simp_all add: e(1))
    with that s(4) show ?thesis by linarith
  qed
  ultimately show ?case
    using s e by auto
qed simp

text \<open>The exact mean of the scores that the defender holds.\<close>

definition mean_score :: "(address \<Rightarrow> rat) \<Rightarrow> byz_defender \<Rightarrow> rat" where
  "mean_score r bd =
     (\<Sum>a \<in> fmdom' (bd_nodeScores bd). r a) / of_nat (card (fmdom' (bd_nodeScores bd)))"

definition scores_are :: "(address \<Rightarrow> rat) \<Rightarrow> byz_defender \<Rightarrow> bool" where
  "scores_are r bd \<longleftrightarrow> bd_nodeScores bd \<noteq> fmempty \<and>
     (\<forall>a x. fmlookup (bd_nodeScores bd) a = Some x \<longrightarrow> x = Fin (r a) \<and> 0 \<le> r a \<and> r a \<le> 100)"

lemma mean_score_list:
  assumes "range_order es (bd_nodeScores bd)"
  shows "mean_score r bd = (\<Sum>(a, _) \<leftarrow> es. r a) / of_nat (length es)"
proof -
  have d: "distinct (map fst es)" "set (map fst es) = fmdom' (bd_nodeScores bd)"
    using assms range_order_keys [OF assms] by (simp_all add: range_order_def)
  have "(\<Sum>(a, _) \<leftarrow> es. r a) = (\<Sum>a \<leftarrow> map fst es. r a)" by (simp add: o_def case_prod_unfold)
  also have "\<dots> = (\<Sum>a \<in> fmdom' (bd_nodeScores bd). r a)"
    using sum_list_distinct_conv_sum_set [OF d(1), of r] unfolding d(2) .
  finally show ?thesis
    using distinct_card [OF d(1)] unfolding d(2) mean_score_def by simp
qed

lemma health_by_mean:
  assumes "range_order es (bd_nodeScores bd)" and "length es < 2 ^ 40" and "scores_are r bd"
  shows "\<exists>q. calculateNetworkHealth es bd = Fin (rnd q) \<and> \<bar>q - mean_score r bd / 100\<bar> \<le> 1 / 6400 \<and>
    ((\<forall>a \<in> fmdom' (bd_nodeScores bd). r a \<in> \<int>) \<longrightarrow> q = mean_score r bd / 100 \<and>
      (mean_score r bd < 50 \<longrightarrow> q \<le> 1 / 2 - 1 / 2 ^ 47) \<and> (80 < mean_score r bd \<longrightarrow> 8 / 10 + 1 / 2 ^ 47 \<le> q))"
proof -
  let ?S = "\<Sum>(a, _) \<leftarrow> es. r a" and ?n = "of_nat (length es) :: rat"
  have ne: "es \<noteq> []" using assms(1,3) by (auto simp: range_order_def scores_are_def)
  have es: "\<forall>(a, x) \<in> set es. x = Fin (r a) \<and> 0 \<le> r a \<and> r a \<le> 100"
    using assms(3) by (auto simp: range_order_lookup [OF assms(1)] scores_are_def)
  from sum_scores_close [OF this assms(2)] obtain s where
    s: "fold (\<lambda>(_, score) total. f64_add total score) es (Fin 0) = Fin s" "0 \<le> s"
      "s \<le> of_int (100 * int (length es))" "\<bar>s - ?S\<bar> \<le> ?n / 64"
      "(\<forall>(a, _) \<in> set es. r a \<in> \<int>) \<longrightarrow> s = ?S" by blast
  define q where "q = s / (?n * 100)"
  have health: "calculateNetworkHealth es bd = Fin (rnd q)"
    using health_of_sum [OF s(1-3) ne assms(2)] by (simp add: q_def)
  have n: "0 < ?n" "?n * 100 < 2 ^ 47"
  proof -
    show "0 < ?n" using ne by simp
    have "length es * 100 \<le> 2 ^ 40 * 100" using assms(2) by simp
    then have "(of_nat (length es * 100) :: rat) \<le> of_nat (2 ^ 40 * 100)" by (simp only: of_nat_le_iff)
    then show "?n * 100 < 2 ^ 47" by simp
  qed
  have mean: "mean_score r bd / 100 = ?S / (?n * 100)" by (simp add: mean_score_list [OF assms(1)])
  have "q - mean_score r bd / 100 = (s - ?S) / (?n * 100)"
    unfolding mean q_def by (simp add: diff_divide_distrib)
  then have "\<bar>q - mean_score r bd / 100\<bar> = \<bar>s - ?S\<bar> / (?n * 100)" using n(1) by (simp add: abs_divide abs_mult)
  also have "\<dots> \<le> (?n / 64) / (?n * 100)" using s(4) n(1) by (intro divide_right_mono) simp_all
  also have "\<dots> = 1 / 6400" using n(1) by simp
  finally have close: "\<bar>q - mean_score r bd / 100\<bar> \<le> 1 / 6400" .
  have step: "1 / 2 ^ 47 \<le> 1 / (?n * 100)" using n by (intro divide_left_mono) simp_all
  have "q = mean_score r bd / 100 \<and>
      (mean_score r bd < 50 \<longrightarrow> q \<le> 1 / 2 - 1 / 2 ^ 47) \<and> (80 < mean_score r bd \<longrightarrow> 8 / 10 + 1 / 2 ^ 47 \<le> q)"
    if ints: "\<forall>a \<in> fmdom' (bd_nodeScores bd). r a \<in> \<int>"
  proof (intro conjI impI)
    have all: "\<forall>(a, _) \<in> set es. r a \<in> \<int>" using ints range_order_keys [OF assms(1)] by force
    with s(5) have q: "q = ?S / (?n * 100)" by (simp add: q_def)
    then show "q = mean_score r bd / 100" by (simp only: mean)
    have "?S \<in> \<int>" using all by (induction es) auto
    then obtain m where m: "?S = of_int m" by (rule Ints_cases)
    have z: "?n = of_int (int (length es))" by simp
    show "q \<le> 1 / 2 - 1 / 2 ^ 47" if "mean_score r bd < 50"
    proof -
      have "?S < of_int (50 * int (length es))"
        using that n(1) unfolding mean_score_list [OF assms(1)] pos_divide_less_eq [OF n(1)] by simp
      then have "m \<le> 50 * int (length es) - 1" unfolding m of_int_less_iff by simp
      then have "?S \<le> of_int (50 * int (length es) - 1)" unfolding m of_int_le_iff .
      then have "q \<le> (50 * ?n - 1) / (?n * 100)" unfolding q using n(1) by (intro divide_right_mono) simp_all
      also have "\<dots> = 1 / 2 - 1 / (?n * 100)" using n(1) by (simp add: diff_divide_distrib)
      finally show ?thesis using step by linarith
    qed
    show "8 / 10 + 1 / 2 ^ 47 \<le> q" if "80 < mean_score r bd"
    proof -
      have "of_int (80 * int (length es)) < ?S"
        using that n(1) unfolding mean_score_list [OF assms(1)] pos_less_divide_eq [OF n(1)] by simp
      then have "80 * int (length es) + 1 \<le> m" unfolding m of_int_less_iff by simp
      then have "of_int (80 * int (length es) + 1) \<le> ?S" unfolding m of_int_le_iff .
      then have "(80 * ?n + 1) / (?n * 100) \<le> q" unfolding q using n(1) by (intro divide_right_mono) simp_all
      moreover have "(80 * ?n + 1) / (?n * 100) = 8 / 10 + 1 / (?n * 100)"
        using n(1) by (simp add: add_divide_distrib)
      ultimately show ?thesis using step by linarith
    qed
  qed
  with health close show ?thesis by blast
qed

text \<open>The value \<open>threshold_cases\<close> picks, from bounds on the exact quotient.\<close>

lemma threshold_of_quotient:
  assumes "calculateNetworkHealth es bd = Fin (rnd q)"
  shows "q \<le> 1 / 2 - 1 / 2 ^ 47 \<Longrightarrow> GetConsensusThreshold es bd = Fin strict_threshold"
    and "1 / 2 \<le> q \<Longrightarrow> q \<le> 8 / 10 \<Longrightarrow> GetConsensusThreshold es bd = Fin base_threshold"
    and "8 / 10 + 1 / 2 ^ 47 \<le> q \<Longrightarrow> GetConsensusThreshold es bd = Fin relaxed_threshold"
proof -
  have d: "dyadic53 (of_int m * pow2 k)" if "\<bar>m\<bar> \<le> 2 ^ 53" "- 1074 \<le> k" for m k
    using that unfolding dyadic53_def by blast
  have dy: "dyadic53 (1 / 2)" "dyadic53 (1 / 2 - 1 / 2 ^ 47)" "dyadic53 (3602879701896398 / 4503599627370496)"
    using d [of 1 "- 1"] d [of "2 ^ 46 - 1" "- 47"] d [of 3602879701896398 "- 52"] by (simp_all add: pow2_def)
  have c8: "rnd (8 / 10) = 3602879701896397 / 4503599627370496"
    using rnd_range [of "8 / 10" 1] f64_constants(2) by simp
  show "GetConsensusThreshold es bd = Fin strict_threshold" if "q \<le> 1 / 2 - 1 / 2 ^ 47"
    using rnd_bound [OF dy(2) that] unfolding threshold_cases assms by simp
  show "GetConsensusThreshold es bd = Fin base_threshold" if "1 / 2 \<le> q" "q \<le> 8 / 10"
    using rnd_bound_ge [OF dy(1) that(1)] rnd_mono' [OF that(2)]
    unfolding threshold_cases assms f64_constants c8 by simp
  show "GetConsensusThreshold es bd = Fin relaxed_threshold" if "8 / 10 + 1 / 2 ^ 47 \<le> q"
  proof -
    have "3602879701896398 / 4503599627370496 \<le> q" using that by simp
    from rnd_bound_ge [OF dy(3) this] show ?thesis unfolding threshold_cases assms f64_constants by simp
  qed
qed

text \<open>
  C36: The threshold is always one of three values, and the relaxed one is below two thirds. A network
  without data gets the relaxed one. Otherwise the mean of the scores picks the value, for scores
  from 0 to 100 of fewer than \<open>2 ^ 40\<close> nodes, in whatever order they are summed: exactly the strict one
  for a mean below 50, the base one from 50 to 80 and the relaxed one above 80 when the scores are
  whole numbers; for arbitrary scores, whose float sum is rounded, the same with half a point of
  margin at 50 and at 80. Scores that all lie in one of the bands 0..49, 50..80 and 81..100 need no
  margin.
\<close>

theorem threshold_by_health:
  assumes "range_order es (bd_nodeScores bd)" and "length es < 2 ^ 40"
  shows "GetConsensusThreshold es bd \<in> Fin ` {strict_threshold, base_threshold, relaxed_threshold} \<and>
    relaxed_threshold < 2 / 3 \<and> 2 / 3 < base_threshold \<and> base_threshold < strict_threshold \<and>
    (bd_nodeScores bd = fmempty \<longrightarrow> GetConsensusThreshold es bd = Fin relaxed_threshold) \<and>
    (\<forall>r. scores_are r bd \<longrightarrow>
        ((\<forall>a \<in> fmdom' (bd_nodeScores bd). r a \<in> \<int>) \<longrightarrow> GetConsensusThreshold es bd = Fin
          (if mean_score r bd < 50 then strict_threshold
           else if mean_score r bd \<le> 80 then base_threshold else relaxed_threshold)) \<and>
        (mean_score r bd \<le> 99 / 2 \<longrightarrow> GetConsensusThreshold es bd = Fin strict_threshold) \<and>
        (101 / 2 \<le> mean_score r bd \<longrightarrow> mean_score r bd \<le> 159 / 2 \<longrightarrow>
          GetConsensusThreshold es bd = Fin base_threshold) \<and>
        (161 / 2 \<le> mean_score r bd \<longrightarrow> GetConsensusThreshold es bd = Fin relaxed_threshold)) \<and>
    (\<forall>lo hi. (\<forall>a x. fmlookup (bd_nodeScores bd) a = Some x \<longrightarrow>
          (\<exists>r. x = Fin r \<and> of_int lo \<le> r \<and> r \<le> of_int hi)) \<longrightarrow>
        bd_nodeScores bd \<noteq> fmempty \<longrightarrow> 0 \<le> lo \<longrightarrow> lo \<le> hi \<longrightarrow> hi \<le> 100 \<longrightarrow>
        (hi \<le> 49 \<longrightarrow> GetConsensusThreshold es bd = Fin strict_threshold) \<and>
        (50 \<le> lo \<longrightarrow> hi \<le> 80 \<longrightarrow> GetConsensusThreshold es bd = Fin base_threshold) \<and>
        (81 \<le> lo \<longrightarrow> GetConsensusThreshold es bd = Fin relaxed_threshold))"
proof (intro conjI allI impI)
  show "GetConsensusThreshold es bd \<in> Fin ` {strict_threshold, base_threshold, relaxed_threshold}"
    by (simp add: threshold_cases)
  show "relaxed_threshold < 2 / 3" "2 / 3 < base_threshold" "base_threshold < strict_threshold"
    by (simp_all add: relaxed_threshold_def base_threshold_def strict_threshold_def)
  have less: "f64_less (f64_round (8 / 10)) (Fin 1)" unfolding f64_constants by simp
  show "GetConsensusThreshold es bd = Fin relaxed_threshold" if "bd_nodeScores bd = fmempty"
    using assms(1) that less unfolding threshold_cases calculateNetworkHealth_def by (simp add: Let_def)
next
  fix r
  assume sc: "scores_are r bd"
  let ?m = "mean_score r bd"
  from health_by_mean [OF assms sc] obtain q where q: "calculateNetworkHealth es bd = Fin (rnd q)"
    and close: "\<bar>q - ?m / 100\<bar> \<le> 1 / 6400"
    and exact: "(\<forall>a \<in> fmdom' (bd_nodeScores bd). r a \<in> \<int>) \<longrightarrow> q = ?m / 100 \<and>
      (?m < 50 \<longrightarrow> q \<le> 1 / 2 - 1 / 2 ^ 47) \<and> (80 < ?m \<longrightarrow> 8 / 10 + 1 / 2 ^ 47 \<le> q)" by blast
  note pick = threshold_of_quotient [OF q]
  show "GetConsensusThreshold es bd = Fin (if ?m < 50 then strict_threshold
      else if ?m \<le> 80 then base_threshold else relaxed_threshold)"
    if "\<forall>a \<in> fmdom' (bd_nodeScores bd). r a \<in> \<int>"
  proof -
    have "1 / 2 \<le> q" if "50 \<le> ?m" using that exact \<open>\<forall>a \<in> _. _\<close> by simp
    moreover have "q \<le> 8 / 10" if "?m \<le> 80" using that exact \<open>\<forall>a \<in> _. _\<close> by simp
    ultimately show ?thesis using exact that pick by (cases "?m < 50"; cases "?m \<le> 80") simp_all
  qed
  have near: "?m / 100 - 1 / 6400 \<le> q" "q \<le> ?m / 100 + 1 / 6400" using close by linarith+
  show "GetConsensusThreshold es bd = Fin strict_threshold" if "?m \<le> 99 / 2"
  proof (rule pick(1))
    have "q \<le> 1 / 2 - 1 / 256" using near(2) that by linarith
    then show "q \<le> 1 / 2 - 1 / 2 ^ 47" by simp
  qed
  show "GetConsensusThreshold es bd = Fin base_threshold" if "101 / 2 \<le> ?m" "?m \<le> 159 / 2"
    using near that by (intro pick(2)) linarith+
  show "GetConsensusThreshold es bd = Fin relaxed_threshold" if "161 / 2 \<le> ?m"
  proof (rule pick(3))
    have "8 / 10 + 1 / 256 \<le> q" using near(1) that by linarith
    then show "8 / 10 + 1 / 2 ^ 47 \<le> q" by simp
  qed
next
  fix lo hi
  assume sc: "\<forall>a x. fmlookup (bd_nodeScores bd) a = Some x \<longrightarrow>
      (\<exists>r. x = Fin r \<and> of_int lo \<le> r \<and> r \<le> of_int hi)"
    and ne: "bd_nodeScores bd \<noteq> fmempty" and lh: "0 \<le> lo" "lo \<le> hi" "hi \<le> 100"
  have "es \<noteq> []" using assms(1) ne by (auto simp: range_order_def)
  moreover have "\<forall>(a, x) \<in> set es. \<exists>r. x = Fin r \<and> of_int lo \<le> r \<and> r \<le> of_int hi"
    using sc by (auto simp: range_order_lookup [OF assms(1)])
  ultimately obtain q where q: "calculateNetworkHealth es bd = Fin (rnd q)"
      "of_int lo / 100 \<le> q" "q \<le> of_int hi / 100"
    using health_between lh assms(2) by blast
  note pick = threshold_of_quotient [OF q(1)]
  have z: "(of_int a :: rat) \<le> of_int b" if "a \<le> b" for a b using that by (simp only: of_int_le_iff)
  show "GetConsensusThreshold es bd = Fin strict_threshold" if "hi \<le> 49"
    using q(3) z [OF that] by (intro pick(1)) simp
  show "GetConsensusThreshold es bd = Fin base_threshold" if "50 \<le> lo" "hi \<le> 80"
    using q(2,3) z [OF that(1)] z [OF that(2)] by (intro pick(2)) simp_all
  show "GetConsensusThreshold es bd = Fin relaxed_threshold" if "81 \<le> lo"
    using q(2) z [OF that] by (intro pick(3)) simp
qed

text \<open>Scores 10 and 80: neither the smallest nor the largest alone, but their mean 45, picks the strict value.\<close>

theorem threshold_by_health_witness:
  "GetConsensusThreshold [(7, Fin 10), (8, Fin 80)]
     (NewByzantineDefender\<lparr>bd_nodeScores := fmupd 7 (Fin 10) (fmupd 8 (Fin 80) fmempty)\<rparr>) = Fin strict_threshold"
proof -
  let ?bd = "NewByzantineDefender\<lparr>bd_nodeScores := fmupd 7 (Fin 10) (fmupd 8 (Fin 80) fmempty)\<rparr>"
  let ?r = "\<lambda>a :: address. if a = 7 then 10 else 80 :: rat"
  have "range_order [(7, Fin 10), (8, Fin 80)] (bd_nodeScores ?bd)" by (simp add: range_order_def)
  note t = threshold_by_health [OF this, THEN conjunct2, THEN conjunct2, THEN conjunct2, THEN conjunct2,
      THEN conjunct2, THEN conjunct1, THEN spec, of ?r, THEN mp, THEN conjunct1, THEN mp]
  have dom: "fmdom' (bd_nodeScores ?bd) = {7, 8}" by auto
  have "fmlookup (bd_nodeScores ?bd) 7 \<noteq> None" by simp
  then have "bd_nodeScores ?bd \<noteq> fmempty" by (metis fmempty_lookup)
  then have "scores_are ?r ?bd" by (auto simp: scores_are_def split: if_splits)
  moreover have "mean_score ?r ?bd = 45" unfolding mean_score_def dom by simp
  ultimately show ?thesis using t dom by simp
qed

section \<open>The reputation manager refines a bounded counter\<close>

definition counter_step :: "bool \<Rightarrow> int \<Rightarrow> int" where
  "counter_step isValid n = (if isValid then min 100 (n + 1) else max 0 (n - 5))"

definition rm_counter :: "reputation_manager \<Rightarrow> address \<Rightarrow> f64" where
  "rm_counter rm a = (case fmlookup (rm_reputations rm) a of None \<Rightarrow> Fin 50 | Some x \<Rightarrow> x)"

fun rm_run :: "(address \<times> bool) list \<Rightarrow> reputation_manager \<Rightarrow> reputation_manager" where
  "rm_run [] rm = rm"
| "rm_run ((a, isValid) # us) rm = rm_run us (UpdateReputation a isValid rm)"

lemma counter_step_range: "0 \<le> n \<Longrightarrow> n \<le> 100 \<Longrightarrow> 0 \<le> counter_step v n \<and> counter_step v n \<le> 100"
  by (simp add: counter_step_def)

lemma UpdateReputation_counter:
  assumes "rm_counter rm a = Fin (of_int n)" and "0 \<le> n" and "n \<le> 100"
  shows "rm_counter (UpdateReputation a v rm) b =
    (if b = a then Fin (of_int (counter_step v n)) else rm_counter rm b)"
proof -
  have "f64_round (of_int (n + 1)) = Fin (of_int (n + 1))" "f64_round (of_int (n - 5)) = Fin (of_int (n - 5))"
    using assms by (intro f64_of_int_rep; simp)+
  then show ?thesis
    using assms by (auto simp: rm_counter_def UpdateReputation_def Let_def counter_step_def f64_sub_def
        f64_min_def f64_max_def min_def max_def)
qed

text \<open>
  C37: \<open>UpdateReputation\<close> is a counter in the integers per node: it starts at 50, a valid block adds 1 up
  to 100, an invalid one takes 5 down to 0, without any rounding, and no update of one node moves another.
\<close>

theorem reputation_counts_exactly:
  "rm_counter (rm_run us NewReputationManager) a =
     Fin (of_int (fold counter_step (map snd (filter (\<lambda>u. fst u = a) us)) 50))"
proof -
  have "rm_counter (rm_run us rm) a = Fin (of_int (fold counter_step (map snd (filter (\<lambda>u. fst u = a) us)) (f a)))"
    if "\<forall>b. rm_counter rm b = Fin (of_int (f b)) \<and> 0 \<le> f b \<and> f b \<le> 100" for rm f
    using that
  proof (induction us arbitrary: rm f)
    case (Cons u us)
    obtain b v where u: "u = (b, v)" by fastforce
    have "\<forall>c. rm_counter (UpdateReputation b v rm) c = Fin (of_int ((f(b := counter_step v (f b))) c)) \<and>
        0 \<le> (f(b := counter_step v (f b))) c \<and> (f(b := counter_step v (f b))) c \<le> 100"
      using Cons.prems counter_step_range by (auto simp: UpdateReputation_counter)
    from Cons.IH [OF this] show ?case by (auto simp: u)
  qed simp
  from this [of NewReputationManager "\<lambda>_. 50"] show ?thesis
    by (simp add: rm_counter_def NewReputationManager_def)
qed

end
