(* ===== verification/Crypto_VRF.thy ===== *)
theory Crypto_VRF
  imports Crypto_Accumulator
begin

text \<open>
  \<open>crypto/vrf.go\<close>: the VRF oracle over P-256. The curve (its field prime, order and coefficient,
  its scalar multiplications) and \<open>ModSqrt\<close> are arguments, and so is the random \<open>k\<close>. The search
  for a point is a loop that may run for ever: \<open>None\<close> is the run that does not end.
\<close>

record ec_curve =
  ec_P :: nat
  ec_N :: nat
  ec_B :: nat
  ec_ScalarMult :: "nat \<times> nat \<Rightarrow> bytes \<Rightarrow> (nat \<times> nat) res"
  ec_ScalarBaseMult :: "bytes \<Rightarrow> nat \<times> nat"
  ec_ModSqrt :: "nat \<Rightarrow> nat \<Rightarrow> nat option"

record vrf_oracle =
  vrf_D :: nat
  vrf_publicKey :: "nat \<times> nat"

record vrf_proof =
  vp_Gamma :: "nat \<times> nat"
  vp_C :: nat
  vp_S :: nat
  vp_PublicKey :: "nat \<times> nat"

text \<open>\<open>ecdsa.GenerateKey\<close> gives the private scalar; its public key is the multiple of the base point.\<close>

definition NewVRFOracle :: "ec_curve \<Rightarrow> nat \<Rightarrow> vrf_oracle" where
  "NewVRFOracle curve d = \<lparr>vrf_D = d, vrf_publicKey = ec_ScalarBaseMult curve (big_Bytes d)\<rparr>"

definition curve_rhs :: "ec_curve \<Rightarrow> nat \<Rightarrow> nat" where
  "curve_rhs curve x = nat ((int x * int x * int x - int x * 3 + int (ec_B curve)) mod int (ec_P curve))"

partial_function (option) curve_search :: "ec_curve \<Rightarrow> nat \<Rightarrow> (nat \<times> nat) option" where
  "curve_search curve x =
     (case ec_ModSqrt curve (curve_rhs curve x) (ec_P curve) of
        Some y \<Rightarrow> Some (x, y)
      | None \<Rightarrow> curve_search curve ((x + 1) mod ec_P curve))"

definition hashToCurve :: "digest \<Rightarrow> ec_curve \<Rightarrow> bytes \<Rightarrow> (nat \<times> nat) option" where
  "hashToCurve sha curve d = curve_search curve (be_nat (be_bytes (sha d)))"

definition point_bytes :: "nat \<times> nat \<Rightarrow> bytes" where
  "point_bytes p = big_Bytes (fst p) @ big_Bytes (snd p)"

definition calculateChallenge ::
  "digest \<Rightarrow> vrf_oracle \<Rightarrow> nat \<times> nat \<Rightarrow> nat \<times> nat \<Rightarrow> nat \<times> nat \<Rightarrow> nat \<times> nat \<Rightarrow> nat" where
  "calculateChallenge sha vrf h gamma u v =
     be_nat (be_bytes (sha (point_bytes (vrf_publicKey vrf) @ point_bytes h @ point_bytes gamma @
       point_bytes u @ point_bytes v)))"

definition vrf_response :: "ec_curve \<Rightarrow> vrf_oracle \<Rightarrow> nat \<Rightarrow> nat \<Rightarrow> nat" where
  "vrf_response curve vrf k c = nat ((int k - int c * int (vrf_D vrf)) mod int (ec_N curve))"

definition generateProof ::
  "digest \<Rightarrow> ec_curve \<Rightarrow> nat \<Rightarrow> vrf_oracle \<Rightarrow> bytes \<Rightarrow> nat \<times> nat \<Rightarrow> vrf_proof res option" where
  "generateProof sha curve k vrf seed gamma =
     (let u = ec_ScalarBaseMult curve (big_Bytes k) in
      case hashToCurve sha curve (be_bytes (sha seed)) of
        None \<Rightarrow> None
      | Some h \<Rightarrow> Some (bind_res (ec_ScalarMult curve h (big_Bytes k)) (\<lambda>v.
          let c = calculateChallenge sha vrf h gamma u v in
          Ok \<lparr>vp_Gamma = gamma, vp_C = c, vp_S = vrf_response curve vrf k c,
              vp_PublicKey = vrf_publicKey vrf\<rparr>)))"

definition serializeProof :: "vrf_proof \<Rightarrow> bytes" where
  "serializeProof p = point_bytes (vp_Gamma p) @ big_Bytes (vp_C p) @ big_Bytes (vp_S p)"

definition vrf_Generate ::
  "digest \<Rightarrow> ec_curve \<Rightarrow> nat \<Rightarrow> vrf_oracle \<Rightarrow> u64 \<Rightarrow> (bytes \<times> bytes) res option" where
  "vrf_Generate sha curve k vrf seed =
     (let seedBytes = be_bytes seed in
      case hashToCurve sha curve (be_bytes (sha seedBytes)) of
        None \<Rightarrow> None
      | Some h \<Rightarrow>
          (case ec_ScalarMult curve h (big_Bytes (vrf_D vrf)) of
             Fail e \<Rightarrow> Some (Fail e)
           | Panic p \<Rightarrow> Some (Panic p)
           | Ok gamma \<Rightarrow>
               map_option (\<lambda>r. bind_res r (\<lambda>proof.
                 Ok (be_bytes (sha (point_bytes gamma)), serializeProof proof)))
               (generateProof sha curve k vrf seedBytes gamma)))"

section \<open>The search for a point\<close>

text \<open>What \<open>ModSqrt\<close> documents for an odd prime: a square root when there is one, nil otherwise.\<close>

definition mod_sqrt_contract :: "ec_curve \<Rightarrow> bool" where
  "mod_sqrt_contract curve \<longleftrightarrow>
     (\<forall>z y. ec_ModSqrt curve z (ec_P curve) = Some y \<longrightarrow> y * y mod ec_P curve = z mod ec_P curve) \<and>
     (\<forall>z y. y * y mod ec_P curve = z mod ec_P curve \<longrightarrow> ec_ModSqrt curve z (ec_P curve) \<noteq> None)"

definition has_root :: "ec_curve \<Rightarrow> nat \<Rightarrow> bool" where
  "has_root curve x \<longleftrightarrow> ec_ModSqrt curve (curve_rhs curve x) (ec_P curve) \<noteq> None"

text \<open>
  The points of a short Weierstrass curve with \<open>a = -3\<close>, as the standard gives P-256: solutions of
  \<open>y^2 = x^3 - 3 x + b\<close> in the integers modulo the prime. The equation does not mention the code.
\<close>

definition on_curve :: "ec_curve \<Rightarrow> nat \<times> nat \<Rightarrow> bool" where
  "on_curve curve p \<longleftrightarrow>
     (int (snd p)) ^ 2 mod int (ec_P curve) =
     ((int (fst p)) ^ 3 - 3 * int (fst p) + int (ec_B curve)) mod int (ec_P curve)"

lemma on_curve_iff:
  assumes "0 < ec_P curve"
  shows "on_curve curve (x, y) \<longleftrightarrow> y * y mod ec_P curve = curve_rhs curve x mod ec_P curve"
proof -
  let ?P = "int (ec_P curve)"
  let ?r = "int x * int x * int x - int x * 3 + int (ec_B curve)"
  have "int (curve_rhs curve x) = ?r mod ?P" using assms by (simp add: curve_rhs_def)
  then have "int (curve_rhs curve x mod ec_P curve) = ?r mod ?P" by (simp add: zmod_int)
  moreover have "int (y * y mod ec_P curve) = (int y) ^ 2 mod ?P" by (simp add: zmod_int power2_eq_square)
  moreover have "?r = (int x) ^ 3 - 3 * int x + int (ec_B curve)" by (simp add: power3_eq_cube)
  ultimately show ?thesis unfolding on_curve_def fst_conv snd_conv by (metis of_nat_eq_iff)
qed

lemma curve_search_step:
  "curve_search curve x = (if has_root curve x
     then Some (x, the (ec_ModSqrt curve (curve_rhs curve x) (ec_P curve)))
     else curve_search curve ((x + 1) mod ec_P curve))"
  by (subst curve_search.simps) (auto simp: has_root_def)

text \<open>From \<open>x < P\<close> the loop reaches the first root at or after \<open>x\<close>, cyclically.\<close>

lemma curve_search_forward:
  assumes "has_root curve ((x + d) mod ec_P curve)" and "x < ec_P curve"
  shows "\<exists>e \<le> d. has_root curve ((x + e) mod ec_P curve) \<and>
    curve_search curve x = curve_search curve ((x + e) mod ec_P curve)"
  using assms
proof (induction d arbitrary: x)
  case 0
  then show ?case by auto
next
  case (Suc d)
  show ?case
  proof (cases "has_root curve x")
    case True
    with Suc.prems show ?thesis by (intro exI [of _ 0]) simp
  next
    case False
    let ?y = "(x + 1) mod ec_P curve"
    have shift: "(?y + e) mod ec_P curve = (x + Suc e) mod ec_P curve" for e
      by (simp add: mod_add_left_eq)
    have "?y < ec_P curve" using Suc.prems(2) by simp
    moreover have "has_root curve ((?y + d) mod ec_P curve)" using Suc.prems(1) unfolding shift .
    ultimately obtain e where "e \<le> d" "has_root curve ((?y + e) mod ec_P curve)"
        "curve_search curve ?y = curve_search curve ((?y + e) mod ec_P curve)"
      using Suc.IH by blast
    with False show ?thesis
      unfolding shift by (intro exI [of _ "Suc e"]) (simp add: curve_search_step [of curve x])
  qed
qed

lemma curve_search_ends:
  assumes "has_root curve r" and "r < ec_P curve" and "x < ec_P curve"
  shows "\<exists>x' y. curve_search curve x = Some (x', y) \<and> x' < ec_P curve \<and>
    ec_ModSqrt curve (curve_rhs curve x') (ec_P curve) = Some y"
proof -
  have "(x + (r + ec_P curve - x)) mod ec_P curve = r"
    using assms by simp
  with assms(1,3) curve_search_forward [of curve x "r + ec_P curve - x"]
  obtain e where "has_root curve ((x + e) mod ec_P curve)"
      "curve_search curve x = curve_search curve ((x + e) mod ec_P curve)" by auto
  moreover have "(x + e) mod ec_P curve < ec_P curve" using assms(2) by simp
  ultimately show ?thesis
    by (auto simp: curve_search_step [of curve "(x + e) mod ec_P curve"] has_root_def)
qed

text \<open>
  C39: as soon as the curve has a point with a reduced abscissa, the search of \<open>hashToCurve\<close> returns,
  wherever the hash starts it, and what it returns satisfies the equation
  \<open>y^2 = x^3 - 3 x + b\<close> modulo the prime. The hypothesis on \<open>ModSqrt\<close> is its documentation: a square
  root when there is one, nil otherwise. The abscissa is reduced modulo the prime unless the
  unreduced hash itself was accepted.
\<close>

theorem hashToCurve_returns:
  assumes "on_curve curve (r, s)" and "r < ec_P curve" and "mod_sqrt_contract curve"
  shows "\<exists>x y. hashToCurve sha curve d = Some (x, y) \<and> on_curve curve (x, y) \<and>
    (x < ec_P curve \<or> x = be_nat (be_bytes (sha d)))"
proof -
  have pos: "0 < ec_P curve" using assms(2) by simp
  have curve: "on_curve curve (x, y)"
    if "ec_ModSqrt curve (curve_rhs curve x) (ec_P curve) = Some y" for x y
    using that assms(3) by (simp add: on_curve_iff [OF pos] mod_sqrt_contract_def)
  have root_r: "has_root curve r"
    using assms(1,3) by (auto simp: on_curve_iff [OF pos] mod_sqrt_contract_def has_root_def)
  let ?x = "be_nat (be_bytes (sha d))"
  show ?thesis
  proof (cases "has_root curve ?x")
    case True
    with curve show ?thesis by (auto simp: hashToCurve_def curve_search_step [of curve ?x] has_root_def)
  next
    case False
    have "(?x + 1) mod ec_P curve < ec_P curve" using pos by simp
    from curve_search_ends [OF root_r assms(2) this] False curve show ?thesis
      by (auto simp: hashToCurve_def curve_search_step [of curve ?x])
  qed
qed

definition demo_curve :: ec_curve where
  "demo_curve = \<lparr>ec_P = 7, ec_N = 5, ec_B = 1, ec_ScalarMult = (\<lambda>p k. Ok (fst p, be_nat k)),
     ec_ScalarBaseMult = (\<lambda>k. (be_nat k, 1)),
     ec_ModSqrt = (\<lambda>z p. find (\<lambda>y. y * y mod p = z mod p) [0..<p])\<rparr>"

lemma demo_ModSqrt: "mod_sqrt_contract demo_curve"
  unfolding mod_sqrt_contract_def
proof (intro conjI allI impI)
  fix z y
  show "y * y mod ec_P demo_curve = z mod ec_P demo_curve"
    if "ec_ModSqrt demo_curve z (ec_P demo_curve) = Some y"
    using that by (auto simp: demo_curve_def find_Some_iff)
  assume "y * y mod ec_P demo_curve = z mod ec_P demo_curve"
  then have "(y mod 7) * (y mod 7) mod 7 = z mod 7" by (simp add: demo_curve_def mod_mult_eq)
  moreover have "y mod 7 \<in> set [0..<7]" by simp
  ultimately show "ec_ModSqrt demo_curve z (ec_P demo_curve) \<noteq> None"
    unfolding demo_curve_def by (auto simp: find_None_iff simp del: set_upt)
qed

theorem hashToCurve_returns_witness:
  "\<exists>x y. hashToCurve (\<lambda>_. 3) demo_curve [] = Some (x, y) \<and> on_curve demo_curve (x, y) \<and>
     (x < ec_P demo_curve \<or> x = be_nat (be_bytes (3 :: hash)))"
proof (rule hashToCurve_returns)
  show "on_curve demo_curve (0, 1)" by (simp add: on_curve_def demo_curve_def)
qed (simp_all add: demo_ModSqrt, simp add: demo_curve_def)

section \<open>Proofs and outputs\<close>

lemma vrf_response_equation:
  assumes "0 < ec_N curve"
  shows "vrf_response curve vrf k c < ec_N curve \<and>
    (vrf_response curve vrf k c + c * vrf_D vrf) mod ec_N curve = k mod ec_N curve"
proof -
  let ?s = "(int k - int c * int (vrf_D vrf)) mod int (ec_N curve)"
  have s: "0 \<le> ?s" "?s < int (ec_N curve)" using assms by simp_all
  have "(?s + int c * int (vrf_D vrf)) mod int (ec_N curve) = int k mod int (ec_N curve)"
    by (simp add: mod_add_left_eq)
  then have "int ((nat ?s + c * vrf_D vrf) mod ec_N curve) = int (k mod ec_N curve)"
    using s(1) by (simp add: zmod_int)
  with s show ?thesis unfolding vrf_response_def by (simp add: nat_less_iff)
qed

text \<open>
  The output of \<open>Generate\<close> is a function of the key and the epoch alone: another random \<open>k\<close> changes
  the proof only. The response of the proof is reduced modulo the group order and solves
  \<open>s + c * sk = k\<close>, the equation a verifier would check in the exponent.
\<close>

theorem vrf_output_deterministic:
  assumes "0 < ec_N curve"
    and "vrf_Generate sha curve k vrf seed = Some (Ok (out, bs))"
    and "vrf_Generate sha curve k' vrf seed = Some (Ok (out', bs'))"
  shows "out' = out \<and> length out = 32 \<and>
    (\<exists>p. bs = serializeProof p \<and> out = be_bytes (sha (point_bytes (vp_Gamma p))) \<and>
       vp_PublicKey p = vrf_publicKey vrf \<and> vp_S p < ec_N curve \<and>
       (vp_S p + vp_C p * vrf_D vrf) mod ec_N curve = k mod ec_N curve)"
proof -
  from assms(2) obtain h gamma where
    h: "hashToCurve sha curve (be_bytes (sha (be_bytes seed))) = Some h"
      "ec_ScalarMult curve h (big_Bytes (vrf_D vrf)) = Ok gamma"
    by (auto simp: vrf_Generate_def Let_def split: option.splits res.splits)
  have out: "out' = be_bytes (sha (point_bytes gamma))" "out = be_bytes (sha (point_bytes gamma))"
    using assms(2,3) h by (auto simp: vrf_Generate_def bind_res_Ok_iff)
  from assms(2) h obtain p where p: "generateProof sha curve k vrf (be_bytes seed) gamma = Some (Ok p)"
      "bs = serializeProof p"
    by (auto simp: vrf_Generate_def bind_res_Ok_iff)
  then have "vp_Gamma p = gamma" "vp_PublicKey p = vrf_publicKey vrf"
      "vp_S p = vrf_response curve vrf k (vp_C p)"
    by (auto simp: generateProof_def bind_res_Ok_iff Let_def split: option.splits)
  with out p(2) vrf_response_equation [OF assms(1)] show ?thesis by auto
qed

lemma demo_hashToCurve: "hashToCurve (\<lambda>_. 0) demo_curve d = Some (0, 1)"
proof -
  have z: "be_nat (be_bytes (0 :: hash)) = 0"
  proof -
    have "be_bytes (0 :: hash) = replicate 32 0"
      by (rule nth_equalityI) (simp_all add: be_bytes_def rev_nth)
    then show ?thesis by (simp add: be_nat_def numeral_eq_Suc)
  qed
  have "ec_ModSqrt demo_curve (curve_rhs demo_curve 0) (ec_P demo_curve) = Some 1"
    by (simp add: demo_curve_def curve_rhs_def upt_rec)
  then show ?thesis
    by (simp add: hashToCurve_def z curve_search_step [of demo_curve 0] has_root_def)
qed

theorem vrf_output_deterministic_witness:
  "\<exists>out bs bs'. vrf_Generate (\<lambda>_. 0) demo_curve 2 (NewVRFOracle demo_curve 3) 9 = Some (Ok (out, bs)) \<and>
     vrf_Generate (\<lambda>_. 0) demo_curve 4 (NewVRFOracle demo_curve 3) 9 = Some (Ok (out, bs')) \<and> length out = 32"
proof -
  have "\<exists>out bs. vrf_Generate (\<lambda>_. 0) demo_curve k (NewVRFOracle demo_curve 3) 9 = Some (Ok (out, bs))" for k
    unfolding vrf_Generate_def generateProof_def Let_def demo_hashToCurve by (simp add: demo_curve_def Let_def)
  then obtain out bs out' bs' where
    "vrf_Generate (\<lambda>_. 0) demo_curve 2 (NewVRFOracle demo_curve 3) 9 = Some (Ok (out, bs))"
    "vrf_Generate (\<lambda>_. 0) demo_curve 4 (NewVRFOracle demo_curve 3) 9 = Some (Ok (out', bs'))" by metis
  moreover have "0 < ec_N demo_curve" by (simp add: demo_curve_def)
  ultimately show ?thesis using vrf_output_deterministic by blast
qed

end
