(* ===== verification/Hybrid_Consensus.thy ===== *)
theory Hybrid_Consensus
  imports Consensus_Byzantine Crypto_VRF Crypto_Utils Interfaces
begin

text \<open>
  \<open>consensus/hybrid_consensus.go\<close> and \<open>consensus/consensus_types.go\<close>: leader selection, consensus
  messages and the stores of prepared and committed blocks. JSON is the argument \<open>codec\<close>: the value
  that \<open>Unmarshal\<close> leaves behind (its error is ignored) and the bytes of a vote, which always encode.
  A message whose processing the code starts in a new goroutine is appended to \<open>hc_spawned\<close>.
\<close>

section \<open>Data\<close>

datatype consensus_phase = PhaseProposal | PhaseVoting | PhaseCommit | PhaseFinalized

record pow_engine =
  pow_difficulty :: u64

record bft_engine =
  bft_validators :: "(address, bool) fmap"

record node_authenticator =
  na_trustedNodes :: "(address, bool) fmap"

record validator =
  val_Address :: address
  val_PublicKey :: bytes
  val_Stake :: u64
  val_ReputationScore :: f64
  val_LastActive :: go_time
  val_VRFProof :: bytes

record prepared_block =
  pb_Block :: block
  pb_Signatures :: "(address, bytes) fmap"
  pb_Timestamp :: go_time

record committed_block =
  cb_Block :: block
  cb_Signatures :: "(address, bytes) fmap"
  cb_Proof :: bytes

record consensus_state =
  cs_Phase :: consensus_phase
  cs_CurrentLeader :: address
  cs_ViewNumber :: u64
  cs_PreparedBlocks :: "(hash, prepared_block) fmap"
  cs_CommittedBlocks :: "(hash, committed_block) fmap"

record consensus_message =
  cm_Type :: string
  cm_Sender :: address
  cm_Data :: bytes
  cm_Timestamp :: go_time

record vote =
  vote_BlockHash :: hash
  vote_ValidatorAddr :: address
  vote_IsValid :: bool
  vote_Signature :: bytes
  vote_Timestamp :: go_time

record block_proposal =
  bp_Block :: "block option"
  bp_ProposerAddr :: address
  bp_Signature :: bytes
  bp_Timestamp :: go_time

record commit_message =
  cmt_Block :: "block option"
  cmt_Signatures :: "(address, bytes) fmap"
  cmt_Timestamp :: go_time

record hybrid_consensus =
  hc_powEngine :: pow_engine
  hc_bftEngine :: bft_engine
  hc_nodeAuth :: node_authenticator
  hc_vrfOracle :: vrf_oracle
  hc_reputationMgr :: reputation_manager
  hc_currentEpoch :: u64
  hc_validators :: "(address, validator) fmap"
  hc_consensusState :: consensus_state
  hc_spawned :: "consensus_message list" \<comment> \<open>processed in goroutines of their own\<close>

record json_codec =
  jc_vote :: "bytes \<Rightarrow> vote"
  jc_proposal :: "bytes \<Rightarrow> block_proposal"
  jc_commit :: "bytes \<Rightarrow> commit_message"
  jc_encode :: "vote \<Rightarrow> bytes"

definition NewPoWEngine :: pow_engine where
  "NewPoWEngine = \<lparr>pow_difficulty = 1\<rparr>"

definition NewBFTEngine :: bft_engine where
  "NewBFTEngine = \<lparr>bft_validators = fmempty\<rparr>"

definition NewNodeAuthenticator :: node_authenticator where
  "NewNodeAuthenticator = \<lparr>na_trustedNodes = fmempty\<rparr>"

definition NewHybridConsensus :: "vrf_oracle \<Rightarrow> hybrid_consensus" where
  "NewHybridConsensus oracle =
     \<lparr>hc_powEngine = NewPoWEngine, hc_bftEngine = NewBFTEngine, hc_nodeAuth = NewNodeAuthenticator,
      hc_vrfOracle = oracle, hc_reputationMgr = NewReputationManager, hc_currentEpoch = 0,
      hc_validators = fmempty,
      hc_consensusState = \<lparr>cs_Phase = PhaseProposal, cs_CurrentLeader = 0, cs_ViewNumber = 0,
        cs_PreparedBlocks = fmempty, cs_CommittedBlocks = fmempty\<rparr>,
      hc_spawned = []\<rparr>"

section \<open>The engines\<close>

definition GenerateRandomness :: "go_time \<Rightarrow> u64" where
  "GenerateRandomness now = word_of_int now"

definition pow_Start :: "pow_engine \<Rightarrow> unit res" where
  "pow_Start pe = Ok ()"

definition bft_Start :: "bft_engine \<Rightarrow> unit res" where
  "bft_Start be = Ok ()"

definition ValidatePoW :: "pow_engine \<Rightarrow> block option \<Rightarrow> unit res" where
  "ValidatePoW pe block = Ok ()"

definition ValidateSignatures :: "bft_engine \<Rightarrow> block option \<Rightarrow> unit res" where
  "ValidateSignatures be block = Ok ()"

definition bft_ProcessVote :: "vote \<Rightarrow> bft_engine \<Rightarrow> bft_engine \<times> unit res" where
  "bft_ProcessVote vote be = (be, Ok ())"

definition VerifyNode :: "node_authenticator \<Rightarrow> address \<Rightarrow> bool" where
  "VerifyNode na addr = True"

section \<open>Selecting a leader\<close>

text \<open>
  \<open>ord i\<close> is the order of the addresses in the \<open>i\<close>-th loop over a map: the sum of the weights, the
  first validator when all weigh nothing, the walk along the weights, and the two fallbacks.
\<close>

definition key_order :: "address list \<Rightarrow> (address, 'v) fmap \<Rightarrow> bool" where
  "key_order ks m \<longleftrightarrow> distinct ks \<and> set ks = fmdom' m"

fun first_key :: "address list \<Rightarrow> address option" where
  "first_key [] = None"
| "first_key (a # _) = Some a"

definition validator_weight :: "validator \<Rightarrow> f64" where
  "validator_weight v = f64_mul (f64_of_int (uint (val_Stake v))) (val_ReputationScore v)"

text \<open>Division of \<open>big.Float\<close>s made from integers: one rounding to the longer of their precisions.\<close>

definition rnd_prec :: "nat \<Rightarrow> rat \<Rightarrow> rat" where
  "rnd_prec p x = (if x = 0 then 0
     else let u = flog2 \<bar>x\<bar> + 1 - int p in of_int (round_even (x / pow2 u)) * pow2 u)"

definition vrf_selection :: "bytes \<Rightarrow> f64" where
  "vrf_selection vrfOutput =
     (let v = be_nat vrfOutput in
      f64_round (rnd_prec (max 64 (nat (bitlen (int v)))) (of_nat v / (2 ^ 64 - 1))))"

fun pick_cumulative :: "f64 \<Rightarrow> (address \<Rightarrow> f64) \<Rightarrow> f64 \<Rightarrow> f64 \<Rightarrow> address list \<Rightarrow> address option" where
  "pick_cumulative selection weights totalWeight cumulative [] = None"
| "pick_cumulative selection weights totalWeight cumulative (a # ks) =
     (let cumulative = f64_add cumulative (f64_div (weights a) totalWeight) in
      if f64_le selection cumulative then Some a
      else pick_cumulative selection weights totalWeight cumulative ks)"

definition selectValidatorByVRF ::
  "(nat \<Rightarrow> address list) \<Rightarrow> bytes \<Rightarrow> (address, validator) fmap \<Rightarrow> address option" where
  "selectValidatorByVRF ord vrfOutput validators =
     (if fmlen validators = 0 then None
      else
        let weights = (\<lambda>a. validator_weight (the (fmlookup validators a)));
            totalWeight = fold (\<lambda>a t. f64_add t (weights a)) (ord 0) (Fin 0)
        in if totalWeight = Fin 0 \<and> ord 1 \<noteq> [] then first_key (ord 1)
           else
             case pick_cumulative (vrf_selection vrfOutput) weights totalWeight (Fin 0) (ord 2) of
               Some a \<Rightarrow> Some a
             | None \<Rightarrow> first_key (ord 3))"

definition selectLeader ::
  "digest \<Rightarrow> ec_curve \<Rightarrow> nat \<Rightarrow> (nat \<Rightarrow> address list) \<Rightarrow> hybrid_consensus \<Rightarrow>
   (address \<times> hybrid_consensus) res option" where
  "selectLeader sha curve k ord hc =
     map_option (\<lambda>r. bind_res r (\<lambda>(vrfOutput, proof).
       let m = hc_validators hc in
       Ok (case selectValidatorByVRF ord vrfOutput m of
             None \<Rightarrow> (case first_key (ord 4) of
                 Some a \<Rightarrow> (val_Address (the (fmlookup m a)), hc)
               | None \<Rightarrow> (0, hc))
           | Some a \<Rightarrow>
               let v = the (fmlookup m a) in
               (val_Address v, hc\<lparr>hc_validators := fmupd a (v\<lparr>val_VRFProof := proof\<rparr>) m\<rparr>))))
     (vrf_Generate sha curve k (hc_vrfOracle hc) (hc_currentEpoch hc))"

definition getSelfAddress :: address where
  "getSelfAddress = 0"

definition getNextHeight :: u64 where
  "getNextHeight = 0"

definition selectTransactions :: "transaction list" where
  "selectTransactions = []"

definition signBlock :: "block \<Rightarrow> block" where
  "signBlock block = block"

definition createBlockProposal :: "go_time \<Rightarrow> block" where
  "createBlockProposal now =
     (let powNonce = GenerateRandomness now;
          block = \<lparr>blk_Header = \<lparr>hdr_Version = 1, hdr_Height = getNextHeight, hdr_Timestamp = Unix now,
              hdr_PrevBlockHash = 0, hdr_MerkleRoot = 0, hdr_StateRoot = 0, hdr_AccumulatorRoot = 0,
              hdr_Nonce = powNonce, hdr_Difficulty = 0, hdr_ShardID = 0, hdr_CrossShardLinks = []\<rparr>,
            blk_Transactions = selectTransactions\<rparr>
      in signBlock block)"

text \<open>The second component is the proposal handed to \<open>broadcastProposal\<close>, which drops it.\<close>

definition runConsensusRound ::
  "digest \<Rightarrow> ec_curve \<Rightarrow> nat \<Rightarrow> (nat \<Rightarrow> address list) \<Rightarrow> go_time \<Rightarrow> hybrid_consensus \<Rightarrow>
   (hybrid_consensus \<times> block option) res option" where
  "runConsensusRound sha curve k ord now hc =
     map_option (\<lambda>r. bind_res r (\<lambda>(leader, hc).
       Ok (hc\<lparr>hc_consensusState := (hc_consensusState hc)\<lparr>cs_CurrentLeader := leader\<rparr>\<rparr>,
           if leader = getSelfAddress then Some (createBlockProposal now) else None)))
     (selectLeader sha curve k ord hc)"

section \<open>Messages\<close>

definition hc_validateTransaction :: "transaction \<Rightarrow> unit res" where
  "hc_validateTransaction tx = Ok ()"

definition hc_ValidateBlock :: "hybrid_consensus \<Rightarrow> block option \<Rightarrow> unit res" where
  "hc_ValidateBlock hc block =
     bind_res (ValidatePoW (hc_powEngine hc) block) (\<lambda>_.
     bind_res (ValidateSignatures (hc_bftEngine hc) block) (\<lambda>_.
       case block of
         None \<Rightarrow> Panic NilDereference
       | Some b \<Rightarrow> fold_res (\<lambda>tx _. hc_validateTransaction tx) (blk_Transactions b) ()))"

definition ProcessVote :: "vote \<Rightarrow> hybrid_consensus \<Rightarrow> hybrid_consensus \<times> unit res" where
  "ProcessVote vote hc =
     (if \<not> VerifyNode (hc_nodeAuth hc) (vote_ValidatorAddr vote)
      then (hc, Fail (ErrorString ''invalid validator''))
      else
        let rm = UpdateReputation (vote_ValidatorAddr vote) (vote_IsValid vote) (hc_reputationMgr hc);
            (be, r) = bft_ProcessVote vote (hc_bftEngine hc)
        in (hc\<lparr>hc_reputationMgr := rm, hc_bftEngine := be\<rparr>, r))"

definition signVote :: "digest \<Rightarrow> json_codec \<Rightarrow> vote \<Rightarrow> bytes res" where
  "signVote sha codec vote = Ok (Sign sha (jc_encode codec vote) (string_bytes ''validator_private_key''))"

definition broadcastVote :: "json_codec \<Rightarrow> go_time \<Rightarrow> vote \<Rightarrow> hybrid_consensus \<Rightarrow> hybrid_consensus" where
  "broadcastVote codec now vote hc =
     (let msg = \<lparr>cm_Type = ''vote'', cm_Sender = vote_ValidatorAddr vote,
                 cm_Data = jc_encode codec vote, cm_Timestamp = now\<rparr>
      in hc\<lparr>hc_spawned := hc_spawned hc @ [msg]\<rparr>)"

definition storePrepared :: "digest \<Rightarrow> prepared_block \<Rightarrow> hybrid_consensus \<Rightarrow> hybrid_consensus" where
  "storePrepared sha pb hc =
     hc\<lparr>hc_consensusState := (hc_consensusState hc)\<lparr>cs_PreparedBlocks :=
       fmupd (header_hash sha (blk_Header (pb_Block pb))) pb (cs_PreparedBlocks (hc_consensusState hc))\<rparr>\<rparr>"

definition ProcessProposal ::
  "digest \<Rightarrow> json_codec \<Rightarrow> go_time \<Rightarrow> block_proposal \<Rightarrow> hybrid_consensus \<Rightarrow> hybrid_consensus \<times> unit res" where
  "ProcessProposal sha codec now proposal hc =
     (case hc_ValidateBlock hc (bp_Block proposal) of
        Fail e \<Rightarrow> (hc, Fail e)
      | Panic p \<Rightarrow> (hc, Panic p)
      | Ok _ \<Rightarrow>
          (case bp_Block proposal of
             None \<Rightarrow> (hc, Panic NilDereference)
           | Some b \<Rightarrow>
               let hc = storePrepared sha \<lparr>pb_Block = b, pb_Signatures = fmempty, pb_Timestamp = now\<rparr> hc;
                   vote = \<lparr>vote_BlockHash = header_hash sha (blk_Header b),
                           vote_ValidatorAddr = getSelfAddress, vote_IsValid = True,
                           vote_Signature = [], vote_Timestamp = now\<rparr>
               in case signVote sha codec vote of
                    Fail e \<Rightarrow> (hc, Fail e)
                  | Panic p \<Rightarrow> (hc, Panic p)
                  | Ok signature \<Rightarrow>
                      (broadcastVote codec now (vote\<lparr>vote_Signature := signature\<rparr>) hc, Ok ())))"

definition hasQuorum :: "hybrid_consensus \<Rightarrow> block option \<Rightarrow> bool" where
  "hasQuorum hc block = True"

definition createConsensusProof :: "block option \<Rightarrow> bytes" where
  "createConsensusProof block = string_bytes ''consensus_proof''"

definition collectSignatures :: "block option \<Rightarrow> (address, bytes) fmap" where
  "collectSignatures block = fmempty"

definition storeCommitted :: "digest \<Rightarrow> committed_block \<Rightarrow> hybrid_consensus \<Rightarrow> hybrid_consensus" where
  "storeCommitted sha cb hc =
     hc\<lparr>hc_consensusState := (hc_consensusState hc)\<lparr>cs_CommittedBlocks :=
       fmupd (header_hash sha (blk_Header (cb_Block cb))) cb (cs_CommittedBlocks (hc_consensusState hc))\<rparr>\<rparr>"

definition FinalizeBlock :: "digest \<Rightarrow> block option \<Rightarrow> hybrid_consensus \<Rightarrow> hybrid_consensus \<times> unit res" where
  "FinalizeBlock sha block hc =
     (if \<not> hasQuorum hc block then (hc, Fail (ErrorString ''insufficient votes''))
      else
        let proof = createConsensusProof block in
        case block of
          None \<Rightarrow> (hc, Panic NilDereference)
        | Some b \<Rightarrow>
            let hc = storeCommitted sha \<lparr>cb_Block = b, cb_Signatures = collectSignatures block,
                                         cb_Proof = proof\<rparr> hc
            in (hc\<lparr>hc_currentEpoch := hc_currentEpoch hc + 1\<rparr>, Ok ()))"

definition ProcessCommit ::
  "digest \<Rightarrow> commit_message \<Rightarrow> hybrid_consensus \<Rightarrow> hybrid_consensus \<times> unit res" where
  "ProcessCommit sha commit hc =
     (if \<not> hasQuorum hc (cmt_Block commit)
      then (hc, Fail (ErrorString ''insufficient signatures for commit''))
      else FinalizeBlock sha (cmt_Block commit) hc)"

definition ToVote :: "json_codec \<Rightarrow> consensus_message \<Rightarrow> vote" where
  [simp]: "ToVote codec msg = jc_vote codec (cm_Data msg)"

definition ToProposal :: "json_codec \<Rightarrow> consensus_message \<Rightarrow> block_proposal" where
  [simp]: "ToProposal codec msg = jc_proposal codec (cm_Data msg)"

definition ToCommit :: "json_codec \<Rightarrow> consensus_message \<Rightarrow> commit_message" where
  [simp]: "ToCommit codec msg = jc_commit codec (cm_Data msg)"

definition validateConsensusMessage :: "go_time \<Rightarrow> consensus_message \<Rightarrow> bool" where
  "validateConsensusMessage now msg =
     (if cm_Type msg = '''' \<or> cm_Sender msg = 0 then False
      else if now - cm_Timestamp msg > 10 * 60 * 1000000000 then False
      else True)"

definition ProcessConsensusMessage ::
  "digest \<Rightarrow> json_codec \<Rightarrow> go_time \<Rightarrow> consensus_message \<Rightarrow> hybrid_consensus \<Rightarrow>
   hybrid_consensus \<times> unit res" where
  "ProcessConsensusMessage sha codec now msg hc =
     (if \<not> validateConsensusMessage now msg then (hc, Fail (ErrorString ''invalid consensus message''))
      else if cm_Type msg = ''vote'' then ProcessVote (ToVote codec msg) hc
      else if cm_Type msg = ''proposal'' then ProcessProposal sha codec now (ToProposal codec msg) hc
      else if cm_Type msg = ''commit'' then ProcessCommit sha (ToCommit codec msg) hc
      else (hc, Fail (ErrorString ''unknown consensus message type'')))"

section \<open>The stores of blocks\<close>

definition preparedBlock :: "hybrid_consensus \<Rightarrow> hash \<Rightarrow> prepared_block option" where
  "preparedBlock hc h = fmlookup (cs_PreparedBlocks (hc_consensusState hc)) h"

definition committedBlock :: "hybrid_consensus \<Rightarrow> hash \<Rightarrow> committed_block option" where
  "committedBlock hc h = fmlookup (cs_CommittedBlocks (hc_consensusState hc)) h"

definition block_key :: "digest \<Rightarrow> block \<Rightarrow> hash" where
  "block_key sha b = header_hash sha (blk_Header b)"

interpretation prepared: keyed_store "storePrepared sha" preparedBlock "\<lambda>pb. block_key sha (pb_Block pb)" for sha
  by unfold_locales (simp add: storePrepared_def preparedBlock_def block_key_def)

interpretation committed: keyed_store "storeCommitted sha" committedBlock "\<lambda>cb. block_key sha (cb_Block cb)" for sha
  by unfold_locales (simp add: storeCommitted_def committedBlock_def block_key_def)

lemma hc_ValidateBlock_eq:
  "hc_ValidateBlock hc block = (if block = None then Panic NilDereference else Ok ())"
proof -
  have "fold_res (\<lambda>tx _. hc_validateTransaction tx) txs () = Ok ()" for txs
    using fold_res_Ok [of "\<lambda>tx _. hc_validateTransaction tx" "\<lambda>_ _. ()" txs "()"]
    by (simp add: hc_validateTransaction_def)
  then show ?thesis
    by (simp add: hc_ValidateBlock_def ValidatePoW_def ValidateSignatures_def split: option.splits)
qed

lemma FinalizeBlock_Some:
  "FinalizeBlock sha (Some b) hc =
     (let hc' = storeCommitted sha \<lparr>cb_Block = b, cb_Signatures = fmempty,
        cb_Proof = string_bytes ''consensus_proof''\<rparr> hc
      in (hc'\<lparr>hc_currentEpoch := hc_currentEpoch hc' + 1\<rparr>, Ok ()))"
  by (simp add: FinalizeBlock_def hasQuorum_def createConsensusProof_def collectSignatures_def Let_def)

lemma ProcessCommit_eq: "ProcessCommit sha commit hc = FinalizeBlock sha (cmt_Block commit) hc"
  by (simp add: ProcessCommit_def hasQuorum_def)

text \<open>Messages that pass the checks, by their type.\<close>

lemma ProcessConsensusMessage_valid:
  assumes "cm_Sender msg \<noteq> 0" and "now - cm_Timestamp msg \<le> 10 * 60 * 1000000000"
  shows "cm_Type msg = ''vote'' \<Longrightarrow> ProcessConsensusMessage sha codec now msg hc =
      ProcessVote (jc_vote codec (cm_Data msg)) hc"
    and "cm_Type msg = ''proposal'' \<Longrightarrow> ProcessConsensusMessage sha codec now msg hc =
      ProcessProposal sha codec now (jc_proposal codec (cm_Data msg)) hc"
    and "cm_Type msg = ''commit'' \<Longrightarrow> ProcessConsensusMessage sha codec now msg hc =
      FinalizeBlock sha (cmt_Block (jc_commit codec (cm_Data msg))) hc"
  using assms by (simp_all add: ProcessConsensusMessage_def validateConsensusMessage_def ProcessCommit_eq)

text \<open>
  C24: one commit message finalizes its block, from any state and from any sender but the zero address,
  as long as it is at most ten minutes old: no proposal, vote, signature or validator is needed. So two
  blocks of one height are both committed whenever their hashes differ.
\<close>

theorem commit_needs_nothing:
  assumes "cm_Type msg = ''commit''" and "cm_Sender msg \<noteq> 0"
    and "now - cm_Timestamp msg \<le> 10 * 60 * 1000000000"
    and "cmt_Block (jc_commit codec (cm_Data msg)) = Some b"
  shows "\<exists>hc'. ProcessConsensusMessage sha codec now msg hc = (hc', Ok ()) \<and>
    hc_currentEpoch hc' = hc_currentEpoch hc + 1 \<and>
    map_option cb_Block (committedBlock hc' (header_hash sha (blk_Header b))) = Some b \<and>
    (\<forall>h. h \<noteq> header_hash sha (blk_Header b) \<longrightarrow> committedBlock hc' h = committedBlock hc h)"
proof -
  let ?cb = "\<lparr>cb_Block = b, cb_Signatures = fmempty, cb_Proof = string_bytes ''consensus_proof''\<rparr>"
  let ?hc = "(storeCommitted sha ?cb hc)\<lparr>hc_currentEpoch := hc_currentEpoch hc + 1\<rparr>"
  have "ProcessConsensusMessage sha codec now msg hc = (?hc, Ok ())"
    using assms by (simp add: ProcessConsensusMessage_valid FinalizeBlock_Some Let_def storeCommitted_def)
  moreover have "committedBlock ?hc h = committedBlock (storeCommitted sha ?cb hc) h" for h
    by (simp add: committedBlock_def)
  ultimately show ?thesis
    by (auto simp: committed.get_put block_key_def)
qed

definition demo_codec :: json_codec where
  "demo_codec = \<lparr>jc_vote = (\<lambda>bs. \<lparr>vote_BlockHash = 0, vote_ValidatorAddr = of_nat (length bs),
       vote_IsValid = False, vote_Signature = [], vote_Timestamp = 0\<rparr>),
     jc_proposal = (\<lambda>bs. \<lparr>bp_Block = None, bp_ProposerAddr = 0, bp_Signature = [], bp_Timestamp = 0\<rparr>),
     jc_commit = (\<lambda>bs. \<lparr>cmt_Block = (if bs = [] then None else Some (createBlockProposal (int (length bs)))),
       cmt_Signatures = fmempty, cmt_Timestamp = 0\<rparr>),
     jc_encode = (\<lambda>_. [])\<rparr>"

definition demo_hc :: hybrid_consensus where
  "demo_hc = NewHybridConsensus \<lparr>vrf_D = 1, vrf_publicKey = (1, 1)\<rparr>"

definition demo_message :: "string \<Rightarrow> nat \<Rightarrow> consensus_message" where
  "demo_message ty n = \<lparr>cm_Type = ty, cm_Sender = 1, cm_Data = replicate n 0, cm_Timestamp = 0\<rparr>"

theorem commit_needs_nothing_witness:
  "\<exists>hc'. ProcessConsensusMessage (\<lambda>_. 0) demo_codec 0 (demo_message ''commit'' 2)
     demo_hc = (hc', Ok ()) \<and> hc_currentEpoch hc' = 1 \<and>
     map_option cb_Block (committedBlock hc' 0) = Some (createBlockProposal 2)"
  using commit_needs_nothing [of "demo_message ''commit'' 2" 0 demo_codec "createBlockProposal 2" "\<lambda>_. 0"
      demo_hc]
  by (auto simp: demo_message_def demo_codec_def header_hash_def ComputeHash_def demo_hc_def NewHybridConsensus_def)

section \<open>Runs of messages\<close>

fun hc_run ::
  "digest \<Rightarrow> json_codec \<Rightarrow> (go_time \<times> consensus_message) list \<Rightarrow> hybrid_consensus \<Rightarrow> hybrid_consensus" where
  "hc_run sha codec [] hc = hc"
| "hc_run sha codec ((now, msg) # msgs) hc =
     hc_run sha codec msgs (fst (ProcessConsensusMessage sha codec now msg hc))"

text \<open>Stored blocks sit under the hash of their own header, carry no signature, and what the node
  sends is a vote from the zero address.\<close>

definition hc_ok :: "digest \<Rightarrow> hybrid_consensus \<Rightarrow> bool" where
  "hc_ok sha hc \<longleftrightarrow>
     (\<forall>h pb. preparedBlock hc h = Some pb \<longrightarrow> h = block_key sha (pb_Block pb) \<and> pb_Signatures pb = fmempty) \<and>
     (\<forall>h cb. committedBlock hc h = Some cb \<longrightarrow> h = block_key sha (cb_Block cb) \<and> cb_Signatures cb = fmempty) \<and>
     (\<forall>msg \<in> set (hc_spawned hc). cm_Type msg = ''vote'' \<and> cm_Sender msg = 0)"

lemma hc_ok_storePrepared:
  "hc_ok sha hc \<Longrightarrow> pb_Signatures pb = fmempty \<Longrightarrow> hc_ok sha (storePrepared sha pb hc)"
  by (auto simp: hc_ok_def prepared.get_put) (auto simp: storePrepared_def committedBlock_def)

lemma hc_ok_storeCommitted:
  "hc_ok sha hc \<Longrightarrow> cb_Signatures cb = fmempty \<Longrightarrow> hc_ok sha (storeCommitted sha cb hc)"
  by (auto simp: hc_ok_def committed.get_put) (auto simp: storeCommitted_def preparedBlock_def)

lemma hc_ok_cong:
  assumes "hc_consensusState hc' = hc_consensusState hc" and "hc_spawned hc' = hc_spawned hc"
  shows "hc_ok sha hc' = hc_ok sha hc"
  using assms by (simp add: hc_ok_def preparedBlock_def committedBlock_def)

lemma hc_ok_broadcastVote:
  "hc_ok sha hc \<Longrightarrow> vote_ValidatorAddr vote = 0 \<Longrightarrow> hc_ok sha (broadcastVote codec now vote hc)"
  by (auto simp: hc_ok_def broadcastVote_def preparedBlock_def committedBlock_def)

lemma hc_ok_FinalizeBlock: "hc_ok sha hc \<Longrightarrow> hc_ok sha (fst (FinalizeBlock sha block hc))"
proof (cases block)
  case (Some b)
  assume "hc_ok sha hc"
  then have "hc_ok sha (storeCommitted sha \<lparr>cb_Block = b, cb_Signatures = fmempty,
      cb_Proof = string_bytes ''consensus_proof''\<rparr> hc)" by (rule hc_ok_storeCommitted) simp
  then show ?thesis
    using Some by (simp add: FinalizeBlock_Some Let_def hc_ok_def preparedBlock_def committedBlock_def)
qed (simp add: FinalizeBlock_def hasQuorum_def)

lemma hc_ok_ProcessProposal:
  "hc_ok sha hc \<Longrightarrow> hc_ok sha (fst (ProcessProposal sha codec now proposal hc))"
  by (auto simp: ProcessProposal_def hc_ValidateBlock_eq signVote_def Let_def getSelfAddress_def
      intro!: hc_ok_broadcastVote hc_ok_storePrepared split: option.splits)

lemma hc_ok_ProcessVote: "hc_ok sha hc \<Longrightarrow> hc_ok sha (fst (ProcessVote vote hc))"
  by (simp add: ProcessVote_def VerifyNode_def bft_ProcessVote_def hc_ok_def preparedBlock_def committedBlock_def)

lemma hc_ok_ProcessConsensusMessage:
  "hc_ok sha hc \<Longrightarrow> hc_ok sha (fst (ProcessConsensusMessage sha codec now msg hc))"
  by (simp add: ProcessConsensusMessage_def ProcessCommit_eq hc_ok_FinalizeBlock hc_ok_ProcessProposal
      hc_ok_ProcessVote)

lemma hc_ok_run: "hc_ok sha hc \<Longrightarrow> hc_ok sha (hc_run sha codec msgs hc)"
  by (induction sha codec msgs hc rule: hc_run.induct) (simp_all add: hc_ok_ProcessConsensusMessage)

lemma hc_ok_new: "hc_ok sha (NewHybridConsensus oracle)"
  by (simp add: hc_ok_def preparedBlock_def committedBlock_def NewHybridConsensus_def)

text \<open>
  C26: after any messages, every prepared and every committed block sits under the hash of its own
  header and has collected no signature; and every vote the node sent on the way is refused whenever
  it is processed, because the node signs its votes with the zero address.
\<close>

theorem own_votes_never_count:
  defines "reached \<equiv> \<lambda>sha codec msgs oracle. hc_run sha codec msgs (NewHybridConsensus oracle)"
  shows "hc_ok sha (reached sha codec msgs oracle) \<and>
    (\<forall>msg \<in> set (hc_spawned (reached sha codec msgs oracle)). \<forall>now hc.
       ProcessConsensusMessage sha codec now msg hc = (hc, Fail (ErrorString ''invalid consensus message'')))"
proof -
  have "hc_ok sha (reached sha codec msgs oracle)"
    unfolding reached_def by (intro hc_ok_run hc_ok_new)
  then show ?thesis
    by (auto simp: hc_ok_def ProcessConsensusMessage_def validateConsensusMessage_def)
qed

definition demo_proposer :: json_codec where
  "demo_proposer = demo_codec\<lparr>jc_proposal := \<lambda>bs.
     \<lparr>bp_Block = Some (createBlockProposal 0), bp_ProposerAddr = 0, bp_Signature = [], bp_Timestamp = 0\<rparr>\<rparr>"

theorem own_votes_never_count_witness:
  "\<exists>msg. hc_spawned (hc_run (\<lambda>_. 0) demo_proposer [(0, demo_message ''proposal'' 1)] demo_hc) = [msg] \<and>
     ProcessConsensusMessage (\<lambda>_. 0) demo_proposer 1 msg demo_hc =
       (demo_hc, Fail (ErrorString ''invalid consensus message''))"
proof -
  let ?hc = "hc_run (\<lambda>_. 0) demo_proposer [(0, demo_message ''proposal'' 1)] demo_hc"
  have "\<exists>msg. hc_spawned ?hc = [msg]"
    by (simp add: ProcessConsensusMessage_valid(2) demo_message_def ProcessProposal_def hc_ValidateBlock_eq
        demo_proposer_def signVote_def Let_def broadcastVote_def storePrepared_def demo_hc_def
        NewHybridConsensus_def)
  then obtain msg where msg: "hc_spawned ?hc = [msg]" ..
  with own_votes_never_count [of "\<lambda>_. 0" demo_proposer "[(0, demo_message ''proposal'' 1)]"
      "\<lparr>vrf_D = 1, vrf_publicKey = (1, 1)\<rparr>"]
  show ?thesis by (intro exI [of _ msg]) (simp add: demo_hc_def)
qed

lemma ProcessProposal_Some:
  assumes "bp_Block proposal = Some b"
  shows "\<exists>hc'. ProcessProposal sha codec now proposal hc = (hc', Ok ()) \<and>
    map_option pb_Block (preparedBlock hc' (block_key sha b)) = Some b \<and>
    (\<forall>h. h \<noteq> block_key sha b \<longrightarrow> preparedBlock hc' h = preparedBlock hc h) \<and>
    committedBlock hc' = committedBlock hc \<and> hc_currentEpoch hc' = hc_currentEpoch hc \<and>
    length (hc_spawned hc') = Suc (length (hc_spawned hc))"
proof -
  let ?pb = "\<lparr>pb_Block = b, pb_Signatures = fmempty, pb_Timestamp = now\<rparr>"
  obtain v where e: "ProcessProposal sha codec now proposal hc =
      (broadcastVote codec now v (storePrepared sha ?pb hc), Ok ())"
    using assms by (auto simp: ProcessProposal_def hc_ValidateBlock_eq signVote_def Let_def)
  have "preparedBlock (broadcastVote codec now v s) = preparedBlock s" for s
    by (simp add: fun_eq_iff preparedBlock_def broadcastVote_def)
  with e show ?thesis
    by (auto simp: prepared.get_put committedBlock_def fun_eq_iff)
      (auto simp: broadcastVote_def storePrepared_def)
qed

text \<open>
  A proposal is accepted exactly when its bytes decode to a block, whatever the block holds: it is
  stored as prepared under its header hash, one vote leaves, nothing is committed. A proposal or commit
  without a block makes the node panic, unchanged.
\<close>

theorem proposal_and_missing_block:
  assumes "cm_Sender msg \<noteq> 0" and "now - cm_Timestamp msg \<le> 10 * 60 * 1000000000"
  shows "(cm_Type msg = ''proposal'' \<longrightarrow>
      (case bp_Block (jc_proposal codec (cm_Data msg)) of
         None \<Rightarrow> ProcessConsensusMessage sha codec now msg hc = (hc, Panic NilDereference)
       | Some b \<Rightarrow> \<exists>hc'. ProcessConsensusMessage sha codec now msg hc = (hc', Ok ()) \<and>
           map_option pb_Block (preparedBlock hc' (header_hash sha (blk_Header b))) = Some b \<and>
           committedBlock hc' = committedBlock hc \<and> hc_currentEpoch hc' = hc_currentEpoch hc \<and>
           length (hc_spawned hc') = Suc (length (hc_spawned hc)))) \<and>
    (cm_Type msg = ''commit'' \<longrightarrow> cmt_Block (jc_commit codec (cm_Data msg)) = None \<longrightarrow>
      ProcessConsensusMessage sha codec now msg hc = (hc, Panic NilDereference))"
proof (intro conjI impI)
  assume ty: "cm_Type msg = ''proposal''"
  note e = ProcessConsensusMessage_valid(2) [OF assms ty, of sha codec hc]
  show "case bp_Block (jc_proposal codec (cm_Data msg)) of
         None \<Rightarrow> ProcessConsensusMessage sha codec now msg hc = (hc, Panic NilDereference)
       | Some b \<Rightarrow> \<exists>hc'. ProcessConsensusMessage sha codec now msg hc = (hc', Ok ()) \<and>
           map_option pb_Block (preparedBlock hc' (header_hash sha (blk_Header b))) = Some b \<and>
           committedBlock hc' = committedBlock hc \<and> hc_currentEpoch hc' = hc_currentEpoch hc \<and>
           length (hc_spawned hc') = Suc (length (hc_spawned hc))"
  proof (cases "bp_Block (jc_proposal codec (cm_Data msg))")
    case None
    then show ?thesis by (simp add: e ProcessProposal_def hc_ValidateBlock_eq)
  next
    case (Some b)
    from ProcessProposal_Some [OF this, of sha codec now hc] Some show ?thesis
      unfolding e block_key_def by auto
  qed
next
  assume "cm_Type msg = ''commit''" "cmt_Block (jc_commit codec (cm_Data msg)) = None"
  then show "ProcessConsensusMessage sha codec now msg hc = (hc, Panic NilDereference)"
    using assms by (simp add: ProcessConsensusMessage_valid FinalizeBlock_def hasQuorum_def)
qed

theorem proposal_and_missing_block_witness:
  "ProcessConsensusMessage (\<lambda>_. 0) demo_codec 0 (demo_message ''proposal'' 2) demo_hc = (demo_hc, Panic NilDereference) \<and>
   ProcessConsensusMessage (\<lambda>_. 0) demo_codec 0 (demo_message ''commit'' 0) demo_hc = (demo_hc, Panic NilDereference)"
  using proposal_and_missing_block [of "demo_message ''proposal'' 2" 0 "\<lambda>_. 0" demo_codec demo_hc]
    proposal_and_missing_block [of "demo_message ''commit'' 0" 0 "\<lambda>_. 0" demo_codec demo_hc]
  by (simp add: demo_message_def demo_codec_def)

text \<open>
  Votes are counted unchecked: any sender can name any validator in them, and ten votes that call a
  block of the victim invalid take its reputation from whatever multiple of one it had to zero.
\<close>

theorem ten_votes_ruin_a_reputation:
  assumes "\<forall>(now, msg) \<in> set msgs. cm_Type msg = ''vote'' \<and> cm_Sender msg \<noteq> 0 \<and>
      now - cm_Timestamp msg \<le> 10 * 60 * 1000000000 \<and>
      vote_ValidatorAddr (jc_vote codec (cm_Data msg)) = victim \<and> \<not> vote_IsValid (jc_vote codec (cm_Data msg))"
    and "rm_counter (hc_reputationMgr hc) victim = Fin (of_int n)" and "0 \<le> n" and "n \<le> 100"
  shows "rm_counter (hc_reputationMgr (hc_run sha codec msgs hc)) victim =
      Fin (of_int (max 0 (n - 5 * int (length msgs)))) \<and>
    (\<forall>other. other \<noteq> victim \<longrightarrow>
       rm_counter (hc_reputationMgr (hc_run sha codec msgs hc)) other = rm_counter (hc_reputationMgr hc) other)"
  using assms
proof (induction msgs arbitrary: hc n)
  case (Cons m msgs)
  obtain now msg where m: "m = (now, msg)" by fastforce
  define v where "v = jc_vote codec (cm_Data msg)"
  let ?hc = "fst (ProcessConsensusMessage sha codec now msg hc)"
  have "hc_reputationMgr ?hc = UpdateReputation victim False (hc_reputationMgr hc)"
    using Cons.prems(1) by (simp add: m ProcessConsensusMessage_valid ProcessVote_def VerifyNode_def
        bft_ProcessVote_def)
  then have rm: "rm_counter (hc_reputationMgr ?hc) b =
      (if b = victim then Fin (of_int (counter_step False n)) else rm_counter (hc_reputationMgr hc) b)" for b
    using UpdateReputation_counter [OF Cons.prems(2-4)] by simp
  have step: "counter_step False n = max 0 (n - 5)" by (simp add: counter_step_def)
  have "rm_counter (hc_reputationMgr (hc_run sha codec msgs ?hc)) victim =
      Fin (of_int (max 0 (counter_step False n - 5 * int (length msgs)))) \<and>
    (\<forall>other. other \<noteq> victim \<longrightarrow> rm_counter (hc_reputationMgr (hc_run sha codec msgs ?hc)) other =
       rm_counter (hc_reputationMgr ?hc) other)"
    using Cons.prems rm counter_step_range [of n False] by (intro Cons.IH) simp_all
  moreover have "max 0 (counter_step False n - 5 * int (length msgs)) = max 0 (n - 5 * int (length (m # msgs)))"
    unfolding step by simp
  ultimately show ?case using rm m by simp
qed (auto simp: max_def)

theorem ten_votes_ruin_a_reputation_witness:
  "rm_counter (hc_reputationMgr (hc_run (\<lambda>_. 0) demo_codec (replicate 10 (0, demo_message ''vote'' 7))
     demo_hc)) 7 = Fin 0"
proof -
  have "rm_counter (hc_reputationMgr demo_hc) 7 = Fin (of_int 50)"
    by (simp add: rm_counter_def demo_hc_def NewHybridConsensus_def NewReputationManager_def)
  from ten_votes_ruin_a_reputation [of "replicate 10 (0, demo_message ''vote'' 7)" demo_codec 7 demo_hc 50, OF _ this]
  show ?thesis by (simp add: demo_message_def demo_codec_def)
qed

section \<open>Leaders\<close>

lemma pick_cumulative_mem: "pick_cumulative sel w t c ks = Some a \<Longrightarrow> a \<in> set ks"
  by (induction ks arbitrary: c) (auto simp: Let_def split: if_splits)

lemma first_key_mem: "first_key ks = Some a \<Longrightarrow> a \<in> set ks"
  by (cases ks) auto

lemma first_key_None [simp]: "first_key ks = None \<longleftrightarrow> ks = []"
  by (cases ks) auto

lemma key_order_empty: "key_order ks m \<Longrightarrow> ks = [] \<longleftrightarrow> fmlen m = 0"
  by (auto simp: key_order_def fmlen_def simp flip: set_empty)

lemma fmlen_eq_0: "fmlen m = 0 \<longleftrightarrow> m = fmempty"
  by (auto simp: fmlen_def fmdom'_empty intro!: fmap_ext) (metis empty_iff fmdom'_notD)

text \<open>
  Whatever the stakes, the reputations (NaN included) and the orders of the maps, a validator is
  selected if and only if there is one; a round of a node without validators makes the node its own
  leader and gives it a block of height 0 to propose.
\<close>

theorem selection_total:
  assumes "\<forall>i. key_order (ord i) m"
  shows "(case selectValidatorByVRF ord out m of None \<Rightarrow> m = fmempty | Some a \<Rightarrow> fmlookup m a \<noteq> None) \<and>
    (hc_validators hc = fmempty \<longrightarrow> ord' 4 = [] \<longrightarrow>
      vrf_Generate sha curve k (hc_vrfOracle hc) (hc_currentEpoch hc) = Some (Ok (out', bs)) \<longrightarrow>
      (\<exists>hc' b. runConsensusRound sha curve k ord' now hc = Some (Ok (hc', Some b)) \<and>
        hdr_Height (blk_Header b) = 0 \<and> cs_CurrentLeader (hc_consensusState hc') = getSelfAddress))"
proof
  have ne: "ord i = [] \<longleftrightarrow> fmlen m = 0" for i
    using assms key_order_empty by blast
  have mem: "a \<in> set (ord i) \<Longrightarrow> fmlookup m a \<noteq> None" for a i
    using assms by (simp add: key_order_def fmdom'_lookup)
  note len = fmlen_eq_0 [of m]
  show "case selectValidatorByVRF ord out m of None \<Rightarrow> m = fmempty | Some a \<Rightarrow> fmlookup m a \<noteq> None"
    using ne mem len
    by (auto simp: selectValidatorByVRF_def Let_def dest!: first_key_mem pick_cumulative_mem
        split: option.splits if_splits)
next
  show "hc_validators hc = fmempty \<longrightarrow> ord' 4 = [] \<longrightarrow>
      vrf_Generate sha curve k (hc_vrfOracle hc) (hc_currentEpoch hc) = Some (Ok (out', bs)) \<longrightarrow>
      (\<exists>hc' b. runConsensusRound sha curve k ord' now hc = Some (Ok (hc', Some b)) \<and>
        hdr_Height (blk_Header b) = 0 \<and> cs_CurrentLeader (hc_consensusState hc') = getSelfAddress)"
    by (auto simp: runConsensusRound_def selectLeader_def selectValidatorByVRF_def Let_def getSelfAddress_def
        createBlockProposal_def getNextHeight_def signBlock_def)
qed

subsection \<open>Sums of weights\<close>

lemma f64_round_dyadic53: "f64_round x = Fin y \<Longrightarrow> dyadic53 y"
  by (auto simp: f64_round_def Let_def dyadic53_rnd split: if_splits)

definition weight_ok :: "f64 \<Rightarrow> bool" where
  "weight_ok x \<longleftrightarrow> (\<exists>r. x = Fin r \<and> 0 \<le> r \<and> r \<le> pow2 71 \<and> dyadic53 r)"

lemma weight_okE: "weight_ok x \<Longrightarrow> (\<And>r. x = Fin r \<Longrightarrow> 0 \<le> r \<Longrightarrow> r \<le> pow2 71 \<Longrightarrow> dyadic53 r \<Longrightarrow> P) \<Longrightarrow> P"
  by (auto simp: weight_ok_def)

lemma dyadic53_0: "dyadic53 0"
  using dyadic53_int [of 0] by simp

lemma f64_round_nonneg:
  assumes "0 \<le> x" and "x \<le> b" and "dyadic53 b" and "b \<le> pow2 1000"
  shows "f64_round x = Fin (rnd x) \<and> 0 \<le> rnd x \<and> rnd x \<le> b \<and> dyadic53 (rnd x)"
proof -
  have "f64_round x = Fin (rnd x)" using assms by (intro f64_round_finite [THEN conjunct1]) simp
  with assms show ?thesis
    by (auto intro: rnd_bound rnd_bound_ge dyadic53_0 f64_round_dyadic53)
qed

lemma validator_weight_ok:
  assumes "score_ok (val_ReputationScore v)"
  shows "weight_ok (validator_weight v)"
proof -
  from assms obtain r where r: "val_ReputationScore v = Fin r" "0 \<le> r" "r \<le> 100" by (rule score_okE)
  define q :: rat where "q = of_int (uint (val_Stake v))"
  have "uint (val_Stake v) < 2 ^ 64" using unsigned_less [of "val_Stake v", where ?'a = int] by simp
  then have "of_int (uint (val_Stake v)) \<le> (of_int (2 ^ 64) :: rat)"
    unfolding of_int_le_iff by simp
  then have "(of_int (uint (val_Stake v)) :: rat) \<le> pow2 64" by (simp add: pow2_def)
  then have "q \<le> pow2 64" by (simp only: q_def)
  moreover have "0 \<le> q" unfolding q_def by (rule of_int_0_le_iff [THEN iffD2]) simp
  moreover have big: "pow2 64 \<le> pow2 1000" "pow2 71 \<le> pow2 1000" by (simp_all add: pow2_mono)
  ultimately have s: "f64_round q = Fin (rnd q)" "0 \<le> rnd q" "rnd q \<le> pow2 64"
    using f64_round_nonneg [of q "pow2 64"] by (simp_all add: dyadic53_pow2)
  have "rnd q * r \<le> pow2 64 * 128"
    using r s by (intro mult_mono) simp_all
  also have "\<dots> = pow2 71" by (simp add: pow2_def)
  finally have "rnd q * r \<le> pow2 71" .
  moreover have "0 \<le> rnd q * r" using r s by simp
  ultimately show ?thesis
    using f64_round_nonneg [of "rnd q * r" "pow2 71"] big s(1)
    unfolding validator_weight_def f64_of_int_def q_def [symmetric] r(1) weight_ok_def
    by (simp add: dyadic53_pow2)
qed

text \<open>A sum of weights is finite and at least each of them.\<close>

lemma sum_weights:
  assumes "\<forall>a \<in> set ks. weight_ok (w a)" and "length ks < 2 ^ 53"
  shows "\<exists>t. fold (\<lambda>a t. f64_add t (w a)) ks (Fin 0) = Fin t \<and> 0 \<le> t \<and> dyadic53 t \<and>
    t \<le> of_int (int (length ks)) * pow2 71 \<and> (\<forall>a \<in> set ks. \<forall>r. w a = Fin r \<longrightarrow> r \<le> t)"
  using assms
proof (induction ks rule: rev_induct)
  case (snoc a ks)
  then obtain t where t: "fold (\<lambda>a t. f64_add t (w a)) ks (Fin 0) = Fin t" "0 \<le> t" "dyadic53 t"
      "t \<le> of_int (int (length ks)) * pow2 71" "\<forall>a \<in> set ks. \<forall>r. w a = Fin r \<longrightarrow> r \<le> t" by auto
  from snoc.prems(1) obtain r where r: "w a = Fin r" "0 \<le> r" "r \<le> pow2 71" "dyadic53 r"
    by (auto elim: weight_okE)
  let ?n = "int (length (ks @ [a]))"
  let ?b = "of_int ?n * pow2 71"
  have le: "t + r \<le> ?b" using t(4) r(3) by (simp add: distrib_right)
  have n: "\<bar>?n\<bar> \<le> 2 ^ 53" using snoc.prems(2) by simp
  then have b: "dyadic53 ?b" unfolding dyadic53_def by (intro exI [of _ ?n] exI [of _ 71]) simp
  have "of_int ?n \<le> (of_int (2 ^ 53) :: rat)" unfolding of_int_le_iff using n by simp
  then have "?b \<le> pow2 53 * pow2 71" by (intro mult_right_mono) (simp_all add: pow2_def less_imp_le)
  also have "\<dots> \<le> pow2 1000" unfolding pow2_mult [symmetric] by (rule pow2_mono) simp
  finally have "?b \<le> pow2 1000" .
  with f64_round_nonneg [OF _ le b] t r
  have s: "f64_round (t + r) = Fin (rnd (t + r))" "0 \<le> rnd (t + r)" "rnd (t + r) \<le> ?b" "dyadic53 (rnd (t + r))"
    by simp_all
  have "t \<le> rnd (t + r)" "r \<le> rnd (t + r)" using t r by (auto intro: rnd_bound_ge)
  with s t r show ?case by (auto intro: order_trans)
qed (simp add: dyadic53_0)

text \<open>The walk along the weights never adds up to more than the number of steps.\<close>

lemma pick_cumulative_none:
  assumes "\<forall>a \<in> set ks. \<exists>r. w a = Fin r \<and> 0 \<le> r \<and> r \<le> t" and "0 < t"
    and "0 \<le> c" and "c \<le> of_int i" and "i + int (length ks) \<le> 2 ^ 53" and "0 \<le> i"
    and "of_int (i + int (length ks)) < s"
  shows "pick_cumulative (Fin s) w (Fin t) (Fin c) ks = None"
  using assms
proof (induction ks arbitrary: c i)
  case (Cons a ks)
  from Cons.prems(1) obtain r where r: "w a = Fin r" "0 \<le> r" "r \<le> t" by auto
  have "of_int 0 \<le> r / t" "r / t \<le> of_int 1" using r Cons.prems(2) by simp_all
  then have q: "f64_round (r / t) = Fin (rnd (r / t))" "0 \<le> rnd (r / t)" "rnd (r / t) \<le> 1"
    using rnd_add_int [of 0 "r / t" 1] by simp_all
  have "of_int 0 \<le> c + rnd (r / t)" "c + rnd (r / t) \<le> of_int (i + 1)"
    using q Cons.prems(3,4) by simp_all
  moreover have "\<bar>i + 1\<bar> \<le> 2 ^ 53" using Cons.prems(5,6) by simp
  ultimately have c: "f64_round (c + rnd (r / t)) = Fin (rnd (c + rnd (r / t)))"
      "0 \<le> rnd (c + rnd (r / t))" "rnd (c + rnd (r / t)) \<le> of_int (i + 1)"
    using rnd_add_int [of 0 "c + rnd (r / t)" "i + 1"] by simp_all
  have "of_int (i + 1) \<le> (of_int (i + int (length (a # ks))) :: rat)" unfolding of_int_le_iff by simp
  with c(3) Cons.prems(7) have "\<not> s \<le> rnd (c + rnd (r / t))" by linarith
  moreover have "pick_cumulative (Fin s) w (Fin t) (Fin (rnd (c + rnd (r / t)))) ks = None"
    using Cons.prems c by (intro Cons.IH [where i = "i + 1"]) (simp_all add: algebra_simps)
  ultimately show ?case
    using r(1) q(1) c(1) Cons.prems(2) by simp
qed simp

subsection \<open>The value the VRF output is mapped to\<close>

lemma rnd_prec_bracket:
  assumes "0 < x" and "0 < p"
  shows "pow2 (flog2 x) \<le> rnd_prec p x \<and> rnd_prec p x \<le> pow2 (flog2 x + 1)"
proof -
  define u where "u = flog2 x + 1 - int p"
  have lo: "pow2 (flog2 x) = of_int (2 ^ (p - 1)) * pow2 u"
    using pow2_add [of u "p - 1"] assms(2) by (simp add: u_def of_nat_diff)
  have hi: "pow2 (flog2 x + 1) = of_int (2 ^ p) * pow2 u"
    using pow2_add [of u p] by (simp add: u_def)
  note b = flog2_bracket [OF assms(1)]
  have "of_int (2 ^ (p - 1)) \<le> x / pow2 u" "x / pow2 u \<le> of_int (2 ^ p)"
    using b unfolding lo hi pos_le_divide_eq [OF pow2_pos] pos_divide_le_eq [OF pow2_pos] by simp_all
  then have "2 ^ (p - 1) \<le> round_even (x / pow2 u)" "round_even (x / pow2 u) \<le> 2 ^ p"
    using round_even_ge_int round_even_le_int by blast+
  then have "of_int (2 ^ (p - 1)) \<le> (of_int (round_even (x / pow2 u)) :: rat)"
      "(of_int (round_even (x / pow2 u)) :: rat) \<le> of_int (2 ^ p)" by (simp_all only: of_int_le_iff)
  then have "of_int (2 ^ (p - 1)) * pow2 u \<le> of_int (round_even (x / pow2 u)) * pow2 u"
      "of_int (round_even (x / pow2 u)) * pow2 u \<le> of_int (2 ^ p) * pow2 u"
    by (simp_all only: mult_right_mono less_imp_le pow2_pos)
  moreover have "rnd_prec p x = of_int (round_even (x / pow2 u)) * pow2 u"
    using assms(1) by (simp add: rnd_prec_def Let_def u_def)
  ultimately show ?thesis unfolding lo hi by simp
qed

lemma vrf_selection_large:
  assumes "2 ^ (64 + k) \<le> be_nat out" and "be_nat out < 2 ^ 256"
  shows "\<exists>s. vrf_selection out = Fin s \<and> 2 ^ k \<le> s"
proof -
  define x :: rat where "x = of_nat (be_nat out) / (2 ^ 64 - 1)"
  define p where "p = max 64 (nat (bitlen (int (be_nat out))))"
  have "(of_nat (2 ^ (64 + k)) :: rat) \<le> of_nat (be_nat out)" using assms(1) by (simp only: of_nat_le_iff)
  then have v: "2 ^ k * 2 ^ 64 \<le> (of_nat (be_nat out) :: rat)" by (simp add: power_add mult.commute)
  have "(of_nat (be_nat out) :: rat) < of_nat (2 ^ 256)" using assms(2) by (simp only: of_nat_less_iff)
  then have v': "(of_nat (be_nat out) :: rat) < 2 ^ 256" by simp
  have "(2 :: rat) ^ k * (2 ^ 64 - 1) \<le> 2 ^ k * 2 ^ 64" by (intro mult_left_mono) simp_all
  with v have x: "2 ^ k \<le> x" unfolding x_def by (simp add: pos_le_divide_eq)
  have pos: "0 < x" using x by (rule less_le_trans [rotated]) simp
  have "x \<le> of_nat (be_nat out) / 1" unfolding x_def by (intro divide_left_mono) simp_all
  with v' have "x < pow2 256" by (simp add: pow2_def)
  then have "flog2 x < 256"
    using flog2_bracket [OF pos] pow2_mono [of 256 "flog2 x"] by linarith
  then have hi: "pow2 (flog2 x + 1) \<le> pow2 256" by (intro pow2_mono) simp
  have "pow2 (int k) < pow2 (flog2 x + 1)"
    using flog2_bracket [OF pos] x by (simp add: pow2_def [of "int k"])
  then have "int k \<le> flog2 x" using pow2_mono [of "flog2 x + 1" "int k"] by linarith
  then have lo: "pow2 (int k) \<le> pow2 (flog2 x)" by (rule pow2_mono)
  have "0 < p" by (simp add: p_def)
  note r = rnd_prec_bracket [OF pos this]
  have big: "pow2 256 \<le> pow2 1000" by (rule pow2_mono) simp
  have "0 \<le> rnd_prec p x" "rnd_prec p x \<le> pow2 256"
    using r hi pow2_pos [of "flog2 x"] by linarith+
  with big have "f64_round (rnd_prec p x) = Fin (rnd (rnd_prec p x))"
    by (intro f64_round_finite [THEN conjunct1]) simp
  moreover have "pow2 (int k) \<le> rnd (rnd_prec p x)"
    using r lo by (intro rnd_bound_ge dyadic53_pow2) simp_all
  moreover have "pow2 (int k) = 2 ^ k" by (simp add: pow2_def)
  ultimately show ?thesis by (simp add: vrf_selection_def Let_def x_def p_def)
qed

text \<open>
  C30: the VRF output is divided by the largest 64-bit number although it has 256 bits. With fewer than
  \<open>2 ^ k\<close> validators, \<open>k\<close> at most 50, whose reputations are all numbers from 0 to 100 (what the
  reputation counter keeps), every output of at least \<open>2 ^ (64 + k)\<close> passes over all of them: the selection
  is then the first validator of a map iteration, whatever their stakes and whatever the reputations
  are in that range.
\<close>

theorem selection_ignores_stake:
  assumes "\<forall>i. key_order (ord i) m" and "m \<noteq> fmempty" and "fmlen m < 2 ^ k" and "k \<le> 50"
    and "\<forall>a v. fmlookup m a = Some v \<longrightarrow> score_ok (val_ReputationScore v)"
    and "2 ^ (64 + k) \<le> be_nat out" and "be_nat out < 2 ^ 256"
  shows "selectValidatorByVRF ord out m \<in> {first_key (ord 1), first_key (ord 3)}"
proof -
  define w where "w = (\<lambda>a. validator_weight (the (fmlookup m a)))"
  have len: "length (ord i) = fmlen m" for i
    using assms(1) by (metis key_order_def distinct_card fmlen_def)
  have ok: "\<forall>a \<in> set (ord i). weight_ok (w a)" for i
    using assms(1,5) by (fastforce simp: key_order_def w_def fmdom'_lookup intro!: validator_weight_ok)
  have "(2 :: nat) ^ k \<le> 2 ^ 50" using assms(4) by (intro power_increasing) simp_all
  with assms(3) have small: "fmlen m < 2 ^ 50" by simp
  then obtain t where t: "fold (\<lambda>a t. f64_add t (w a)) (ord 0) (Fin 0) = Fin t" "0 \<le> t"
      "\<forall>a \<in> set (ord 0). \<forall>r. w a = Fin r \<longrightarrow> r \<le> t"
    using sum_weights [OF ok [of 0]] len [of 0] by auto
  have "set (ord 2) = set (ord 0)" using assms(1) by (metis key_order_def)
  then have w: "\<forall>a \<in> set (ord 2). \<exists>r. w a = Fin r \<and> 0 \<le> r \<and> r \<le> t"
    using ok [of 2] t(3) by (metis weight_okE)
  from vrf_selection_large [OF assms(6,7)] obtain s where s: "vrf_selection out = Fin s" "2 ^ k \<le> s" by blast
  have "(of_nat (fmlen m) :: rat) < of_nat (2 ^ k)" using assms(3) by (simp only: of_nat_less_iff)
  then have "(of_nat (fmlen m) :: rat) < s" using s(2) by (simp only: of_nat_power of_nat_numeral)
  then have below: "of_int (0 + int (length (ord 2))) < s" by (simp add: len)
  have "pick_cumulative (Fin s) w (Fin t) (Fin 0) (ord 2) = None" if "t \<noteq> 0"
    using that t(2) small by (intro pick_cumulative_none [OF w _ _ _ _ _ below]) (simp_all add: len)
  moreover have "fmlen m \<noteq> 0" using assms(2) by (simp add: fmlen_eq_0)
  moreover have "ord 1 \<noteq> []" using key_order_empty [of "ord 1" m] assms(1) \<open>fmlen m \<noteq> 0\<close> by simp
  moreover have "selectValidatorByVRF ord out m =
      (if t = 0 \<and> ord 1 \<noteq> [] then first_key (ord 1)
       else case pick_cumulative (Fin s) w (Fin t) (Fin 0) (ord 2) of
         Some a \<Rightarrow> Some a | None \<Rightarrow> first_key (ord 3))"
    unfolding selectValidatorByVRF_def Let_def s(1) w_def [symmetric] t(1) using \<open>fmlen m \<noteq> 0\<close> by simp
  ultimately show ?thesis by (cases "t = 0") simp_all
qed

definition demo_validator :: "address \<Rightarrow> u64 \<Rightarrow> validator" where
  "demo_validator a stake = \<lparr>val_Address = a, val_PublicKey = [], val_Stake = stake,
     val_ReputationScore = Fin 50, val_LastActive = 0, val_VRFProof = []\<rparr>"

definition demo_validators :: "(address, validator) fmap" where
  "demo_validators = fmupd 1 (demo_validator 1 1000000) (fmupd 2 (demo_validator 2 0) fmempty)"

definition demo_order :: "nat \<Rightarrow> address list" where
  "demo_order i = (if i = 2 then [1, 2] else [2, 1])"

lemma demo_key_order: "key_order (demo_order i) demo_validators"
  by (auto simp: key_order_def demo_order_def demo_validators_def fmdom'_lookup)

lemma be_nat_one_zeros: "be_nat (1 # replicate n 0) = 256 ^ n"
proof (induction n)
  case 0
  then show ?case by (simp add: be_nat_def)
next
  case (Suc n)
  have "1 # replicate (Suc n) (0 :: byte) = (1 # replicate n 0) @ [0]"
    by (simp add: replicate_append_same)
  with Suc show ?case by (simp only: be_nat_append) simp
qed

theorem selection_ignores_stake_witness:
  "selectValidatorByVRF demo_order (1 # replicate 9 0) demo_validators = Some 2"
proof -
  have "be_nat (1 # replicate 9 0) = 2 ^ 72"
    using be_nat_one_zeros [of 9] by simp
  moreover have "demo_validators \<noteq> fmempty"
    by (metis demo_validators_def fmempty_lookup fmupd_lookup option.distinct(1))
  moreover have "fmlen demo_validators = 2" by (simp add: demo_validators_def)
  moreover have "\<forall>a v. fmlookup demo_validators a = Some v \<longrightarrow> score_ok (val_ReputationScore v)"
    by (auto simp: demo_validators_def demo_validator_def score_ok_def)
  ultimately show ?thesis
    using selection_ignores_stake [of demo_order demo_validators 2 "1 # replicate 9 0"] demo_key_order
    by (simp add: demo_order_def)
qed

theorem selection_total_witness:
  "selectValidatorByVRF demo_order [] demo_validators \<noteq> None"
proof -
  have "demo_validators \<noteq> fmempty"
    by (metis demo_validators_def fmempty_lookup fmupd_lookup option.distinct(1))
  moreover have "\<forall>i. key_order (demo_order i) demo_validators" by (simp add: demo_key_order)
  ultimately show ?thesis
    using selection_total [of demo_order demo_validators "[]", THEN conjunct1] by (auto split: option.splits)
qed

end
