(* ===== verification/Conflict_Resolver.thy ===== *)
theory Conflict_Resolver
  imports Core_Types Go_Float "HOL-Library.Multiset" "HOL-Library.List_Lexorder" "HOL-Library.Char_ord"
begin

text \<open>
  \<open>cap/conflict_resolver.go\<close>: vector clocks and the resolution of conflicting states. A state is of any
  type \<open>'s\<close>; its \<open>%v\<close> formatting, \<open>math.Log2\<close> and \<open>sort.Slice\<close> are arguments, and so are the orders
  in which maps are ranged over. The strategies stored as method values are named by a datatype.
\<close>

section \<open>Data\<close>

datatype conflict_type = ConcurrentWrite | PartitionDivergence | CausalViolation | UnknownConflict

type_synonym clock_map = "(string, u64) fmap"

record vector_clock =
  vc_Clocks :: clock_map

record 's conflicting_state =
  cst_NodeID :: string
  cst_State :: 's
  cst_VectorClock :: "vector_clock option"
  cst_Timestamp :: go_time

record 's state_conflict =
  scf_States :: "'s conflicting_state list"
  scf_Type :: conflict_type
  scf_Timestamp :: go_time

record 's resolved_state =
  rst_State :: 's
  rst_VectorClock :: "vector_clock option"
  rst_Resolution :: string

record conflict_entry =
  ce_Type :: conflict_type
  ce_Timestamp :: go_time
  ce_Participants :: "string list"
  ce_Resolution :: string

datatype resolution_strategy = LastWriterWins | MergeStrategy | CausalStrategy

record conflict_resolver =
  cr_vectorClocks :: "(string, vector_clock) fmap"
  cr_conflictLog :: "conflict_entry list"
  cr_resolutionRules :: "(conflict_type, resolution_strategy) fmap"

definition NewConflictResolver :: conflict_resolver where
  "NewConflictResolver =
     \<lparr>cr_vectorClocks = fmempty, cr_conflictLog = [],
      cr_resolutionRules =
        fmupd CausalViolation CausalStrategy
          (fmupd PartitionDivergence MergeStrategy (fmupd ConcurrentWrite LastWriterWins fmempty))\<rparr>"

text \<open>
  \<open>sort.Slice\<close>: some order of the elements. Its contract is for comparisons that do not panic and
  are a strict weak order; which comparisons it makes otherwise is not said.
\<close>

type_synonym 'a sorter = "('a \<Rightarrow> 'a \<Rightarrow> bool res) \<Rightarrow> 'a list \<Rightarrow> 'a list res"

definition strict_weak_order :: "('a \<Rightarrow> 'a \<Rightarrow> bool) \<Rightarrow> 'a set \<Rightarrow> bool" where
  "strict_weak_order before A \<longleftrightarrow>
     (\<forall>x \<in> A. \<not> before x x) \<and>
     (\<forall>x \<in> A. \<forall>y \<in> A. \<forall>z \<in> A. before x y \<longrightarrow> before y z \<longrightarrow> before x z) \<and>
     (\<forall>x \<in> A. \<forall>y \<in> A. \<forall>z \<in> A. \<not> before x y \<longrightarrow> \<not> before y x \<longrightarrow> \<not> before y z \<longrightarrow> \<not> before z y \<longrightarrow>
        \<not> before x z \<and> \<not> before z x)"

definition sorter_ok :: "'a sorter \<Rightarrow> bool" where
  "sorter_ok srt \<longleftrightarrow>
     (\<forall>before xs. strict_weak_order before (set xs) \<longrightarrow>
        (\<exists>ys. srt (\<lambda>x y. Ok (before x y)) xs = Ok ys \<and> mset ys = mset xs \<and>
          sorted_wrt (\<lambda>x y. \<not> before y x) ys))"

section \<open>Vector clocks\<close>

text \<open>\<open>ord\<close> gives the order of a range over a clock map; a nil clock is dereferenced.\<close>

fun consistent_loop :: "(string \<times> u64) list \<Rightarrow> vector_clock option \<Rightarrow> bool res" where
  "consistent_loop [] vc2 = Ok True"
| "consistent_loop ((nodeID, clock1) # es) vc2 =
     (case vc2 of
        None \<Rightarrow> Panic NilDereference
      | Some vc \<Rightarrow>
          (case fmlookup (vc_Clocks vc) nodeID of
             Some clock2 \<Rightarrow> if clock1 > clock2 then Ok False else consistent_loop es vc2
           | None \<Rightarrow> consistent_loop es vc2))"

definition areClocksCausallyConsistent ::
  "(clock_map \<Rightarrow> (string \<times> u64) list) \<Rightarrow> vector_clock option \<Rightarrow> vector_clock option \<Rightarrow> bool res" where
  "areClocksCausallyConsistent ord vc1 vc2 =
     (case vc1 of None \<Rightarrow> Panic NilDereference | Some vc \<Rightarrow> consistent_loop (ord (vc_Clocks vc)) vc2)"

fun happens_loop :: "(string \<times> u64) list \<Rightarrow> vector_clock option \<Rightarrow> bool \<Rightarrow> bool \<Rightarrow> bool res" where
  "happens_loop [] vc2 lt eq = Ok (lt \<and> \<not> eq)"
| "happens_loop ((nodeID, clock1) # es) vc2 lt eq =
     (case vc2 of
        None \<Rightarrow> Panic NilDereference
      | Some vc \<Rightarrow>
          (case fmlookup (vc_Clocks vc) nodeID of
             None \<Rightarrow> Ok False
           | Some clock2 \<Rightarrow>
               if clock1 > clock2 then Ok False
               else happens_loop es vc2 (if clock1 < clock2 then True else lt)
                      (if clock1 \<noteq> clock2 then False else eq)))"

definition happensBefore ::
  "(clock_map \<Rightarrow> (string \<times> u64) list) \<Rightarrow> vector_clock option \<Rightarrow> vector_clock option \<Rightarrow> bool res" where
  "happensBefore ord vc1 vc2 =
     (case vc1 of None \<Rightarrow> Panic NilDereference | Some vc \<Rightarrow> happens_loop (ord (vc_Clocks vc)) vc2 False True)"

fun merge_entries :: "(string \<times> u64) list \<Rightarrow> clock_map \<Rightarrow> clock_map" where
  "merge_entries [] merged = merged"
| "merge_entries ((nodeID, clock) # es) merged =
     merge_entries es
       (case fmlookup merged nodeID of
          Some current \<Rightarrow> if clock > current then fmupd nodeID clock merged else merged
        | None \<Rightarrow> fmupd nodeID clock merged)"

definition merge_state ::
  "(clock_map \<Rightarrow> (string \<times> u64) list) \<Rightarrow> 's conflicting_state \<Rightarrow> clock_map \<Rightarrow> clock_map res" where
  "merge_state ord state merged =
     (case cst_VectorClock state of
        None \<Rightarrow> Panic NilDereference
      | Some vc \<Rightarrow> Ok (merge_entries (ord (vc_Clocks vc)) merged))"

definition mergeVectorClocks ::
  "(clock_map \<Rightarrow> (string \<times> u64) list) \<Rightarrow> 's conflicting_state list \<Rightarrow> vector_clock res" where
  "mergeVectorClocks ord states =
     bind_res (fold_res (merge_state ord) states fmempty) (\<lambda>m. Ok \<lparr>vc_Clocks = m\<rparr>)"

section \<open>Kinds of conflict\<close>

text \<open>The sum over the frequencies, in the order \<open>ford\<close> of their map.\<close>

definition count_state :: "('s \<Rightarrow> string) \<Rightarrow> 's conflicting_state \<Rightarrow> (string, nat) fmap \<Rightarrow> (string, nat) fmap" where
  "count_state format state frequencies =
     (let key = format (cst_State state) in
      fmupd key (Suc (case fmlookup frequencies key of None \<Rightarrow> 0 | Some n \<Rightarrow> n)) frequencies)"

definition entropy_step :: "(f64 \<Rightarrow> f64) \<Rightarrow> nat \<Rightarrow> string \<times> nat \<Rightarrow> f64 \<Rightarrow> f64" where
  "entropy_step log2 n e entropy =
     (let p = f64_div (f64_of_int (int (snd e))) (f64_of_int (int n)) in
      f64_sub entropy (f64_mul p (log2 p)))"

definition calculateEntropy ::
  "('s \<Rightarrow> string) \<Rightarrow> (f64 \<Rightarrow> f64) \<Rightarrow> ((string, nat) fmap \<Rightarrow> (string \<times> nat) list) \<Rightarrow>
   's conflicting_state list \<Rightarrow> f64" where
  "calculateEntropy format log2 ford states =
     (let frequencies = fold (count_state format) states fmempty; n = length states
      in fold (entropy_step log2 n) (ford frequencies) (Fin 0))"

fun violation_with ::
  "(clock_map \<Rightarrow> (string \<times> u64) list) \<Rightarrow> vector_clock option \<Rightarrow> 's conflicting_state list \<Rightarrow> bool res" where
  "violation_with ord vc [] = Ok False"
| "violation_with ord vc (t # ts) =
     bind_res (areClocksCausallyConsistent ord vc (cst_VectorClock t))
       (\<lambda>ok. if \<not> ok then Ok True else violation_with ord vc ts)"

fun hasCausalViolation ::
  "(clock_map \<Rightarrow> (string \<times> u64) list) \<Rightarrow> 's conflicting_state list \<Rightarrow> bool res" where
  "hasCausalViolation ord [] = Ok False"
| "hasCausalViolation ord (t # ts) =
     bind_res (violation_with ord (cst_VectorClock t) ts)
       (\<lambda>found. if found then Ok True else hasCausalViolation ord ts)"

text \<open>What the resolver takes from outside, gathered in one record.\<close>

record 's resolver_env =
  rv_format :: "'s \<Rightarrow> string"
  rv_log2 :: "f64 \<Rightarrow> f64"
  rv_ford :: "(string, nat) fmap \<Rightarrow> (string \<times> nat) list"
  rv_ord :: "clock_map \<Rightarrow> (string \<times> u64) list"
  rv_sort :: "'s conflicting_state sorter"

definition DetectConflictType :: "'s resolver_env \<Rightarrow> 's state_conflict option \<Rightarrow> conflict_type res" where
  "DetectConflictType env conflict =
     (case conflict of
        None \<Rightarrow> Ok UnknownConflict
      | Some cf \<Rightarrow>
          let states = scf_States cf in
          if states = [] then Ok UnknownConflict
          else if 1 < length states \<and> 1 < card (set (map cst_NodeID states)) then Ok ConcurrentWrite
          else if f64_less (f64_round (8 / 10))
              (calculateEntropy (rv_format env) (rv_log2 env) (rv_ford env) states)
          then Ok PartitionDivergence
          else bind_res (hasCausalViolation (rv_ord env) states) (\<lambda>violation.
            if violation then Ok CausalViolation
            else if 1 < length states then Ok ConcurrentWrite
            else Ok UnknownConflict))"

section \<open>Strategies\<close>

text \<open>Sorting reorders the slice of the caller; the conflict afterwards is returned too.\<close>

definition lastWriterWins ::
  "'s resolver_env \<Rightarrow> 's state_conflict option \<Rightarrow> ('s state_conflict \<times> 's resolved_state) res" where
  "lastWriterWins env conflict =
     (case conflict of
        None \<Rightarrow> Panic NilDereference
      | Some cf \<Rightarrow>
          bind_res (rv_sort env (\<lambda>s t. Ok (cst_Timestamp t < cst_Timestamp s)) (scf_States cf)) (\<lambda>sorted.
            case sorted of
              [] \<Rightarrow> Panic IndexOutOfRange
            | winner # _ \<Rightarrow>
                Ok (cf\<lparr>scf_States := sorted\<rparr>,
                    \<lparr>rst_State = cst_State winner, rst_VectorClock = cst_VectorClock winner,
                     rst_Resolution = ''last_writer_wins''\<rparr>)))"

definition mergeStrategy ::
  "'s resolver_env \<Rightarrow> 's state_conflict option \<Rightarrow> ('s state_conflict \<times> 's resolved_state) res" where
  "mergeStrategy env conflict =
     (case conflict of
        None \<Rightarrow> Panic NilDereference
      | Some cf \<Rightarrow>
          (case scf_States cf of
             [] \<Rightarrow> Panic IndexOutOfRange
           | first # _ \<Rightarrow>
               bind_res (mergeVectorClocks (rv_ord env) (scf_States cf)) (\<lambda>vc.
                 Ok (cf, \<lparr>rst_State = cst_State first, rst_VectorClock = Some vc,
                          rst_Resolution = ''merged''\<rparr>))))"

definition sortByCausalOrder ::
  "'s resolver_env \<Rightarrow> 's conflicting_state list \<Rightarrow> 's conflicting_state list res" where
  "sortByCausalOrder env states =
     rv_sort env (\<lambda>s t. happensBefore (rv_ord env) (cst_VectorClock s) (cst_VectorClock t)) states"

definition causalStrategy ::
  "'s resolver_env \<Rightarrow> 's state_conflict option \<Rightarrow> ('s state_conflict \<times> 's resolved_state) res" where
  "causalStrategy env conflict =
     (case conflict of
        None \<Rightarrow> Panic NilDereference
      | Some cf \<Rightarrow>
          bind_res (sortByCausalOrder env (scf_States cf)) (\<lambda>sorted.
            if sorted = [] then Panic IndexOutOfRange
            else let winner = last sorted in
              Ok (cf\<lparr>scf_States := sorted\<rparr>,
                  \<lparr>rst_State = cst_State winner, rst_VectorClock = cst_VectorClock winner,
                   rst_Resolution = ''causal_order''\<rparr>)))"

definition apply_strategy ::
  "resolution_strategy \<Rightarrow> 's resolver_env \<Rightarrow> 's state_conflict option \<Rightarrow>
   ('s state_conflict \<times> 's resolved_state) res" where
  "apply_strategy st =
     (case st of LastWriterWins \<Rightarrow> lastWriterWins | MergeStrategy \<Rightarrow> mergeStrategy
      | CausalStrategy \<Rightarrow> causalStrategy)"

text \<open>Calling the nil function of a missing rule panics.\<close>

definition resolve_by_rule ::
  "conflict_type \<Rightarrow> conflict_resolver \<Rightarrow> 's resolver_env \<Rightarrow> 's state_conflict option \<Rightarrow>
   ('s state_conflict \<times> 's resolved_state) res" where
  "resolve_by_rule ty cr env conflict =
     (case fmlookup (cr_resolutionRules cr) ty of
        None \<Rightarrow> Panic NilDereference
      | Some st \<Rightarrow> apply_strategy st env conflict)"

definition ResolveConcurrentWrites ::
  "conflict_resolver \<Rightarrow> 's resolver_env \<Rightarrow> 's state_conflict option \<Rightarrow>
   ('s state_conflict \<times> 's resolved_state) res" where
  "ResolveConcurrentWrites = resolve_by_rule ConcurrentWrite"

definition ResolvePartitionDivergence ::
  "conflict_resolver \<Rightarrow> 's resolver_env \<Rightarrow> 's state_conflict option \<Rightarrow>
   ('s state_conflict \<times> 's resolved_state) res" where
  "ResolvePartitionDivergence = resolve_by_rule PartitionDivergence"

definition ResolveCausalViolation ::
  "conflict_resolver \<Rightarrow> 's resolver_env \<Rightarrow> 's state_conflict option \<Rightarrow>
   ('s state_conflict \<times> 's resolved_state) res" where
  "ResolveCausalViolation = resolve_by_rule CausalViolation"

definition DefaultResolution ::
  "'s resolver_env \<Rightarrow> 's state_conflict option \<Rightarrow> ('s state_conflict \<times> 's resolved_state) res" where
  "DefaultResolution env conflict = lastWriterWins env conflict"

definition ReconcileVectorClocks ::
  "(clock_map \<Rightarrow> (string \<times> u64) list) \<Rightarrow> 's resolved_state \<Rightarrow> 's resolved_state res" where
  "ReconcileVectorClocks ord resolved =
     (case rst_VectorClock resolved of
        None \<Rightarrow> Panic NilDereference
      | Some vc \<Rightarrow>
          let merged = fold (\<lambda>(nodeID, clock) m. fmupd nodeID clock m) (ord (vc_Clocks vc)) fmempty
          in Ok (resolved\<lparr>rst_VectorClock := Some \<lparr>vc_Clocks = merged\<rparr>\<rparr>))"

section \<open>Clocks as partial maps\<close>

text \<open>\<open>a\<close> is below \<open>b\<close>: every entry of \<open>a\<close> has one in \<open>b\<close> that is not smaller.\<close>

definition clock_le :: "clock_map \<Rightarrow> clock_map \<Rightarrow> bool" where
  "clock_le a b \<longleftrightarrow> (\<forall>k x. fmlookup a k = Some x \<longrightarrow> (\<exists>y. fmlookup b k = Some y \<and> x \<le> y))"

definition clock_before :: "clock_map \<Rightarrow> clock_map \<Rightarrow> bool" where
  "clock_before a b \<longleftrightarrow> clock_le a b \<and> (\<exists>k x y. fmlookup a k = Some x \<and> fmlookup b k = Some y \<and> x < y)"

definition ord_ok :: "(clock_map \<Rightarrow> (string \<times> u64) list) \<Rightarrow> bool" where
  "ord_ok ord \<longleftrightarrow> (\<forall>m. range_order (ord m) m)"

lemma clock_le_refl [simp]: "clock_le a a"
  by (simp add: clock_le_def)

lemma clock_le_trans: "clock_le a b \<Longrightarrow> clock_le b c \<Longrightarrow> clock_le a c"
  unfolding clock_le_def by (meson order_trans)

lemma happens_loop_eq:
  "happens_loop es (Some \<lparr>vc_Clocks = b\<rparr>) lt eq =
    Ok ((\<forall>(k, x) \<in> set es. \<exists>y. fmlookup b k = Some y \<and> x \<le> y) \<and>
        (lt \<or> (\<exists>(k, x) \<in> set es. \<exists>y. fmlookup b k = Some y \<and> x < y)) \<and>
        (\<not> eq \<or> (\<exists>(k, x) \<in> set es. fmlookup b k \<noteq> Some x)))"
proof (induction es arbitrary: lt eq)
  case (Cons e es)
  obtain k x where e: "e = (k, x)" by fastforce
  show ?case
  proof (cases "fmlookup b k")
    case (Some y)
    consider "x < y" | "x = y" | "y < x" by (rule linorder_cases)
    then show ?thesis
    proof cases
      case 1
      then have "\<not> y < x" "x \<noteq> y" "x \<le> y" by simp_all
      with 1 Some e show ?thesis by (simp add: Cons.IH)
    next
      case 2
      with Some e show ?thesis by (simp add: Cons.IH)
    next
      case 3
      then have "\<not> x \<le> y" by simp
      with 3 Some e show ?thesis by simp
    qed
  qed (simp add: e)
qed simp

lemma happensBefore_eq:
  assumes "ord_ok ord"
  shows "happensBefore ord (Some \<lparr>vc_Clocks = a\<rparr>) (Some \<lparr>vc_Clocks = b\<rparr>) = Ok (clock_before a b)"
proof -
  have mem: "(k, x) \<in> set (ord a) \<longleftrightarrow> fmlookup a k = Some x" for k x
    using assms by (simp add: ord_ok_def range_order_lookup)
  have differ: "\<exists>k x. fmlookup a k = Some x \<and> fmlookup b k \<noteq> Some x"
    if "fmlookup a k = Some x" "fmlookup b k = Some y" "x < y" for k x y
    using that by (intro exI [of _ k] exI [of _ x]) auto
  have "clock_before a b \<longleftrightarrow> (\<forall>(k, x) \<in> set (ord a). \<exists>y. fmlookup b k = Some y \<and> x \<le> y) \<and>
      (\<exists>(k, x) \<in> set (ord a). \<exists>y. fmlookup b k = Some y \<and> x < y) \<and>
      (\<exists>(k, x) \<in> set (ord a). fmlookup b k \<noteq> Some x)"
    unfolding clock_before_def clock_le_def Ball_def Bex_def split_paired_All split_paired_Ex
      case_prod_conv mem using differ by blast
  then show ?thesis
    by (simp add: happensBefore_def happens_loop_eq)
qed

definition entry_sup :: "u64 option \<Rightarrow> u64 option \<Rightarrow> u64 option" where
  "entry_sup r s = (case r of None \<Rightarrow> s | Some x \<Rightarrow> (case s of None \<Rightarrow> Some x | Some y \<Rightarrow> Some (max x y)))"

definition entry_le :: "u64 option \<Rightarrow> u64 option \<Rightarrow> bool" where
  "entry_le r t = (case r of None \<Rightarrow> True | Some x \<Rightarrow> (case t of None \<Rightarrow> False | Some y \<Rightarrow> x \<le> y))"

lemma clock_le_entry: "clock_le a b \<longleftrightarrow> (\<forall>k. entry_le (fmlookup a k) (fmlookup b k))"
  unfolding clock_le_def entry_le_def by (intro iff_allI) (auto split: option.splits)

lemma entry_le_sup:
  "entry_le (entry_sup r s) t \<longleftrightarrow> entry_le r t \<and> entry_le s t"
  by (auto simp: entry_le_def entry_sup_def split: option.splits)

lemma merge_entries_lookup:
  assumes "distinct (map fst es)"
  shows "fmlookup (merge_entries es m) k = entry_sup (map_of es k) (fmlookup m k)"
  using assms
proof (induction es arbitrary: m)
  case (Cons e es)
  obtain n c where e: "e = (n, c)" by fastforce
  have "map_of es n = None" using Cons.prems by (simp add: e map_of_eq_None_iff)
  with Cons e show ?case by (auto simp: max_def entry_sup_def split: option.splits)
qed (simp add: entry_sup_def)

lemma merge_entries_le_iff:
  assumes "range_order es a"
  shows "clock_le (merge_entries es m) b \<longleftrightarrow> clock_le a b \<and> clock_le m b"
proof -
  have "map_of es k = fmlookup a k" for k
    using assms by (auto simp: range_order_def fmlookup_of_list)
  moreover have "distinct (map fst es)" using assms by (simp add: range_order_def)
  ultimately have "fmlookup (merge_entries es m) k = entry_sup (fmlookup a k) (fmlookup m k)" for k
    by (simp add: merge_entries_lookup)
  then show ?thesis
    unfolding clock_le_entry by (auto simp: entry_le_sup)
qed

definition clocks_of :: "'s conflicting_state list \<Rightarrow> clock_map list" where
  "clocks_of states = map (vc_Clocks \<circ> the \<circ> cst_VectorClock) states"

lemma merge_states:
  assumes "ord_ok ord" and "\<forall>t \<in> set states. cst_VectorClock t \<noteq> None"
  shows "\<exists>m'. fold_res (merge_state ord) states m = Ok m' \<and>
    (\<forall>b. clock_le m' b \<longleftrightarrow> clock_le m b \<and> (\<forall>a \<in> set (clocks_of states). clock_le a b))"
  using assms(2)
proof (induction states arbitrary: m)
  case (Cons t states)
  from Cons.prems obtain vc where vc: "cst_VectorClock t = Some vc" by auto
  have "range_order (ord (vc_Clocks vc)) (vc_Clocks vc)" using assms(1) by (simp add: ord_ok_def)
  note le = merge_entries_le_iff [OF this]
  from Cons.IH [of "merge_entries (ord (vc_Clocks vc)) m"] Cons.prems show ?case
    by (auto simp: merge_state_def vc clocks_of_def le)
qed (simp add: clocks_of_def)

lemma merge_state_nil:
  "\<exists>t \<in> set states. cst_VectorClock t = None \<Longrightarrow>
     fold_res (merge_state ord) states m = Panic NilDereference"
  by (induction states arbitrary: m) (auto simp: merge_state_def split: option.splits)

text \<open>
  C29: \<open>mergeVectorClocks\<close> is the least upper bound of the clocks in the entrywise order, whatever the
  orders of the ranges: it is above a clock of every state and below every clock that is. A state
  without a clock makes it panic instead.
\<close>

theorem merge_is_least_upper_bound:
  assumes "ord_ok ord"
  shows "(if \<exists>t \<in> set states. cst_VectorClock t = None
     then mergeVectorClocks ord states = Panic NilDereference
     else \<exists>m. mergeVectorClocks ord states = Ok \<lparr>vc_Clocks = m\<rparr> \<and>
       (\<forall>a \<in> set (clocks_of states). clock_le a m) \<and>
       (\<forall>b. (\<forall>a \<in> set (clocks_of states). clock_le a b) \<longrightarrow> clock_le m b))"
proof (cases "\<exists>t \<in> set states. cst_VectorClock t = None")
  case True
  then show ?thesis by (simp add: mergeVectorClocks_def merge_state_nil)
next
  case False
  with merge_states [OF assms, of states fmempty] obtain m where
    m: "fold_res (merge_state ord) states fmempty = Ok m"
      "\<And>b. clock_le m b \<longleftrightarrow> (\<forall>a \<in> set (clocks_of states). clock_le a b)"
    by (auto simp: clock_le_def)
  then have "\<forall>a \<in> set (clocks_of states). clock_le a m" using m(2) [of m] by simp
  with m False show ?thesis by (simp add: mergeVectorClocks_def)
qed

text \<open>One order of a range that can be computed: by increasing key.\<close>

definition key_sorted :: "('k::linorder, 'v) fmap \<Rightarrow> ('k \<times> 'v) list" where
  "key_sorted m = map (\<lambda>k. (k, the (fmlookup m k))) (sorted_list_of_fset (fmdom m))"

lemma range_order_key_sorted: "range_order (key_sorted m) m"
proof -
  have "distinct (map fst (key_sorted m))" by (simp add: key_sorted_def comp_def sorted_list_of_fset.rep_eq)
  moreover have "fmap_of_list (key_sorted m) = m"
  proof (rule fmap_ext)
    fix k
    have "map_of (map (\<lambda>k. (k, the (fmlookup m k))) ks) k =
        (if k \<in> set ks then Some (the (fmlookup m k)) else None)" for ks
      by (induction ks) auto
    then show "fmlookup (fmap_of_list (key_sorted m)) k = fmlookup m k"
      by (cases "fmlookup m k") (auto simp: fmlookup_of_list key_sorted_def fmdomI fmdom_notI)
  qed
  ultimately show ?thesis by (simp add: range_order_def)
qed

lemma ord_ok_key_sorted: "ord_ok key_sorted"
  by (simp add: ord_ok_def range_order_key_sorted)

definition clock_of :: "(string \<times> u64) list \<Rightarrow> vector_clock option" where
  "clock_of es = Some \<lparr>vc_Clocks = fmap_of_list es\<rparr>"

definition demo_states :: "nat conflicting_state list" where
  "demo_states =
     [\<lparr>cst_NodeID = ''a'', cst_State = 1, cst_VectorClock = clock_of [(''a'', 3), (''b'', 1)], cst_Timestamp = 10\<rparr>,
      \<lparr>cst_NodeID = ''b'', cst_State = 2, cst_VectorClock = clock_of [(''b'', 2)], cst_Timestamp = 30\<rparr>]"

theorem merge_is_least_upper_bound_witness:
  "\<exists>m. mergeVectorClocks key_sorted demo_states = Ok \<lparr>vc_Clocks = m\<rparr> \<and>
     clock_le (fmap_of_list [(''b'', 2)]) m"
  using merge_is_least_upper_bound [OF ord_ok_key_sorted, of demo_states]
  by (auto simp: demo_states_def clock_of_def clocks_of_def)

section \<open>The causal order\<close>

lemma clock_before_irrefl: "\<not> clock_before a a"
  by (simp add: clock_before_def)

lemma clock_before_trans: "clock_before a b \<Longrightarrow> clock_before b c \<Longrightarrow> clock_before a c"
proof -
  assume ab: "clock_before a b" and bc: "clock_before b c"
  then obtain k x y where k: "fmlookup a k = Some x" "fmlookup b k = Some y" "x < y"
    by (auto simp: clock_before_def)
  moreover from bc k(2) obtain z where "fmlookup c k = Some z" "y \<le> z"
    by (auto simp: clock_before_def clock_le_def)
  ultimately have "\<exists>k x y. fmlookup a k = Some x \<and> fmlookup c k = Some y \<and> x < y"
    by (meson less_le_trans)
  with ab bc clock_le_trans show ?thesis unfolding clock_before_def by blast
qed

lemma clock_before_same_nodes:
  assumes "fmdom a = fmdom b"
  shows "clock_before a b \<longleftrightarrow> clock_le a b \<and> a \<noteq> b"
proof
  assume "clock_before a b"
  then show "clock_le a b \<and> a \<noteq> b" using clock_before_irrefl by (auto simp: clock_before_def)
next
  assume le: "clock_le a b \<and> a \<noteq> b"
  then obtain k where k: "fmlookup a k \<noteq> fmlookup b k" using fmap_ext [of a b] by auto
  then obtain x where x: "fmlookup a k = Some x"
    using assms by (metis fmdom_notD fmdom_notI not_None_eq)
  with le obtain y where "fmlookup b k = Some y" "x \<le> y" by (auto simp: clock_le_def)
  with k x le show "clock_before a b" unfolding clock_before_def by (metis order_le_less)
qed

text \<open>
  \<open>happensBefore\<close> is a strict partial order on clocks, and on clocks of the same nodes the usual one
  (at most in every entry and different). A clock that only adds a node is never after the one it
  extends, and three clocks show that being unordered is not transitive, which the contract of
  \<open>sort.Slice\<close> asks of the comparison \<open>sortByCausalOrder\<close> hands to it.
\<close>

theorem happensBefore_partial_order:
  assumes "ord_ok ord"
  shows "happensBefore ord (Some \<lparr>vc_Clocks = a\<rparr>) (Some \<lparr>vc_Clocks = b\<rparr>) = Ok (clock_before a b) \<and>
    \<not> clock_before a a \<and> (clock_before a b \<longrightarrow> clock_before b c \<longrightarrow> clock_before a c) \<and>
    (fmdom a = fmdom b \<longrightarrow> (clock_before a b \<longleftrightarrow> clock_le a b \<and> a \<noteq> b)) \<and>
    (fmlookup a k = None \<longrightarrow> \<not> clock_before a (fmupd k x a)) \<and>
    \<not> strict_weak_order clock_before {fmap_of_list [(''a'', 1)], fmap_of_list [(''b'', 1)], fmap_of_list [(''a'', 2)]}"
proof (intro conjI impI)
  show "happensBefore ord (Some \<lparr>vc_Clocks = a\<rparr>) (Some \<lparr>vc_Clocks = b\<rparr>) = Ok (clock_before a b)"
    by (rule happensBefore_eq [OF assms])
  show "\<not> clock_before a a" by (rule clock_before_irrefl)
  show "clock_before a c" if "clock_before a b" "clock_before b c" using that by (rule clock_before_trans)
  show "clock_before a b \<longleftrightarrow> clock_le a b \<and> a \<noteq> b" if "fmdom a = fmdom b"
    using that by (rule clock_before_same_nodes)
  show "\<not> clock_before a (fmupd k x a)" if "fmlookup a k = None"
    using that by (auto simp: clock_before_def split: if_splits)
  let ?a = "fmap_of_list [(''a'', 1)] :: clock_map" and ?b = "fmap_of_list [(''b'', 1)] :: clock_map"
    and ?c = "fmap_of_list [(''a'', 2)] :: clock_map"
  have "\<not> clock_before ?a ?b" "\<not> clock_before ?b ?a" "\<not> clock_before ?b ?c" "\<not> clock_before ?c ?b"
    by (auto simp: clock_before_def split: if_splits)
  moreover have "clock_before ?a ?c"
    by (auto simp: clock_before_def clock_le_def split: if_splits)
  ultimately show "\<not> strict_weak_order clock_before {?a, ?b, ?c}"
    unfolding strict_weak_order_def by simp
qed

theorem happensBefore_partial_order_witness:
  "happensBefore key_sorted (clock_of [(''a'', 1)]) (clock_of [(''a'', 2)]) = Ok True \<and>
   happensBefore key_sorted (clock_of [(''a'', 1)]) (clock_of [(''a'', 1), (''b'', 1)]) = Ok False"
proof -
  have "clock_before (fmap_of_list [(''a'', 1)]) (fmap_of_list [(''a'', 2)])"
    by (auto simp: clock_before_def clock_le_def split: if_splits)
  moreover have "\<not> clock_before (fmap_of_list [(''a'', 1)]) (fmap_of_list [(''a'', 1), (''b'', 1)])"
    by (auto simp: clock_before_def split: if_splits)
  ultimately show ?thesis
    using happensBefore_partial_order [OF ord_ok_key_sorted, THEN conjunct1]
    by (simp add: clock_of_def)
qed

section \<open>Strategies and kinds\<close>

text \<open>The order of \<open>lastWriterWins\<close> meets the contract of \<open>sort.Slice\<close>.\<close>

lemma later_first_swo: "strict_weak_order (\<lambda>s t. cst_Timestamp t < cst_Timestamp s) A"
  by (auto simp: strict_weak_order_def)

lemma lastWriterWins_latest:
  assumes "sorter_ok (rv_sort env)" and "scf_States cf \<noteq> []"
  shows "\<exists>w ws. mset (w # ws) = mset (scf_States cf) \<and>
    (\<forall>t \<in> set (scf_States cf). cst_Timestamp t \<le> cst_Timestamp w) \<and>
    lastWriterWins env (Some cf) = Ok (cf\<lparr>scf_States := w # ws\<rparr>,
      \<lparr>rst_State = cst_State w, rst_VectorClock = cst_VectorClock w, rst_Resolution = ''last_writer_wins''\<rparr>)"
proof -
  from assms(1) later_first_swo obtain ys where
    ys: "rv_sort env (\<lambda>s t. Ok (cst_Timestamp t < cst_Timestamp s)) (scf_States cf) = Ok ys"
      "mset ys = mset (scf_States cf)" "sorted_wrt (\<lambda>s t. \<not> cst_Timestamp s < cst_Timestamp t) ys"
    unfolding sorter_ok_def by blast
  from ys(2) assms(2) obtain w ws where w: "ys = w # ws" by (cases ys) auto
  have "\<forall>t \<in> set ys. cst_Timestamp t \<le> cst_Timestamp w" using ys(3) w by auto
  then have "\<forall>t \<in> set (scf_States cf). cst_Timestamp t \<le> cst_Timestamp w"
    using ys(2) by (metis mset_eq_setD)
  with ys w show ?thesis by (auto simp: lastWriterWins_def)
qed

lemma ReconcileVectorClocks_same:
  assumes "ord_ok ord" and "rst_VectorClock r = Some vc"
  shows "ReconcileVectorClocks ord r = Ok r"
proof -
  have "fmlookup (fold (\<lambda>(n, c) m. fmupd n c m) es m) k =
      (case map_of es k of None \<Rightarrow> fmlookup m k | Some c \<Rightarrow> Some c)"
    if "distinct (map fst es)" for es :: "(string \<times> u64) list" and m k
    using that
  proof (induction es arbitrary: m)
    case (Cons e es)
    then have "map_of es (fst e) = None" by (simp add: map_of_eq_None_iff)
    with Cons show ?case by (cases e) (auto split: option.splits)
  qed simp
  moreover have "distinct (map fst (ord (vc_Clocks vc)))" "map_of (ord (vc_Clocks vc)) k = fmlookup (vc_Clocks vc) k" for k
    using assms(1) by (auto simp: ord_ok_def range_order_def simp flip: fmlookup_of_list)
  ultimately have "fold (\<lambda>(n, c) m. fmupd n c m) (ord (vc_Clocks vc)) fmempty = vc_Clocks vc"
    by (intro fmap_ext) (simp split: option.splits)
  with assms(2) show ?thesis by (simp add: ReconcileVectorClocks_def)
qed

end
