(* ===== verification/CAP_Orchestrator.thy ===== *)
theory CAP_Orchestrator
  imports Conflict_Resolver
begin

text \<open>
  \<open>cap/orchestrator.go\<close> and \<open>cap/consistency_model.go\<close>: the CAP profile, its adaptive thresholds and
  the resolution of conflicts. The three ticker loops are the steps of \<open>cap_step\<close>; each holds the
  orchestrator's mutex for the whole step.
\<close>

section \<open>Data\<close>

datatype consistency_level = StrongConsistency | EventualConsistency | CausalConsistency | SessionConsistency

record cap_profile =
  cp_ConsistencyLevel :: consistency_level
  cp_AvailabilityTarget :: f64
  cp_PartitionTolerance :: f64
  cp_Timestamp :: go_time

record adaptive_thresholds =
  th_ConsistencyTimeout :: int
  th_RetryAttempts :: int
  th_AvailabilityThreshold :: f64
  th_PartitionProbability :: f64
  th_ConflictThreshold :: f64

record network_telemetry =
  nt_Latencies :: "(string, int) fmap"
  nt_PacketLoss :: "(string, f64) fmap"
  nt_BandwidthUsage :: "(string, f64) fmap"
  nt_NodeConnections :: "(string, int) fmap"

record network_partition =
  np_Nodes :: "string list"
  np_Severity :: f64

record cap_operation =
  op_Type :: string
  op_Timestamp :: go_time

record cap_orchestrator =
  co_conflictResolver :: conflict_resolver
  co_networkTelemetry :: network_telemetry
  co_currentProfile :: cap_profile
  co_adaptiveThresholds :: adaptive_thresholds

definition zero_time :: go_time where \<comment> \<open>year 1\<close>
  "zero_time = - 62135596800 * 1000000000"

definition second :: int where
  "second = 1000000000"

definition NewNetworkTelemetry :: network_telemetry where
  "NewNetworkTelemetry =
     \<lparr>nt_Latencies = fmempty, nt_PacketLoss = fmempty, nt_BandwidthUsage = fmempty,
      nt_NodeConnections = fmempty\<rparr>"

definition NewCAPOrchestrator :: cap_orchestrator where
  "NewCAPOrchestrator =
     \<lparr>co_conflictResolver = NewConflictResolver,
      co_networkTelemetry = NewNetworkTelemetry,
      co_currentProfile =
        \<lparr>cp_ConsistencyLevel = StrongConsistency, cp_AvailabilityTarget = f64_round (999 / 1000),
         cp_PartitionTolerance = f64_round (95 / 100), cp_Timestamp = zero_time\<rparr>,
      co_adaptiveThresholds =
        \<lparr>th_ConsistencyTimeout = 5 * second, th_RetryAttempts = 3,
         th_AvailabilityThreshold = f64_round (95 / 100), th_PartitionProbability = f64_round (1 / 10),
         th_ConflictThreshold = f64_round (5 / 100)\<rparr>\<rparr>"

section \<open>Telemetry, prediction and detection\<close>

definition measureLatencies :: "(string, int) fmap" where
  "measureLatencies = fmupd ''node2'' (100 * 1000000) (fmupd ''node1'' (50 * 1000000) fmempty)"

definition measurePacketLoss :: "(string, f64) fmap" where
  "measurePacketLoss = fmupd ''node2'' (f64_round (2 / 100)) (fmupd ''node1'' (f64_round (1 / 100)) fmempty)"

definition calculatePartitionProbability :: f64 where
  "calculatePartitionProbability = f64_round (1 / 10)"

definition PredictPartitionRisk :: f64 where
  "PredictPartitionRisk = f64_round (1 / 10)"

definition DetectPartitions :: "network_partition list" where
  "DetectPartitions = []"

definition EnforceStrong :: "cap_operation \<Rightarrow> unit res" where
  "EnforceStrong operation = Ok ()"

definition EnforceCausal :: "cap_operation \<Rightarrow> unit res" where
  "EnforceCausal operation = Ok ()"

definition EnforceEventual :: "cap_operation \<Rightarrow> unit res" where
  "EnforceEventual operation = Ok ()"

definition EnforceSession :: "cap_operation \<Rightarrow> unit res" where
  "EnforceSession operation = Ok ()"

definition updateNetworkMetrics :: "cap_orchestrator \<Rightarrow> cap_orchestrator" where
  "updateNetworkMetrics co =
     co\<lparr>co_networkTelemetry := (co_networkTelemetry co)
          \<lparr>nt_Latencies := measureLatencies, nt_PacketLoss := measurePacketLoss\<rparr>,
        co_adaptiveThresholds := (co_adaptiveThresholds co)
          \<lparr>th_PartitionProbability := calculatePartitionProbability\<rparr>\<rparr>"

section \<open>The consistency level\<close>

definition calculateOptimalConsistency :: "f64 \<Rightarrow> consistency_level" where
  "calculateOptimalConsistency partitionRisk =
     (if f64_less (f64_round (7 / 10)) partitionRisk then EventualConsistency
      else if f64_less (f64_round (4 / 10)) partitionRisk then CausalConsistency
      else if f64_less (f64_round (2 / 10)) partitionRisk then SessionConsistency
      else StrongConsistency)"

definition adjustTimeoutsAndRetries :: "consistency_level \<Rightarrow> cap_orchestrator \<Rightarrow> cap_orchestrator" where
  "adjustTimeoutsAndRetries level co =
     (let th = co_adaptiveThresholds co in
      co\<lparr>co_adaptiveThresholds :=
        (case level of
           StrongConsistency \<Rightarrow> th\<lparr>th_ConsistencyTimeout := 5 * second, th_RetryAttempts := 5\<rparr>
         | CausalConsistency \<Rightarrow> th\<lparr>th_ConsistencyTimeout := 3 * second, th_RetryAttempts := 3\<rparr>
         | EventualConsistency \<Rightarrow> th\<lparr>th_ConsistencyTimeout := 1 * second, th_RetryAttempts := 2\<rparr>
         | SessionConsistency \<Rightarrow> th)\<rparr>)"

definition optimizeConsistencyLevel :: "go_time \<Rightarrow> cap_orchestrator \<Rightarrow> cap_orchestrator" where
  "optimizeConsistencyLevel now co =
     (let partitionRisk = PredictPartitionRisk;
          newLevel = calculateOptimalConsistency partitionRisk
      in if newLevel \<noteq> cp_ConsistencyLevel (co_currentProfile co)
         then adjustTimeoutsAndRetries newLevel
           (co\<lparr>co_currentProfile := (co_currentProfile co)
              \<lparr>cp_ConsistencyLevel := newLevel, cp_Timestamp := now\<rparr>\<rparr>)
         else co)"

definition handle_partition :: "network_partition \<Rightarrow> cap_orchestrator \<Rightarrow> cap_orchestrator" where
  "handle_partition part co =
     (let p = co_currentProfile co;
          p = (if f64_less (f64_round (8 / 10)) (np_Severity part)
               then p\<lparr>cp_ConsistencyLevel := EventualConsistency\<rparr> else p)
      in co\<lparr>co_currentProfile := p\<lparr>cp_PartitionTolerance := f64_sub (Fin 1) (np_Severity part)\<rparr>\<rparr>)"

definition handlePartitions :: "network_partition list \<Rightarrow> cap_orchestrator \<Rightarrow> cap_orchestrator" where
  "handlePartitions partitions co = fold handle_partition partitions co"

definition monitor_tick :: "cap_orchestrator \<Rightarrow> cap_orchestrator" where
  "monitor_tick co =
     (let partitions = DetectPartitions in
      if 0 < length partitions then handlePartitions partitions co else co)"

section \<open>Conflicts\<close>

definition ResolveConflict ::
  "'s resolver_env \<Rightarrow> 's state_conflict option \<Rightarrow> cap_orchestrator \<Rightarrow>
   ('s state_conflict \<times> 's resolved_state) res" where
  "ResolveConflict env conflict co =
     (let cr = co_conflictResolver co in
      bind_res (DetectConflictType env conflict) (\<lambda>conflictType.
      bind_res
        (case conflictType of
           ConcurrentWrite \<Rightarrow> ResolveConcurrentWrites cr env conflict
         | PartitionDivergence \<Rightarrow> ResolvePartitionDivergence cr env conflict
         | CausalViolation \<Rightarrow> ResolveCausalViolation cr env conflict
         | UnknownConflict \<Rightarrow> DefaultResolution env conflict) (\<lambda>(cf, resolved).
      bind_res (ReconcileVectorClocks (rv_ord env) resolved) (\<lambda>resolved. Ok (cf, resolved)))))"

section \<open>The level along a run\<close>

text \<open>What the ticker loops do, in any interleaving.\<close>

inductive cap_step :: "cap_orchestrator \<Rightarrow> cap_orchestrator \<Rightarrow> bool" where
  metrics: "cap_step co (updateNetworkMetrics co)"
| optimize: "cap_step co (optimizeConsistencyLevel now co)"
| monitor: "cap_step co (monitor_tick co)"

inductive_cases cap_stepE: "cap_step co co'"

inductive cap_reachable :: "cap_orchestrator \<Rightarrow> bool" where
  start: "cap_reachable NewCAPOrchestrator"
| step: "cap_reachable co \<Longrightarrow> cap_step co co' \<Longrightarrow> cap_reachable co'"

fun weakness :: "consistency_level \<Rightarrow> nat" where
  "weakness StrongConsistency = 0"
| "weakness SessionConsistency = 1"
| "weakness CausalConsistency = 2"
| "weakness EventualConsistency = 3"

text \<open>Levels ordered by the strength of their promise, the weakest being the largest.\<close>

instantiation consistency_level :: linorder
begin

definition less_eq_consistency_level :: "consistency_level \<Rightarrow> consistency_level \<Rightarrow> bool" where
  "less_eq_consistency_level l l' \<longleftrightarrow> weakness l \<le> weakness l'"

definition less_consistency_level :: "consistency_level \<Rightarrow> consistency_level \<Rightarrow> bool" where
  "less_consistency_level l l' \<longleftrightarrow> weakness l < weakness l'"

instance
proof
  have inj: "weakness l = weakness l' \<Longrightarrow> l = l'" for l l' by (cases l; cases l') simp_all
  fix l l' l'' :: consistency_level
  show "l < l' \<longleftrightarrow> l \<le> l' \<and> \<not> l' \<le> l"
    by (auto simp: less_eq_consistency_level_def less_consistency_level_def)
  show "l \<le> l" "l \<le> l' \<Longrightarrow> l' \<le> l'' \<Longrightarrow> l \<le> l''" "l \<le> l' \<or> l' \<le> l"
    by (auto simp: less_eq_consistency_level_def)
  show "l \<le> l' \<Longrightarrow> l' \<le> l \<Longrightarrow> l = l'" using inj by (simp add: less_eq_consistency_level_def)
qed

end

lemma level_constants:
  "f64_round (4 / 10) = Fin (3602879701896397 / 9007199254740992)"
  "f64_round (1 / 10) = Fin (3602879701896397 / 36028797018963968)"
  using f64_roundI [of "- 2" "4 / 10" 7205759403792794] f64_roundI [of "- 4" "1 / 10" 7205759403792794]
  by (simp_all add: pow2_def)

lemma predicted_level: "calculateOptimalConsistency PredictPartitionRisk = StrongConsistency"
  unfolding calculateOptimalConsistency_def PredictPartitionRisk_def level_constants f64_constants
  by simp

lemma cap_step_profile:
  assumes "cap_step co co'" and "co_currentProfile co = co_currentProfile NewCAPOrchestrator"
    and "co_adaptiveThresholds co = co_adaptiveThresholds NewCAPOrchestrator"
  shows "co_currentProfile co' = co_currentProfile NewCAPOrchestrator \<and>
    co_adaptiveThresholds co' = co_adaptiveThresholds NewCAPOrchestrator \<and>
    co_conflictResolver co' = co_conflictResolver co"
  using assms
proof (cases rule: cap_step.cases)
  case metrics
  then show ?thesis
    using assms by (simp add: updateNetworkMetrics_def calculatePartitionProbability_def NewCAPOrchestrator_def)
next
  case (optimize now)
  then show ?thesis
    using assms by (simp add: optimizeConsistencyLevel_def predicted_level NewCAPOrchestrator_def)
next
  case monitor
  then show ?thesis using assms by (simp add: monitor_tick_def DetectPartitions_def)
qed

text \<open>
  A higher partition risk never gives a stronger level; but the predicted risk is a constant, so in
  every reachable state the level is the strong one, its time stamp was never set, and the retries are
  the 3 of the constructor, not the 5 that \<open>adjustTimeoutsAndRetries\<close> gives the strong level.
\<close>

theorem level_never_adapts:
  assumes "cap_reachable co"
  shows "(f64_less r s \<longrightarrow> calculateOptimalConsistency r \<le> calculateOptimalConsistency s) \<and>
    co_currentProfile co = co_currentProfile NewCAPOrchestrator \<and>
    co_adaptiveThresholds co = co_adaptiveThresholds NewCAPOrchestrator \<and>
    cp_ConsistencyLevel (co_currentProfile co) = StrongConsistency \<and>
    th_RetryAttempts (co_adaptiveThresholds co) = 3 \<and>
    th_RetryAttempts (co_adaptiveThresholds (adjustTimeoutsAndRetries StrongConsistency co)) = 5"
proof -
  have "co_currentProfile co = co_currentProfile NewCAPOrchestrator \<and>
      co_adaptiveThresholds co = co_adaptiveThresholds NewCAPOrchestrator"
    using assms by (induction rule: cap_reachable.induct) (use cap_step_profile in blast)+
  moreover have "calculateOptimalConsistency r \<le> calculateOptimalConsistency s"
    if "f64_less r s"
    using f64_less_trans [OF _ that, of "f64_round (7 / 10)"] f64_less_trans [OF _ that, of "f64_round (4 / 10)"]
      f64_less_trans [OF _ that, of "f64_round (2 / 10)"]
    by (simp add: calculateOptimalConsistency_def less_eq_consistency_level_def)
  ultimately show ?thesis
    by (simp add: adjustTimeoutsAndRetries_def Let_def NewCAPOrchestrator_def)
qed

theorem level_never_adapts_witness:
  "cp_ConsistencyLevel (co_currentProfile (optimizeConsistencyLevel 5 (updateNetworkMetrics NewCAPOrchestrator))) =
     StrongConsistency"
proof -
  have "cap_reachable (optimizeConsistencyLevel 5 (updateNetworkMetrics NewCAPOrchestrator))"
    by (rule cap_reachable.step [OF cap_reachable.step [OF cap_reachable.start cap_step.metrics]
          cap_step.optimize])
  then show ?thesis using level_never_adapts by blast
qed

section \<open>Resolving conflicts\<close>

lemma resolve_ConcurrentWrite:
  "ResolveConcurrentWrites NewConflictResolver env conflict = lastWriterWins env conflict"
  by (simp add: ResolveConcurrentWrites_def resolve_by_rule_def NewConflictResolver_def apply_strategy_def)

text \<open>
  C38: states of at least two nodes are resolved by their time stamps alone: the result is the state of a
  latest writer, with that writer's clock as it was and no other's merged in, and it panics when that
  writer has no clock. No conflict at all, or one without states, panics too.
\<close>

theorem conflict_latest_writer:
  assumes "sorter_ok (rv_sort env)" and "ord_ok (rv_ord env)"
    and "1 < card (set (map cst_NodeID (scf_States cf)))"
    and "co_conflictResolver co = NewConflictResolver"
  shows "(\<exists>w \<in> set (scf_States cf). (\<forall>t \<in> set (scf_States cf). cst_Timestamp t \<le> cst_Timestamp w) \<and>
      (case cst_VectorClock w of
         None \<Rightarrow> ResolveConflict env (Some cf) co = Panic NilDereference
       | Some vc \<Rightarrow> \<exists>cf'. ResolveConflict env (Some cf) co =
           Ok (cf', \<lparr>rst_State = cst_State w, rst_VectorClock = Some vc, rst_Resolution = ''last_writer_wins''\<rparr>) \<and>
           mset (scf_States cf') = mset (scf_States cf))) \<and>
    ResolveConflict env None co = Panic NilDereference \<and>
    ResolveConflict env (Some (cf\<lparr>scf_States := []\<rparr>)) co = Panic IndexOutOfRange"
proof (intro conjI)
  have "card (set (map cst_NodeID (scf_States cf))) \<le> length (scf_States cf)"
    using card_length [of "map cst_NodeID (scf_States cf)"] by (simp only: length_map)
  with assms(3) have len: "1 < length (scf_States cf)" by linarith
  then have ne: "scf_States cf \<noteq> []" by auto
  from lastWriterWins_latest [OF assms(1) ne] obtain w ws where
    w: "mset (w # ws) = mset (scf_States cf)" "\<forall>t \<in> set (scf_States cf). cst_Timestamp t \<le> cst_Timestamp w"
      "lastWriterWins env (Some cf) = Ok (cf\<lparr>scf_States := w # ws\<rparr>,
        \<lparr>rst_State = cst_State w, rst_VectorClock = cst_VectorClock w, rst_Resolution = ''last_writer_wins''\<rparr>)"
    by blast
  have "w \<in> set (scf_States cf)" using w(1) by (metis list.set_intros(1) mset_eq_setD)
  have "DetectConflictType env (Some cf) = Ok ConcurrentWrite"
    using assms(3) ne len by (simp add: DetectConflictType_def Let_def)
  then have e: "ResolveConflict env (Some cf) co =
      bind_res (ReconcileVectorClocks (rv_ord env)
        \<lparr>rst_State = cst_State w, rst_VectorClock = cst_VectorClock w, rst_Resolution = ''last_writer_wins''\<rparr>)
        (\<lambda>resolved. Ok (cf\<lparr>scf_States := w # ws\<rparr>, resolved))"
    by (simp add: ResolveConflict_def assms(4) resolve_ConcurrentWrite w(3))
  have "case cst_VectorClock w of
         None \<Rightarrow> ResolveConflict env (Some cf) co = Panic NilDereference
       | Some vc \<Rightarrow> \<exists>cf'. ResolveConflict env (Some cf) co =
           Ok (cf', \<lparr>rst_State = cst_State w, rst_VectorClock = Some vc, rst_Resolution = ''last_writer_wins''\<rparr>) \<and>
           mset (scf_States cf') = mset (scf_States cf)"
  proof (cases "cst_VectorClock w")
    case None
    then show ?thesis by (simp add: e ReconcileVectorClocks_def)
  next
    case (Some vc)
    then show ?thesis
      using ReconcileVectorClocks_same [OF assms(2), of "\<lparr>rst_State = cst_State w,
          rst_VectorClock = Some vc, rst_Resolution = ''last_writer_wins''\<rparr>" vc] w(1)
      by (simp add: e)
  qed
  with \<open>w \<in> set (scf_States cf)\<close> w(2)
  show "\<exists>w \<in> set (scf_States cf). (\<forall>t \<in> set (scf_States cf). cst_Timestamp t \<le> cst_Timestamp w) \<and>
      (case cst_VectorClock w of
         None \<Rightarrow> ResolveConflict env (Some cf) co = Panic NilDereference
       | Some vc \<Rightarrow> \<exists>cf'. ResolveConflict env (Some cf) co =
           Ok (cf', \<lparr>rst_State = cst_State w, rst_VectorClock = Some vc, rst_Resolution = ''last_writer_wins''\<rparr>) \<and>
           mset (scf_States cf') = mset (scf_States cf))" by blast
  show "ResolveConflict env None co = Panic NilDereference"
    by (simp add: ResolveConflict_def DetectConflictType_def DefaultResolution_def lastWriterWins_def)
  have "strict_weak_order (\<lambda>s t. cst_Timestamp t < cst_Timestamp s) (set [])" by (rule later_first_swo)
  then have "rv_sort env (\<lambda>s t. Ok (cst_Timestamp t < cst_Timestamp s)) [] = Ok []"
    using assms(1) unfolding sorter_ok_def by (metis mset_zero_iff mset.simps(1))
  then show "ResolveConflict env (Some (cf\<lparr>scf_States := []\<rparr>)) co = Panic IndexOutOfRange"
    by (simp add: ResolveConflict_def DetectConflictType_def Let_def DefaultResolution_def lastWriterWins_def)
qed

text \<open>A sorter that meets the contract.\<close>

fun insert_res :: "('a \<Rightarrow> 'a \<Rightarrow> bool res) \<Rightarrow> 'a \<Rightarrow> 'a list \<Rightarrow> 'a list res" where
  "insert_res before x [] = Ok [x]"
| "insert_res before x (y # ys) =
     bind_res (before x y) (\<lambda>b. if b then Ok (x # y # ys)
       else bind_res (insert_res before x ys) (\<lambda>zs. Ok (y # zs)))"

fun insertion_sort :: "'a sorter" where
  "insertion_sort before [] = Ok []"
| "insertion_sort before (x # xs) = bind_res (insertion_sort before xs) (insert_res before x)"

lemma strict_weak_order_subset: "strict_weak_order before A \<Longrightarrow> B \<subseteq> A \<Longrightarrow> strict_weak_order before B"
  unfolding strict_weak_order_def by (meson subsetD)

lemma strict_weak_order_trans:
  "strict_weak_order before A \<Longrightarrow> x \<in> A \<Longrightarrow> y \<in> A \<Longrightarrow> z \<in> A \<Longrightarrow> before x y \<Longrightarrow> before y z \<Longrightarrow> before x z"
  unfolding strict_weak_order_def by blast

lemma insert_res_sorted:
  assumes "strict_weak_order before (insert x (set ys))" and "sorted_wrt (\<lambda>x y. \<not> before y x) ys"
  shows "\<exists>zs. insert_res (\<lambda>x y. Ok (before x y)) x ys = Ok zs \<and> mset zs = add_mset x (mset ys) \<and>
    sorted_wrt (\<lambda>x y. \<not> before y x) zs"
  using assms
proof (induction ys)
  case (Cons y ys)
  show ?case
  proof (cases "before x y")
    case True
    have "\<not> before z x" if "z \<in> set (y # ys)" for z
    proof
      assume zx: "before z x"
      note tr = strict_weak_order_trans [OF Cons.prems(1), of z x y]
      have "before z y" using tr zx True that by simp
      moreover have "\<not> before y y" using Cons.prems(1) by (simp add: strict_weak_order_def)
      moreover have "\<not> before z y" if "z \<in> set ys" using that Cons.prems(2) by simp
      ultimately show False using that by auto
    qed
    with True Cons.prems(2) show ?thesis by auto
  next
    case False
    have "strict_weak_order before (insert x (set ys))"
      using Cons.prems(1) by (rule strict_weak_order_subset) auto
    with Cons obtain zs where zs: "insert_res (\<lambda>x y. Ok (before x y)) x ys = Ok zs"
        "mset zs = add_mset x (mset ys)" "sorted_wrt (\<lambda>x y. \<not> before y x) zs" by auto
    have "set zs = insert x (set ys)" using zs(2) by (metis set_mset_add_mset_insert set_mset_mset)
    with zs False Cons.prems(2) show ?thesis by auto
  qed
qed simp

lemma insertion_sort_ok: "sorter_ok insertion_sort"
proof -
  have "strict_weak_order before (set xs) \<Longrightarrow> \<exists>ys. insertion_sort (\<lambda>x y. Ok (before x y)) xs = Ok ys \<and>
      mset ys = mset xs \<and> sorted_wrt (\<lambda>x y. \<not> before y x) ys" for before and xs :: "'a list"
  proof (induction xs)
    case (Cons x xs)
    from Cons.prems have "strict_weak_order before (set xs)" by (rule strict_weak_order_subset) auto
    with Cons.IH obtain ys where ys: "insertion_sort (\<lambda>x y. Ok (before x y)) xs = Ok ys"
        "mset ys = mset xs" "sorted_wrt (\<lambda>x y. \<not> before y x) ys" by blast
    have "set ys = set xs" using ys(2) by (rule mset_eq_setD)
    with Cons.prems insert_res_sorted [of before x ys] ys show ?case by simp
  qed simp
  then show ?thesis unfolding sorter_ok_def by blast
qed

definition demo_env :: "nat resolver_env" where
  "demo_env = \<lparr>rv_format = (\<lambda>_. ''''), rv_log2 = (\<lambda>_. Fin 0), rv_ford = key_sorted, rv_ord = key_sorted,
     rv_sort = insertion_sort\<rparr>"

theorem conflict_latest_writer_witness:
  "\<exists>cf'. ResolveConflict demo_env (Some \<lparr>scf_States = demo_states, scf_Type = ConcurrentWrite, scf_Timestamp = 0\<rparr>)
     NewCAPOrchestrator = Ok (cf', \<lparr>rst_State = 2, rst_VectorClock = clock_of [(''b'', 2)],
       rst_Resolution = ''last_writer_wins''\<rparr>)"
proof -
  let ?cf = "\<lparr>scf_States = demo_states, scf_Type = ConcurrentWrite, scf_Timestamp = 0\<rparr>"
  have "1 < card (set (map cst_NodeID (scf_States ?cf)))" by (simp add: demo_states_def)
  from conflict_latest_writer [of demo_env ?cf NewCAPOrchestrator, OF _ _ this]
  show ?thesis
    by (auto simp: demo_env_def insertion_sort_ok ord_ok_key_sorted NewCAPOrchestrator_def demo_states_def
        clock_of_def)
qed

end
