(* ===== verification/Network_Node.thy ===== *)
theory Network_Node
  imports Network_Pool Core_Chain Merkle_Forest State_Manager Hybrid_Consensus CAP_Orchestrator
begin

text \<open>
  \<open>network/node.go\<close> and the loop of \<open>network/sync.go\<close>: the node that owns the chain, the Merkle forest,
  the consensus engine, the state manager and the mempool, its peers and its message handlers. Peers
  are pointers into \<open>nd_heap\<close>. What is written to a connection is appended to \<open>nd_sent\<close>, in the
  order of the writes or of the goroutines that do them; \<open>nd_closed\<close> lists closed connections. A
  handler runs as one step here; its interleavings with other handlers are in \<open>Node_Threads\<close>.
\<close>

section \<open>Data\<close>

record net_message =
  msg_Type :: string
  msg_Payload :: bytes

record version_message =
  ver_Version :: u32
  ver_NodeID :: string
  ver_NetworkID :: u32
  ver_Height :: u64

record getblocks_message =
  gb_FromHeight :: u64
  gb_ToHeight :: u64

record getdata_message =
  gd_Type :: string
  gd_Hash :: hash

text \<open>What \<open>sendMessage\<close> is called with, one constructor per message type.\<close>

datatype net_payload =
    PVersion version_message
  | PBlocks "block option list"
  | PBlock block
  | PTransaction transaction
  | PGetBlocks getblocks_message

fun payload_type :: "net_payload \<Rightarrow> string" where
  "payload_type (PVersion _) = ''version''"
| "payload_type (PBlocks _) = ''blocks''"
| "payload_type (PBlock _) = ''block''"
| "payload_type (PTransaction _) = ''transaction''"
| "payload_type (PGetBlocks _) = ''getblocks''"

record node =
  nd_config :: node_config
  nd_blockchain :: blockchain
  nd_merkleForest :: merkle_forest
  nd_consensus :: hybrid_consensus
  nd_stateManager :: state_manager
  nd_capOrchestrator :: cap_orchestrator
  nd_p2pNetwork :: p2p_network
  nd_syncManager :: sync_manager
  nd_peers :: "(string, nat) fmap"
  nd_mempool :: mempool
  nd_running :: bool
  nd_stopClosed :: bool
  nd_heap :: "peer list"
  nd_sent :: "(nat \<times> net_payload) list"
  nd_closed :: "nat list"

text \<open>
  What comes from outside: the hash function, the clock, the decoders of \<open>encoding/json\<close>, the result of
  writing to a connection, and the orders of the ranges.
\<close>

record node_env =
  ne_sha :: digest
  ne_now :: go_time
  ne_codec :: json_codec
  ne_block :: "bytes \<Rightarrow> block res"
  ne_transaction :: "bytes \<Rightarrow> transaction res"
  ne_consensus :: "bytes \<Rightarrow> consensus_message res"
  ne_getblocks :: "bytes \<Rightarrow> getblocks_message res"
  ne_getdata :: "bytes \<Rightarrow> getdata_message res"
  ne_version :: "bytes \<Rightarrow> version_message res"
  ne_compress :: "ser_state \<Rightarrow> bytes"
  ne_send :: "nat \<Rightarrow> net_payload \<Rightarrow> unit res"
  ne_state_orders :: "nat \<Rightarrow> ws_orders"
  ne_forest_order :: "nat \<Rightarrow> (u32 \<times> merkle_shard) list"
  ne_shard_orders :: "u32 \<Rightarrow> (u32 \<times> merkle_shard) list"
  ne_peer_order :: "(string, nat) fmap \<Rightarrow> (string \<times> nat) list"
  ne_pool_order :: "(hash, transaction) fmap \<Rightarrow> (hash \<times> transaction) list"

definition NewNode ::
  "node_config \<Rightarrow> blockchain \<Rightarrow> merkle_forest \<Rightarrow> hybrid_consensus \<Rightarrow> state_manager \<Rightarrow> node" where
  "NewNode config chain forest cons sm =
     \<lparr>nd_config = config, nd_blockchain = chain, nd_merkleForest = forest, nd_consensus = cons,
      nd_stateManager = sm, nd_capOrchestrator = NewCAPOrchestrator,
      nd_p2pNetwork = NewP2PNetwork config, nd_syncManager = NewSyncManager, nd_peers = fmempty,
      nd_mempool = NewMempool 10000, nd_running = False, nd_stopClosed = False, nd_heap = [],
      nd_sent = [], nd_closed = []\<rparr>"

text \<open>\<open>if err := f(); err != nil { }\<close>: an error is dropped, a panic is not.\<close>

fun drop_error :: "unit res \<Rightarrow> unit res" where
  "drop_error (Panic p) = Panic p"
| "drop_error r = Ok ()"

section \<open>Peers\<close>

definition peer_at :: "node \<Rightarrow> nat \<Rightarrow> peer" where
  "peer_at n p = nd_heap n ! p"

definition set_peer :: "nat \<Rightarrow> peer \<Rightarrow> node \<Rightarrow> node" where
  "set_peer p q n = n\<lparr>nd_heap := (nd_heap n)[p := q]\<rparr>"

definition sendMessage :: "node_env \<Rightarrow> nat \<Rightarrow> net_payload \<Rightarrow> node \<Rightarrow> node \<times> unit res" where
  "sendMessage env p payload n =
     (let conn = pr_Connection (peer_at n p) in
      (n\<lparr>nd_sent := nd_sent n @ [(conn, payload)]\<rparr>, ne_send env conn payload))"

definition close_connection :: "nat \<Rightarrow> node \<Rightarrow> node" where
  "close_connection conn n = n\<lparr>nd_closed := nd_closed n @ [conn]\<rparr>"

definition broadcast :: "node_env \<Rightarrow> net_payload \<Rightarrow> node \<Rightarrow> node" where
  "broadcast env payload n =
     fold (\<lambda>(_, p) n. fst (sendMessage env p payload n)) (ne_peer_order env (nd_peers n)) n"

definition broadcastBlock :: "node_env \<Rightarrow> block \<Rightarrow> node \<Rightarrow> node" where
  "broadcastBlock env block n = broadcast env (PBlock block) n"

definition broadcastTransaction :: "node_env \<Rightarrow> transaction \<Rightarrow> node \<Rightarrow> node" where
  "broadcastTransaction env tx n = broadcast env (PTransaction tx) n"

definition send_version :: "node_env \<Rightarrow> nat \<Rightarrow> node \<Rightarrow> node \<times> unit res" where
  "send_version env p n =
     sendMessage env p (PVersion \<lparr>ver_Version = 1, ver_NodeID = nc_NodeID (nd_config n),
       ver_NetworkID = nc_NetworkID (nd_config n), ver_Height = GetCurrentHeight (nd_blockchain n)\<rparr>) n"

text \<open>\<open>received\<close> is what \<open>receiveMessage\<close> returns.\<close>

definition accept_version :: "node_env \<Rightarrow> nat \<Rightarrow> net_message res \<Rightarrow> node \<Rightarrow> node \<times> unit res" where
  "accept_version env p received n =
     (case received of
        Fail e \<Rightarrow> (n, Fail e)
      | Panic q \<Rightarrow> (n, Panic q)
      | Ok msg \<Rightarrow>
          if msg_Type msg \<noteq> ''version'' then (n, Fail (ErrorString ''expected version message''))
          else
            (case ne_version env (msg_Payload msg) of
               Fail e \<Rightarrow> (n, Fail e)
             | Panic q \<Rightarrow> (n, Panic q)
             | Ok peerVersion \<Rightarrow>
                 if ver_NetworkID peerVersion \<noteq> nc_NetworkID (nd_config n)
                 then (n, Fail (ErrorString ''network ID mismatch''))
                 else (set_peer p ((peer_at n p)\<lparr>pr_ID := ver_NodeID peerVersion,
                         pr_Version := ver_Version peerVersion\<rparr>) n, Ok ())))"

definition performHandshake :: "node_env \<Rightarrow> nat \<Rightarrow> net_message res \<Rightarrow> node \<Rightarrow> node \<times> unit res" where
  "performHandshake env p received n =
     (let (n, sent) = send_version env p n
      in (case sent of
            Fail e \<Rightarrow> (n, Fail e)
          | Panic q \<Rightarrow> (n, Panic q)
          | Ok _ \<Rightarrow> accept_version env p received n))"

lemmas handshake_defs = performHandshake_def send_version_def accept_version_def

text \<open>The common end of \<open>handleNewConnection\<close> and \<open>connectToPeer\<close>, after the peer was allocated.\<close>

definition greet_peer :: "node_env \<Rightarrow> peer \<Rightarrow> net_message res \<Rightarrow> node \<Rightarrow> node" where
  "greet_peer env peer received n =
     (let p = length (nd_heap n);
          (n, r) = performHandshake env p received (n\<lparr>nd_heap := nd_heap n @ [peer]\<rparr>)
      in case r of
           Ok _ \<Rightarrow> n\<lparr>nd_peers := fmupd (pr_ID (peer_at n p)) p (nd_peers n)\<rparr>
         | _ \<Rightarrow> close_connection (pr_Connection peer) n)"

definition handleNewConnection :: "node_env \<Rightarrow> nat \<Rightarrow> net_message res \<Rightarrow> node \<Rightarrow> node" where
  "handleNewConnection env conn received n =
     greet_peer env \<lparr>pr_ID = '''', pr_Address = '''', pr_Connection = conn, pr_Version = 0,
       pr_LastSeen = ne_now env, pr_ReputationScore = Fin 0\<rparr> received n"

text \<open>\<open>dialled\<close> is the result of \<open>net.Dial\<close>.\<close>

definition connectToPeer :: "node_env \<Rightarrow> string \<Rightarrow> nat res \<Rightarrow> net_message res \<Rightarrow> node \<Rightarrow> node" where
  "connectToPeer env addr dialled received n =
     (case dialled of
        Ok conn \<Rightarrow> greet_peer env \<lparr>pr_ID = '''', pr_Address = addr, pr_Connection = conn, pr_Version = 0,
            pr_LastSeen = ne_now env, pr_ReputationScore = Fin 0\<rparr> received n
      | _ \<Rightarrow> n)"

definition disconnectPeer :: "nat \<Rightarrow> node \<Rightarrow> node" where
  "disconnectPeer p n =
     close_connection (pr_Connection (peer_at n p))
       (n\<lparr>nd_peers := fmdrop (pr_ID (peer_at n p)) (nd_peers n)\<rparr>)"

definition drop_inactive :: "go_time \<Rightarrow> string \<times> nat \<Rightarrow> node \<Rightarrow> node" where
  "drop_inactive now e n =
     (case e of (i, p) \<Rightarrow>
        if now - pr_LastSeen (peer_at n p) > 5 * 60 * 1000000000
        then (close_connection (pr_Connection (peer_at n p)) n)\<lparr>nd_peers := fmdrop i (nd_peers n)\<rparr>
        else n)"

definition updatePeerConnections :: "node_env \<Rightarrow> node \<Rightarrow> node" where
  "updatePeerConnections env n = fold (drop_inactive (ne_now env)) (ne_peer_order env (nd_peers n)) n"

section \<open>Blocks and transactions\<close>

definition nd_validateTransaction :: "transaction \<Rightarrow> node \<Rightarrow> unit res" where
  "nd_validateTransaction tx n =
     (let state = GetCurrentState (nd_stateManager n) in
      case fmlookup (ws_Accounts state) (tx_From tx) of
        None \<Rightarrow> Fail (ErrorString ''sender account not found'')
      | Some sender \<Rightarrow>
          if acc_Balance sender < tx_Value tx then Fail (ErrorString ''insufficient balance'')
          else if tx_Nonce tx \<noteq> acc_Nonce sender then Fail (ErrorString ''invalid nonce'')
          else Ok ())"

definition ProcessBlock :: "node_env \<Rightarrow> block \<Rightarrow> node \<Rightarrow> node \<times> unit res" where
  "ProcessBlock env block n =
     (case hc_ValidateBlock (nd_consensus n) (Some block) of
        Fail e \<Rightarrow> (n, Fail e)
      | Panic p \<Rightarrow> (n, Panic p)
      | Ok _ \<Rightarrow>
          let (bc, r) = AddBlock (ne_sha env) (Unix (ne_now env)) block (nd_blockchain n);
              n = n\<lparr>nd_blockchain := bc\<rparr>
          in (case r of
                Fail e \<Rightarrow> (n, Fail e)
              | Panic p \<Rightarrow> (n, Panic p)
              | Ok _ \<Rightarrow>
                  let (sm, r) = UpdateState (ne_sha env) (ne_compress env) (ne_state_orders env 0)
                        (ne_state_orders env 1) (ne_state_orders env 2) (ne_now env) block (nd_stateManager n);
                      n = n\<lparr>nd_stateManager := sm\<rparr>
                  in (case r of
                        Fail e \<Rightarrow> (n, Fail e)
                      | Panic p \<Rightarrow> (n, Panic p)
                      | Ok _ \<Rightarrow>
                          let n = n\<lparr>nd_mempool := fold (\<lambda>tx. RemoveTransaction (tx_ID tx))
                                (blk_Transactions block) (nd_mempool n)\<rparr>
                          in (broadcastBlock env block n, Ok ()))))"

definition ProcessTransaction :: "node_env \<Rightarrow> transaction \<Rightarrow> node \<Rightarrow> node \<times> unit res" where
  "ProcessTransaction env tx n =
     (case nd_validateTransaction tx n of
        Fail e \<Rightarrow> (n, Fail e)
      | Panic p \<Rightarrow> (n, Panic p)
      | Ok _ \<Rightarrow>
          (case AddTransaction tx (nd_mempool n) of
             (m, Ok _) \<Rightarrow> (broadcastTransaction env tx (n\<lparr>nd_mempool := m\<rparr>), Ok ())
           | (m, r) \<Rightarrow> (n\<lparr>nd_mempool := m\<rparr>, r)))"

definition HandleConsensusMessage :: "node_env \<Rightarrow> consensus_message \<Rightarrow> node \<Rightarrow> node \<times> unit res" where
  "HandleConsensusMessage env msg n =
     (let (hc, r) = ProcessConsensusMessage (ne_sha env) (ne_codec env) (ne_now env) msg (nd_consensus n)
      in (n\<lparr>nd_consensus := hc\<rparr>, r))"

definition pending_block :: "node_env \<Rightarrow> transaction list \<Rightarrow> node \<Rightarrow> block" where
  "pending_block env txs n =
     \<lparr>blk_Header = \<lparr>hdr_Version = 0, hdr_Height = GetCurrentHeight (nd_blockchain n) + 1,
        hdr_Timestamp = Unix (ne_now env), hdr_PrevBlockHash = 0, hdr_MerkleRoot = 0, hdr_StateRoot = 0,
        hdr_AccumulatorRoot = 0, hdr_Nonce = 0, hdr_Difficulty = 0, hdr_ShardID = 0,
        hdr_CrossShardLinks = []\<rparr>,
      blk_Transactions = txs\<rparr>"

definition processPendingTransactions :: "node_env \<Rightarrow> node \<Rightarrow> node \<times> unit res" where
  "processPendingTransactions env n =
     (case GetTransactions (ne_pool_order env (mp_transactions (nd_mempool n))) 100 of
        Fail e \<Rightarrow> (n, Fail e)
      | Panic p \<Rightarrow> (n, Panic p)
      | Ok txs \<Rightarrow>
          if txs = [] then (n, Ok ())
          else let (n, r) = ProcessBlock env (pending_block env txs n) n in (n, drop_error r))"

definition nd_updateNetworkMetrics :: "node \<Rightarrow> node" where
  "nd_updateNetworkMetrics n = n"

definition processRoutineTasks :: "node_env \<Rightarrow> node \<Rightarrow> node \<times> unit res" where
  "processRoutineTasks env n =
     (let n = updatePeerConnections env n;
          (amf, r) = DynamicShardRebalancing (ne_sha env) (ne_now env) (ne_forest_order env 0)
            (ne_forest_order env 1) (ne_shard_orders env) (nd_merkleForest n);
          n = n\<lparr>nd_merkleForest := amf\<rparr>
      in case drop_error r of
           Ok _ \<Rightarrow>
             let (n, r) = processPendingTransactions env n in
             (case r of Ok _ \<Rightarrow> (nd_updateNetworkMetrics n, Ok ()) | _ \<Rightarrow> (n, r))
         | r \<Rightarrow> (n, r))"

section \<open>Message handlers\<close>

text \<open>The loop of \<open>handleGetBlocks\<close>: \<open>i\<close> is 64 bits wide, so it can run for ever.\<close>

partial_function (option) get_blocks :: "blockchain \<Rightarrow> u64 \<Rightarrow> u64 \<Rightarrow> block option list \<Rightarrow> block option list option" where
  "get_blocks bc to i blocks =
     (if i \<le> to \<and> i \<le> GetCurrentHeight bc
      then get_blocks bc to (i + 1)
        (case GetBlockByHeight i bc of Ok b \<Rightarrow> blocks @ [b] | _ \<Rightarrow> blocks)
      else Some blocks)"

definition handleGetBlocks :: "node_env \<Rightarrow> nat \<Rightarrow> bytes \<Rightarrow> node \<Rightarrow> (node \<times> unit res) option" where
  "handleGetBlocks env p payload n =
     (case ne_getblocks env payload of
        Fail e \<Rightarrow> Some (n, Fail e)
      | Panic q \<Rightarrow> Some (n, Panic q)
      | Ok request \<Rightarrow>
          map_option (\<lambda>blocks. sendMessage env p (PBlocks blocks) n)
            (get_blocks (nd_blockchain n) (gb_ToHeight request) (gb_FromHeight request) []))"

definition handleGetData :: "node_env \<Rightarrow> nat \<Rightarrow> bytes \<Rightarrow> node \<Rightarrow> node \<times> unit res" where
  "handleGetData env p payload n =
     (case ne_getdata env payload of
        Fail e \<Rightarrow> (n, Fail e)
      | Panic q \<Rightarrow> (n, Panic q)
      | Ok request \<Rightarrow>
          if gd_Type request = ''block'' then
            (case GetBlock (gd_Hash request) (nd_blockchain n) of
               Fail e \<Rightarrow> (n, Fail e)
             | Panic q \<Rightarrow> (n, Panic q)
             | Ok block \<Rightarrow> sendMessage env p (PBlock block) n)
          else if gd_Type request = ''transaction'' then (n, Ok ())
          else (n, Fail (ErrorString ''unknown data type'')))"

text \<open>Decoding a payload and handing it on.\<close>

definition decoded :: "'a res \<Rightarrow> ('a \<Rightarrow> node \<Rightarrow> node \<times> unit res) \<Rightarrow> node \<Rightarrow> node \<times> unit res" where
  "decoded d f n = (case d of Ok x \<Rightarrow> f x n | Fail e \<Rightarrow> (n, Fail e) | Panic q \<Rightarrow> (n, Panic q))"

definition handleMessage :: "node_env \<Rightarrow> nat \<Rightarrow> net_message \<Rightarrow> node \<Rightarrow> (node \<times> unit res) option" where
  "handleMessage env p msg n =
     (if msg_Type msg = ''block'' then Some (decoded (ne_block env (msg_Payload msg)) (ProcessBlock env) n)
      else if msg_Type msg = ''transaction''
      then Some (decoded (ne_transaction env (msg_Payload msg)) (ProcessTransaction env) n)
      else if msg_Type msg = ''consensus''
      then Some (decoded (ne_consensus env (msg_Payload msg)) (HandleConsensusMessage env) n)
      else if msg_Type msg = ''getblocks'' then handleGetBlocks env p (msg_Payload msg) n
      else if msg_Type msg = ''getdata'' then Some (handleGetData env p (msg_Payload msg) n)
      else Some (n, Fail (ErrorString ''unknown message type'')))"

text \<open>One turn of the loop of \<open>handlePeer\<close>; an error of the connection ends it.\<close>

definition handlePeer :: "node_env \<Rightarrow> nat \<Rightarrow> net_message res \<Rightarrow> node \<Rightarrow> (node \<times> unit res) option" where
  "handlePeer env p received n =
     (case received of
        Ok msg \<Rightarrow>
          map_option (\<lambda>(n, r). (n, drop_error r))
            (handleMessage env p msg (set_peer p ((peer_at n p)\<lparr>pr_LastSeen := ne_now env\<rparr>) n))
      | _ \<Rightarrow> Some (disconnectPeer p n, Ok ()))"

section \<open>Synchronization\<close>

definition requestBlockchainState :: "node_env \<Rightarrow> nat \<Rightarrow> node \<Rightarrow> node" where
  "requestBlockchainState env p n =
     (let height = GetCurrentHeight (nd_blockchain n) in
      fst (sendMessage env p (PGetBlocks \<lparr>gb_FromHeight = height + 1, gb_ToHeight = height + 100\<rparr>) n))"

definition synchronize :: "node_env \<Rightarrow> node \<Rightarrow> node" where
  "synchronize env n =
     (if sy_syncing (nd_syncManager n) then n
      else
        let n = n\<lparr>nd_syncManager := (nd_syncManager n)\<lparr>sy_syncing := True\<rparr>\<rparr>;
            n = fold (\<lambda>(_, p). requestBlockchainState env p) (ne_peer_order env (nd_peers n)) n
        in n\<lparr>nd_syncManager := (nd_syncManager n)\<lparr>sy_syncing := False\<rparr>\<rparr>)"

section \<open>Starting and stopping\<close>

text \<open>\<open>listen\<close> is the result of \<open>net.Listen\<close>; the goroutines it starts are steps of their own.\<close>

definition node_Start :: "nat res \<Rightarrow> node \<Rightarrow> node \<times> unit res" where
  "node_Start listen n =
     (if nd_running n then (n, Fail (ErrorString ''node already running''))
      else
        let n = n\<lparr>nd_running := True\<rparr> in
        case listen of
          Fail e \<Rightarrow> (n, Fail e)
        | Panic p \<Rightarrow> (n, Panic p)
        | Ok listener \<Rightarrow>
            (n\<lparr>nd_p2pNetwork := p2p_Start listener (nd_p2pNetwork n),
               nd_syncManager := sync_Start (nd_syncManager n)\<rparr>, Ok ()))"

definition node_Stop :: "node_env \<Rightarrow> node \<Rightarrow> node \<times> unit res" where
  "node_Stop env n =
     (if \<not> nd_running n then (n, Ok ())
      else
        let n = n\<lparr>nd_running := False\<rparr> in
        case close_channel (nd_stopClosed n) of
          Fail e \<Rightarrow> (n, Fail e)
        | Panic p \<Rightarrow> (n, Panic p)
        | Ok stopped \<Rightarrow>
            let n = n\<lparr>nd_stopClosed := stopped\<rparr>;
                (p2p, r) = p2p_Stop (nd_p2pNetwork n);
                n = n\<lparr>nd_p2pNetwork := p2p\<rparr>
            in (case r of
                  Ok _ \<Rightarrow>
                    let (sm, r) = sync_Stop (nd_syncManager n); n = n\<lparr>nd_syncManager := sm\<rparr>
                    in (case r of
                          Ok _ \<Rightarrow> (fold (\<lambda>(_, p) n. close_connection (pr_Connection (peer_at n p)) n)
                              (ne_peer_order env (nd_peers n)) n, Ok ())
                        | _ \<Rightarrow> (n, r))
                | _ \<Rightarrow> (n, r)))"

section \<open>Frames\<close>

text \<open>Handlers that only write to connections.\<close>

definition only_sends :: "node \<Rightarrow> node \<Rightarrow> bool" where
  "only_sends n n' \<longleftrightarrow> n' = n\<lparr>nd_sent := nd_sent n'\<rparr>"

lemma only_sends_refl [simp]: "only_sends n n"
  by (simp add: only_sends_def)

lemma only_sends_trans: "only_sends n1 n2 \<Longrightarrow> only_sends n2 n3 \<Longrightarrow> only_sends n1 n3"
  unfolding only_sends_def by (metis (no_types, lifting) node.surjective node.update_convs(14))

lemma only_sends_sendMessage [simp]: "only_sends n (fst (sendMessage env p payload n))"
  by (simp add: only_sends_def sendMessage_def Let_def)

lemma only_sends_fold:
  assumes "\<And>x n. only_sends n (f x n)"
  shows "only_sends n (fold f xs n)"
  by (induction xs arbitrary: n) (auto intro: only_sends_trans assms)

lemma only_sends_broadcast [simp]: "only_sends n (broadcast env payload n)"
  unfolding broadcast_def by (rule only_sends_fold) (simp split: prod.split)

lemma only_sends_fields:
  assumes "only_sends n n'"
  shows "nd_blockchain n' = nd_blockchain n" "nd_stateManager n' = nd_stateManager n"
    "nd_mempool n' = nd_mempool n" "nd_peers n' = nd_peers n" "nd_heap n' = nd_heap n"
    "nd_consensus n' = nd_consensus n" "nd_closed n' = nd_closed n" "nd_config n' = nd_config n"
  by (subst assms [unfolded only_sends_def], simp)+

section \<open>Blocks never complete\<close>

lemma ProcessBlock_eq:
  "ProcessBlock env b n =
     (n\<lparr>nd_blockchain := fst (AddBlock (ne_sha env) (Unix (ne_now env)) b (nd_blockchain n))\<rparr>,
      bind_res (snd (AddBlock (ne_sha env) (Unix (ne_now env)) b (nd_blockchain n))) (\<lambda>_.
        case applyTransactions (blk_Transactions b) (copyState (sm_currentState (nd_stateManager n))) of
          Fail e \<Rightarrow> Fail e | Panic p \<Rightarrow> Panic p | Ok _ \<Rightarrow> Panic SliceToArray))"
  by (cases "AddBlock (ne_sha env) (Unix (ne_now env)) b (nd_blockchain n)";
      cases "snd (AddBlock (ne_sha env) (Unix (ne_now env)) b (nd_blockchain n))")
    (simp_all add: ProcessBlock_def hc_ValidateBlock_eq UpdateState_eq Let_def split: res.split)

text \<open>
  \<open>ProcessBlock\<close> succeeds for no block and in no state of the node. A block the chain refuses is
  reported; one the chain accepts stays in the chain, but then the state update reports a
  transaction that does not apply or, when all apply (as in a block without transactions), panics.
  State, mempool and peers see nothing of the block.
\<close>

theorem ProcessBlock_never_succeeds:
  fixes env b n
  defines "added \<equiv> AddBlock (ne_sha env) (Unix (ne_now env)) b (nd_blockchain n)"
  shows "(\<exists>r. ProcessBlock env b n = (n\<lparr>nd_blockchain := fst added\<rparr>, r) \<and> \<not> is_Ok r \<and>
      (\<not> is_Ok (snd added) \<longrightarrow> r = snd added) \<and>
      (is_Ok (snd added) \<longrightarrow> (r = Panic SliceToArray \<longleftrightarrow>
         is_Ok (applyTransactions (blk_Transactions b) (copyState (sm_currentState (nd_stateManager n)))))))"
  unfolding ProcessBlock_eq added_def
  by (cases "snd (AddBlock (ne_sha env) (Unix (ne_now env)) b (nd_blockchain n))")
    (auto simp: applyTransactions_no_panic split: res.split)

lemma pending_block_refused:
  assumes "AddBlock sha t (pending_block env txs n) bc = (bc', r)"
  shows "(\<exists>e. r = Fail e) \<and> bc_blocks bc' = bc_blocks bc \<and> bc_heightToHash bc' = bc_heightToHash bc \<and>
    bc_currentHeight bc' = bc_currentHeight bc"
  using assms
  by (auto simp: AddBlock_def validateBlock_def pending_block_def validateBlockHeader_def Let_def
      split: if_splits)

lemma processPendingTransactions_eq:
  "\<exists>bc. processPendingTransactions env n = (n\<lparr>nd_blockchain := bc\<rparr>, Ok ()) \<and>
     bc_blocks bc = bc_blocks (nd_blockchain n) \<and> bc_heightToHash bc = bc_heightToHash (nd_blockchain n) \<and>
     bc_currentHeight bc = bc_currentHeight (nd_blockchain n)"
proof -
  obtain txs where txs: "GetTransactions (ne_pool_order env (mp_transactions (nd_mempool n))) 100 = Ok txs"
    by (simp add: GetTransactions_100)
  obtain bc r where add: "AddBlock (ne_sha env) (Unix (ne_now env)) (pending_block env txs n) (nd_blockchain n) = (bc, r)"
    by fastforce
  from pending_block_refused [OF add] show ?thesis
    by (cases "txs = []", intro exI [of _ "nd_blockchain n"])
      (auto simp: processPendingTransactions_def txs ProcessBlock_eq add)
qed

section \<open>Runs of the node\<close>

text \<open>
  The steps of the goroutines and of the callers, in any order; a step that panics ends the run, so it
  is not one of these.
\<close>

definition forest_orders :: "node_env \<Rightarrow> (u32, merkle_shard) fmap \<Rightarrow> bool" where
  "forest_orders env m \<longleftrightarrow> range_order (ne_forest_order env 0) m \<and> range_order (ne_forest_order env 1) m \<and>
     (\<forall>i. range_order (ne_shard_orders env i) m)"

inductive node_step :: "digest \<Rightarrow> node \<Rightarrow> node \<Rightarrow> bool" for sha where
  message: "ne_sha env = sha \<Longrightarrow> p < length (nd_heap n) \<Longrightarrow>
    handlePeer env p received n = Some (n', Ok ()) \<Longrightarrow> node_step sha n n'"
| accept: "ne_sha env = sha \<Longrightarrow> node_step sha n (handleNewConnection env conn received n)"
| connect: "ne_sha env = sha \<Longrightarrow> node_step sha n (connectToPeer env addr dialled received n)"
| routine: "ne_sha env = sha \<Longrightarrow> forest_orders env (mf_shards (nd_merkleForest n)) \<Longrightarrow>
    processRoutineTasks env n = (n', Ok ()) \<Longrightarrow> node_step sha n n'"
| submit: "ne_sha env = sha \<Longrightarrow> node_step sha n (fst (ProcessTransaction env tx n))"
| import: "ne_sha env = sha \<Longrightarrow> ProcessBlock env b n = (n', Fail e) \<Longrightarrow> node_step sha n n'"
| sync: "node_step sha n (synchronize env n)"
| start: "node_step sha n (fst (node_Start listen n))"
| stop: "node_Stop env n = (n', Ok ()) \<Longrightarrow> node_step sha n n'"
| voted: "ProcessConsensusMessage sha codec now msg (nd_consensus n) = (hc, r) \<Longrightarrow> \<not> (\<exists>q. r = Panic q) \<Longrightarrow>
    node_step sha n (n\<lparr>nd_consensus := hc\<rparr>)"
| round: "runConsensusRound sha curve k ord now (nd_consensus n) = Some (Ok (hc, proposal)) \<Longrightarrow>
    node_step sha n (n\<lparr>nd_consensus := hc\<rparr>)"
| prove: "forest_GenerateProof sha key i (nd_merkleForest n) = Some (amf, r) \<Longrightarrow>
    node_step sha n (n\<lparr>nd_merkleForest := amf\<rparr>)"
| cross: "CrossShardOperation sha blinding op (nd_merkleForest n) = (amf, r) \<Longrightarrow>
    node_step sha n (n\<lparr>nd_merkleForest := amf\<rparr>)"
| cap: "cap_step (nd_capOrchestrator n) co \<Longrightarrow> node_step sha n (n\<lparr>nd_capOrchestrator := co\<rparr>)"

inductive node_run :: "digest \<Rightarrow> node \<Rightarrow> node \<Rightarrow> bool" for sha n where
  refl: "node_run sha n n"
| step: "node_run sha n n' \<Longrightarrow> node_step sha n' n'' \<Longrightarrow> node_run sha n n''"

text \<open>What no step undoes: the state manager is the same and no transaction left the mempool.\<close>

definition kept :: "node \<Rightarrow> node \<Rightarrow> bool" where
  "kept n n' \<longleftrightarrow> nd_stateManager n' = nd_stateManager n \<and>
     (\<forall>h. pooled (nd_mempool n) h \<noteq> None \<longrightarrow> pooled (nd_mempool n') h \<noteq> None)"

definition peers_ok :: "node \<Rightarrow> bool" where
  "peers_ok n \<longleftrightarrow> (\<forall>i p. fmlookup (nd_peers n) i = Some p \<longrightarrow>
     p < length (nd_heap n) \<and> pr_ID (peer_at n p) = i)"

lemma kept_refl [simp]: "kept n n"
  by (simp add: kept_def)

lemma kept_trans: "kept n1 n2 \<Longrightarrow> kept n2 n3 \<Longrightarrow> kept n1 n3"
  by (simp add: kept_def)

lemma kept_same: "nd_stateManager n' = nd_stateManager n \<Longrightarrow> nd_mempool n' = nd_mempool n \<Longrightarrow> kept n n'"
  by (simp add: kept_def)

lemma only_sends_kept [simp]: "only_sends n n' \<Longrightarrow> kept n n'"
  by (intro kept_same) (rule only_sends_fields, assumption)+

lemma peers_ok_same:
  "nd_peers n' = nd_peers n \<Longrightarrow> nd_heap n' = nd_heap n \<Longrightarrow> peers_ok n' = peers_ok n"
  by (simp add: peers_ok_def peer_at_def)

lemma only_sends_peers_ok: "only_sends n n' \<Longrightarrow> peers_ok n' = peers_ok n"
  by (intro peers_ok_same) (rule only_sends_fields, assumption)+

text \<open>Handlers that leave the peers alone and keep what is kept.\<close>

definition calm :: "node \<Rightarrow> node \<Rightarrow> bool" where
  "calm n n' \<longleftrightarrow> kept n n' \<and> nd_peers n' = nd_peers n \<and> nd_heap n' = nd_heap n"

lemma calm_peers_ok: "calm n n' \<Longrightarrow> peers_ok n' = peers_ok n"
  unfolding calm_def by (intro peers_ok_same) simp_all

lemma calm_refl [simp]: "calm n n"
  by (simp add: calm_def)

lemma calm_trans: "calm n1 n2 \<Longrightarrow> calm n2 n3 \<Longrightarrow> calm n1 n3"
  unfolding calm_def by (auto intro: kept_trans)

lemma only_sends_calm: "only_sends n n' \<Longrightarrow> calm n n'"
  by (simp add: calm_def only_sends_fields)

lemma calm_chain [simp]: "calm n (n\<lparr>nd_blockchain := bc\<rparr>)" "calm n (n\<lparr>nd_consensus := hc\<rparr>)"
  "calm n (n\<lparr>nd_merkleForest := amf\<rparr>)" "calm n (n\<lparr>nd_capOrchestrator := co\<rparr>)"
  by (simp_all add: calm_def kept_def)

lemma calm_ProcessBlock: "calm n (fst (ProcessBlock env b n))"
  by (simp add: ProcessBlock_eq)

lemma calm_ProcessTransaction: "calm n (fst (ProcessTransaction env tx n))"
proof (cases "nd_validateTransaction tx n")
  case (Ok u)
  obtain m r where m: "AddTransaction tx (nd_mempool n) = (m, r)" by fastforce
  then have "pooled (nd_mempool n) h \<noteq> None \<Longrightarrow> pooled m h \<noteq> None" for h
    by (auto simp: AddTransaction_def pool.get_put split: if_splits)
  then have "calm n (n\<lparr>nd_mempool := m\<rparr>)" by (simp add: calm_def kept_def)
  moreover have "calm (n\<lparr>nd_mempool := m\<rparr>) (broadcastTransaction env tx (n\<lparr>nd_mempool := m\<rparr>))"
    unfolding broadcastTransaction_def by (rule only_sends_calm) simp
  ultimately show ?thesis
    using Ok m calm_trans by (cases r) (auto simp: ProcessTransaction_def)
qed (simp_all add: ProcessTransaction_def)

lemma calm_HandleConsensusMessage: "calm n (fst (HandleConsensusMessage env msg n))"
  by (simp add: HandleConsensusMessage_def split: prod.split)

lemma calm_handleMessage:
  assumes "handleMessage env p msg n = Some (n', r)"
  shows "calm n n'"
proof -
  have send: "calm n (fst (sendMessage env p payload n))" for payload
    by (rule only_sends_calm) simp
  have dec: "calm n (fst (decoded d f n))" if "\<And>x. calm n (fst (f x n))" for d :: "'a res" and f
    using that by (simp add: decoded_def split: res.split)
  have "calm n (fst (handleGetData env p payload n))" for payload
    using send by (simp add: handleGetData_def split: res.split)
  moreover have "handleGetBlocks env p payload n = Some (n', r) \<Longrightarrow> calm n n'" for payload
    using send by (auto simp: handleGetBlocks_def split: res.splits) (metis fst_conv)
  moreover have "decoded (ne_block env pl) (ProcessBlock env) n = (n', r) \<Longrightarrow> calm n n'"
      "decoded (ne_transaction env pl) (ProcessTransaction env) n = (n', r) \<Longrightarrow> calm n n'"
      "decoded (ne_consensus env pl) (HandleConsensusMessage env) n = (n', r) \<Longrightarrow> calm n n'" for pl
    using dec [of "ProcessBlock env" "ne_block env pl"] dec [of "ProcessTransaction env" "ne_transaction env pl"]
      dec [of "HandleConsensusMessage env" "ne_consensus env pl"]
      calm_ProcessBlock calm_ProcessTransaction calm_HandleConsensusMessage by simp_all
  ultimately show ?thesis
    using assms by (auto simp: handleMessage_def split: if_splits) (metis fst_conv)+
qed

lemma peer_at_append [simp]: "p < length (nd_heap n) \<Longrightarrow> peer_at (n\<lparr>nd_heap := nd_heap n @ qs\<rparr>) p = peer_at n p"
  by (simp add: peer_at_def nth_append)

lemma set_peer_fields [simp]:
  "nd_peers (set_peer p q n) = nd_peers n" "length (nd_heap (set_peer p q n)) = length (nd_heap n)"
  "nd_stateManager (set_peer p q n) = nd_stateManager n" "nd_mempool (set_peer p q n) = nd_mempool n"
  "nd_closed (set_peer p q n) = nd_closed n"
  by (simp_all add: set_peer_def)

lemma peer_at_set_peer:
  "p < length (nd_heap n) \<Longrightarrow> peer_at (set_peer p q n) r = (if r = p then q else peer_at n r)"
  by (simp add: peer_at_def set_peer_def nth_list_update)

text \<open>The handshake touches the peer it greets and nothing else.\<close>

lemma performHandshake_frame:
  assumes "performHandshake env p received n = (n', r)" and "p < length (nd_heap n)"
  shows "nd_peers n' = nd_peers n \<and> length (nd_heap n') = length (nd_heap n) \<and> kept n n' \<and>
    nd_closed n' = nd_closed n \<and>
    (\<forall>q. q \<noteq> p \<longrightarrow> peer_at n' q = peer_at n q) \<and> pr_Connection (peer_at n' p) = pr_Connection (peer_at n p)"
proof -
  obtain m s where sm: "send_version env p n = (m, s)" by fastforce
  then have m: "only_sends n m" by (metis fst_conv only_sends_sendMessage send_version_def)
  note f = only_sends_fields [OF m]
  have pm: "peer_at m = peer_at n" by (simp add: fun_eq_iff peer_at_def f)
  from assms(1) have "n' = m \<or> (\<exists>v :: version_message. n' = set_peer p ((peer_at m p)\<lparr>pr_ID := ver_NodeID v, pr_Version := ver_Version v\<rparr>) m)"
    by (auto simp: performHandshake_def accept_version_def sm split: res.splits if_splits)
  then show ?thesis
    using assms(2) f pm by (auto simp: peer_at_set_peer kept_def)
qed

lemma greet_peer_frame:
  "kept n (greet_peer env q received n)"
  "peers_ok n \<Longrightarrow> peers_ok (greet_peer env q received n)"
proof -
  let ?p = "length (nd_heap n)" and ?m = "n\<lparr>nd_heap := nd_heap n @ [q]\<rparr>"
  obtain n' r where h: "performHandshake env ?p received ?m = (n', r)" by fastforce
  have "?p < length (nd_heap ?m)" by simp
  note fr = performHandshake_frame [OF h this]
  have g: "greet_peer env q received n = (case r of
      Ok _ \<Rightarrow> n'\<lparr>nd_peers := fmupd (pr_ID (peer_at n' ?p)) ?p (nd_peers n')\<rparr>
    | _ \<Rightarrow> close_connection (pr_Connection q) n')"
    by (simp add: greet_peer_def Let_def h)
  have "kept n ?m" by (simp add: kept_def)
  with fr show "kept n (greet_peer env q received n)"
    unfolding g by (auto simp: kept_def close_connection_def split: res.split)
  assume ok: "peers_ok n"
  have old: "peer_at n' x = peer_at n x" if "x < ?p" for x
    using fr that by simp
  have len: "length (nd_heap n') = Suc ?p" using fr by simp
  have "peers_ok n'"
    unfolding peers_ok_def
  proof (intro allI impI)
    fix i x
    assume "fmlookup (nd_peers n') i = Some x"
    then have "fmlookup (nd_peers n) i = Some x" using fr by simp
    then have "x < ?p" "pr_ID (peer_at n x) = i" using ok by (simp_all add: peers_ok_def)
    then show "x < length (nd_heap n') \<and> pr_ID (peer_at n' x) = i" by (simp add: old len)
  qed
  with len show "peers_ok (greet_peer env q received n)"
    unfolding g by (auto simp: peers_ok_def close_connection_def peer_at_def split: res.split)
qed

lemma disconnectPeer_frame:
  "kept n (disconnectPeer p n)" "peers_ok n \<Longrightarrow> peers_ok (disconnectPeer p n)"
  by (auto simp: disconnectPeer_def close_connection_def kept_def peers_ok_def peer_at_def split: if_splits)

text \<open>Inactive peers are dropped exactly.\<close>

definition inactive :: "go_time \<Rightarrow> peer \<Rightarrow> bool" where
  "inactive now q \<longleftrightarrow> now - pr_LastSeen q > 5 * 60 * 1000000000"

lemma drop_inactive_fold:
  "nd_heap (fold (drop_inactive now) es n) = nd_heap n \<and> kept n (fold (drop_inactive now) es n) \<and>
   fmlookup (nd_peers (fold (drop_inactive now) es n)) i =
     (if \<exists>p. (i, p) \<in> set es \<and> inactive now (peer_at n p) then None else fmlookup (nd_peers n) i)"
proof (induction es arbitrary: n)
  case (Cons e es)
  obtain j p where e: "e = (j, p)" by fastforce
  let ?n = "drop_inactive now e n"
  have heap: "nd_heap ?n = nd_heap n" and k: "kept n ?n"
    by (simp_all add: e drop_inactive_def close_connection_def kept_def)
  have peers: "fmlookup (nd_peers ?n) i = (if i = j \<and> inactive now (peer_at n p) then None else fmlookup (nd_peers n) i)"
    by (simp add: e drop_inactive_def inactive_def close_connection_def)
  have "peer_at ?n = peer_at n" by (simp add: fun_eq_iff peer_at_def heap)
  with Cons.IH [of ?n] heap peers k show ?case
    by (auto simp: e intro: kept_trans)
qed simp

lemma updatePeerConnections_lookup:
  assumes "range_order (ne_peer_order env (nd_peers n)) (nd_peers n)"
  shows "fmlookup (nd_peers (updatePeerConnections env n)) i =
    (case fmlookup (nd_peers n) i of None \<Rightarrow> None
     | Some p \<Rightarrow> if inactive (ne_now env) (peer_at n p) then None else Some p)"
  using drop_inactive_fold [of "ne_now env" "ne_peer_order env (nd_peers n)" n i]
  by (auto simp: updatePeerConnections_def range_order_lookup [OF assms] split: option.splits)

lemma updatePeerConnections_frame:
  "kept n (updatePeerConnections env n)" "peers_ok n \<Longrightarrow> peers_ok (updatePeerConnections env n)"
proof -
  let ?es = "ne_peer_order env (nd_peers n)"
  note d = drop_inactive_fold [of "ne_now env" ?es n]
  show "kept n (updatePeerConnections env n)" using d by (simp add: updatePeerConnections_def)
  have heap: "nd_heap (updatePeerConnections env n) = nd_heap n"
    using d by (simp add: updatePeerConnections_def)
  have sub: "fmlookup (nd_peers n) i = Some p"
    if "fmlookup (nd_peers (updatePeerConnections env n)) i = Some p" for i p
    using that d [of i] by (simp add: updatePeerConnections_def split: if_splits)
  show "peers_ok (updatePeerConnections env n)" if "peers_ok n"
    using that sub unfolding peers_ok_def peer_at_def heap by blast
qed

lemma processRoutineTasks_frame:
  assumes "processRoutineTasks env n = (n', r)"
  shows "kept n n'" "peers_ok n \<Longrightarrow> peers_ok n'"
proof -
  let ?m = "updatePeerConnections env n"
  obtain amf r1 where d: "DynamicShardRebalancing (ne_sha env) (ne_now env) (ne_forest_order env 0)
      (ne_forest_order env 1) (ne_shard_orders env) (nd_merkleForest ?m) = (amf, r1)" by fastforce
  let ?f = "?m\<lparr>nd_merkleForest := amf\<rparr>"
  obtain bc where bc: "processPendingTransactions env ?f = (?f\<lparr>nd_blockchain := bc\<rparr>, Ok ())"
    using processPendingTransactions_eq [of env ?f] by blast
  have "n' = ?f \<or> n' = ?f\<lparr>nd_blockchain := bc\<rparr>"
    using assms unfolding processRoutineTasks_def Let_def d prod.case bc nd_updateNetworkMetrics_def
    by (cases r1) simp_all
  then have calm: "calm ?m n'"
  proof
    assume "n' = ?f"
    then show ?thesis by (simp only: calm_chain)
  next
    assume n': "n' = ?f\<lparr>nd_blockchain := bc\<rparr>"
    show ?thesis unfolding n' by (rule calm_trans [OF calm_chain(3) calm_chain(1)])
  qed
  show "kept n n'"
    using updatePeerConnections_frame(1) calm [unfolded calm_def, THEN conjunct1] by (rule kept_trans)
  show "peers_ok n'" if "peers_ok n"
    using updatePeerConnections_frame(2) [OF that] calm_peers_ok [OF calm] by simp
qed

lemma synchronize_calm: "calm n (synchronize env n)"
proof -
  let ?m = "n\<lparr>nd_syncManager := (nd_syncManager n)\<lparr>sy_syncing := True\<rparr>\<rparr>"
  let ?f = "fold (\<lambda>(_, p). requestBlockchainState env p) (ne_peer_order env (nd_peers n)) ?m"
  have "only_sends m (requestBlockchainState env p m)" for m p
    by (simp add: requestBlockchainState_def Let_def)
  then have "only_sends ?m ?f" by (intro only_sends_fold) (simp split: prod.split)
  note f = only_sends_fields [OF this]
  show ?thesis
    by (simp add: synchronize_def Let_def calm_def kept_def f)
qed

lemma close_all:
  "\<exists>cs. fold (\<lambda>(_, p) n. close_connection (pr_Connection (peer_at n p)) n) es n = n\<lparr>nd_closed := cs\<rparr>"
proof (induction es arbitrary: n)
  case Nil
  show ?case by (rule exI [of _ "nd_closed n"]) simp
next
  case (Cons e es)
  from Cons [of "close_connection (pr_Connection (peer_at n (snd e))) n"] show ?case
    by (cases e) (auto simp: close_connection_def)
qed

lemma node_Start_calm: "calm n (fst (node_Start listen n))"
  by (simp add: node_Start_def Let_def calm_def kept_def split: res.split)

lemma node_Stop_calm:
  assumes "node_Stop env n = (n', r)"
  shows "calm n n'"
proof -
  have fields: "nd_stateManager (fold (\<lambda>(_, p) n. close_connection (pr_Connection (peer_at n p)) n) es m) = nd_stateManager m"
    "nd_mempool (fold (\<lambda>(_, p) n. close_connection (pr_Connection (peer_at n p)) n) es m) = nd_mempool m"
    "nd_peers (fold (\<lambda>(_, p) n. close_connection (pr_Connection (peer_at n p)) n) es m) = nd_peers m"
    "nd_heap (fold (\<lambda>(_, p) n. close_connection (pr_Connection (peer_at n p)) n) es m) = nd_heap m" for es m
    using close_all [of es m] by auto
  from assms have "nd_stateManager n' = nd_stateManager n \<and> nd_mempool n' = nd_mempool n \<and>
      nd_peers n' = nd_peers n \<and> nd_heap n' = nd_heap n"
    by (auto simp: node_Stop_def Let_def fields split: prod.splits res.splits if_splits)
  then show ?thesis by (simp add: calm_def kept_def)
qed

lemma handlePeer_frame:
  assumes "handlePeer env p received n = Some (n', r)" and "p < length (nd_heap n)"
  shows "kept n n' \<and> (peers_ok n \<longrightarrow> peers_ok n')"
proof (cases received)
  case (Ok msg)
  let ?m = "set_peer p ((peer_at n p)\<lparr>pr_LastSeen := ne_now env\<rparr>) n"
  obtain r' where "handleMessage env p msg ?m = Some (n', r')"
    using assms(1) Ok by (auto simp: handlePeer_def)
  then have calm: "calm ?m n'" by (rule calm_handleMessage)
  have "kept n ?m" by (simp add: kept_def)
  then have "kept n n'" using calm unfolding calm_def by (blast intro: kept_trans)
  moreover have "peers_ok ?m" if "peers_ok n"
    using that assms(2) by (auto simp: peers_ok_def peer_at_set_peer)
  ultimately show ?thesis using calm_peers_ok [OF calm] by simp
qed (use assms disconnectPeer_frame in \<open>auto simp: handlePeer_def\<close>)

lemma node_step_frame:
  assumes "node_step sha n n'"
  shows "kept n n' \<and> (peers_ok n \<longrightarrow> peers_ok n')"
proof -
  have calm: "kept m m' \<and> (peers_ok m \<longrightarrow> peers_ok m')" if "calm m m'" for m m'
    using that calm_peers_ok [OF that] by (simp add: calm_def)
  from assms show ?thesis
  proof (cases rule: node_step.cases)
    case (message env p received)
    then show ?thesis using handlePeer_frame by blast
  next
    case (accept env conn received)
    then show ?thesis by (simp add: handleNewConnection_def greet_peer_frame)
  next
    case (connect env addr dialled received)
    then show ?thesis by (simp add: connectToPeer_def greet_peer_frame split: res.split)
  next
    case (routine env)
    then show ?thesis using processRoutineTasks_frame by blast
  next
    case (submit env tx)
    then show ?thesis using calm [OF calm_ProcessTransaction] by simp
  next
    case (import env b e)
    then show ?thesis using calm [OF calm_ProcessBlock, of n env b] by simp
  next
    case (sync env)
    then show ?thesis using calm [OF synchronize_calm] by simp
  next
    case (start listen)
    then show ?thesis using calm [OF node_Start_calm] by simp
  next
    case (stop env)
    then show ?thesis using calm [OF node_Stop_calm] by blast
  next
    case (voted codec now msg hc r)
    then show ?thesis using calm [OF calm_chain(2)] by simp
  next
    case (round curve k ord now hc proposal)
    then show ?thesis using calm [OF calm_chain(2)] by simp
  next
    case (prove key i amf r)
    then show ?thesis using calm [OF calm_chain(3)] by simp
  next
    case (cross blinding op amf r)
    then show ?thesis using calm [OF calm_chain(3)] by simp
  next
    case (cap co)
    then show ?thesis using calm [OF calm_chain(4)] by simp
  qed
qed

lemma node_run_frame: "node_run sha n n' \<Longrightarrow> kept n n' \<and> (peers_ok n \<longrightarrow> peers_ok n')"
proof (induction rule: node_run.induct)
  case (step n' n'')
  from node_step_frame [OF step.hyps(2)] step.IH show ?case by (blast intro: kept_trans)
qed simp

text \<open>
  Whatever messages, connections, timer ticks, submissions, starts and stops a node goes through, its
  state manager stays the one it was given and no transaction leaves its mempool, so after 10000 accepted
  transactions every further one is refused for good.
\<close>

theorem nothing_is_ever_confirmed:
  assumes "node_run sha n n'"
  shows "nd_stateManager n' = nd_stateManager n \<and>
    (\<forall>h. pooled (nd_mempool n) h \<noteq> None \<longrightarrow> pooled (nd_mempool n') h \<noteq> None) \<and>
    (\<forall>env b. \<not> is_Ok (snd (ProcessBlock env b n')))"
proof -
  have "\<not> is_Ok (snd (ProcessBlock env b n'))" for env b
    by (cases "snd (AddBlock (ne_sha env) (Unix (ne_now env)) b (nd_blockchain n'))")
      (auto simp: ProcessBlock_eq split: res.split)
  with node_run_frame [OF assms] show ?thesis by (simp add: kept_def)
qed

text \<open>
  In every state a new node can reach, the peer table maps each ID to an allocated peer that claims
  this very ID; and the routine check removes exactly the peers silent for more than five minutes.
\<close>

theorem peer_table_sound:
  assumes "node_run sha (NewNode config chain forest cons sm) n"
    and "range_order (ne_peer_order env (nd_peers n)) (nd_peers n)"
  shows "(\<forall>i p. fmlookup (nd_peers n) i = Some p \<longrightarrow> p < length (nd_heap n) \<and> pr_ID (nd_heap n ! p) = i) \<and>
    (\<forall>i. fmlookup (nd_peers (updatePeerConnections env n)) i =
      (case fmlookup (nd_peers n) i of None \<Rightarrow> None
       | Some p \<Rightarrow> if ne_now env - pr_LastSeen (nd_heap n ! p) > 300000000000 then None else Some p))"
proof -
  have "peers_ok (NewNode config chain forest cons sm)" by (simp add: peers_ok_def NewNode_def)
  with node_run_frame [OF assms(1)] have "peers_ok n" by blast
  then show ?thesis
    unfolding updatePeerConnections_lookup [OF assms(2)] peers_ok_def inactive_def peer_at_def
    by (simp split: option.split)
qed

section \<open>Serving blocks\<close>

definition blocks_at :: "blockchain \<Rightarrow> nat \<Rightarrow> block option list" where
  "blocks_at bc k = (case GetBlockByHeight (of_nat k) bc of Ok b \<Rightarrow> [b] | _ \<Rightarrow> [])"

lemma get_blocks_step:
  "get_blocks bc to i blocks =
     (if i \<le> min to (GetCurrentHeight bc) then get_blocks bc to (i + 1) (blocks @ blocks_at bc (unat i))
      else Some blocks)"
  by (subst get_blocks.simps) (auto simp: blocks_at_def split: res.split)

lemma get_blocks_ends:
  assumes "min to (GetCurrentHeight bc) < - 1"
  shows "get_blocks bc to i blocks =
    Some (blocks @ concat (map (blocks_at bc) [unat i..<Suc (unat (min to (GetCurrentHeight bc)))]))"
proof (induction "Suc (unat (min to (GetCurrentHeight bc))) - unat i" arbitrary: i blocks)
  case 0
  then have "\<not> i \<le> min to (GetCurrentHeight bc)" by (simp add: word_le_nat_alt)
  with 0 show ?case by (subst get_blocks_step) auto
next
  case (Suc d)
  let ?m = "min to (GetCurrentHeight bc)"
  have le: "unat i \<le> unat ?m" using Suc.hyps(2) by linarith
  then have i: "i \<le> ?m" by (simp only: word_le_nat_alt)
  from i assms have "i < - 1" by (rule le_less_trans)
  then have "unat i < 2 ^ 64 - 1"
    by (simp add: word_less_nat_alt unsigned_minus_1_eq_mask mask_eq_exp_minus_1)
  then have inc: "unat (i + 1) = Suc (unat i)" by (simp add: unat_word_ariths)
  then have "d = Suc (unat ?m) - unat (i + 1)" using Suc.hyps(2) by linarith
  from Suc.hyps(1) [OF this] have "get_blocks bc to i blocks =
      Some ((blocks @ blocks_at bc (unat i)) @ concat (map (blocks_at bc) [Suc (unat i)..<Suc (unat ?m)]))"
    using i inc by (subst get_blocks_step) simp
  moreover have "[unat i..<Suc (unat ?m)] = unat i # [Suc (unat i)..<Suc (unat ?m)]"
    using le by (simp add: upt_conv_Cons)
  ultimately show ?case by simp
qed

lemma get_blocks_diverges:
  assumes "GetCurrentHeight bc = - 1"
  shows "get_blocks bc (- 1) i blocks = None"
proof -
  have "\<not> (bc' = bc \<and> to = - 1)" if "get_blocks bc' to i blocks = Some r" for bc' to i blocks r
  proof (rule get_blocks.raw_induct [where P = "\<lambda>b t _ _ _. \<not> (b = bc \<and> t = - 1)", OF _ that])
    fix f b t i blocks y
    assume IH: "\<And>b t i blocks y. f b t i blocks = Some y \<Longrightarrow> \<not> (b = bc \<and> t = - 1)"
      and eq: "(if i \<le> t \<and> i \<le> GetCurrentHeight b
         then f b t (i + 1) (case GetBlockByHeight i b of Ok x \<Rightarrow> blocks @ [x] | _ \<Rightarrow> blocks)
         else Some blocks) = Some y"
    show "\<not> (b = bc \<and> t = - 1)"
    proof
      assume e: "b = bc \<and> t = - 1"
      with eq assms have "f b t (i + 1) (case GetBlockByHeight i b of Ok x \<Rightarrow> blocks @ [x] | _ \<Rightarrow> blocks) = Some y"
        by simp
      from IH [OF this] e show False by simp
    qed
  qed
  then show ?thesis by (metis not_None_eq)
qed

text \<open>
  C31: a request for blocks is answered with one message that holds, in order, the blocks the height index
  has between the requested heights, up to the current height; a range with nothing in it gives an empty
  message. Only when the chain is at the largest 64-bit height and the request asks for it does the
  counter wrap and the handler never return.
\<close>

theorem handleGetBlocks_answers:
  fixes n
  assumes "ne_getblocks env payload = Ok request"
  defines "m \<equiv> min (gb_ToHeight request) (GetCurrentHeight (nd_blockchain n))"
  shows "(m < - 1 \<longrightarrow> handleGetBlocks env p payload n =
      Some (sendMessage env p (PBlocks (concat (map (blocks_at (nd_blockchain n))
        [unat (gb_FromHeight request)..<Suc (unat m)]))) n)) \<and>
    (m = - 1 \<longrightarrow> handleGetBlocks env p payload n = None)"
proof (intro conjI impI)
  assume "m < - 1"
  then show "handleGetBlocks env p payload n =
      Some (sendMessage env p (PBlocks (concat (map (blocks_at (nd_blockchain n))
        [unat (gb_FromHeight request)..<Suc (unat m)]))) n)"
    by (simp only: handleGetBlocks_def assms(1) res.case m_def get_blocks_ends option.map append_Nil)
next
  assume "m = - 1"
  then have "gb_ToHeight request = - 1" "GetCurrentHeight (nd_blockchain n) = - 1"
    by (metis m_def min.cobounded1 word_order.extremum_uniqueI,
        metis \<open>m = - 1\<close> m_def min.cobounded2 word_order.extremum_uniqueI)
  then show "handleGetBlocks env p payload n = None"
    by (simp add: handleGetBlocks_def assms(1) get_blocks_diverges)
qed

definition demo_node_env :: node_env where
  "demo_node_env = \<lparr>ne_sha = height_digest, ne_now = 0, ne_codec = demo_codec,
     ne_block = (\<lambda>_. Fail (ErrorString ''json'')), ne_transaction = (\<lambda>_. Ok (demo_tx 5)),
     ne_consensus = (\<lambda>_. Fail (ErrorString ''json'')),
     ne_getblocks = (\<lambda>_. Ok \<lparr>gb_FromHeight = 0, gb_ToHeight = 7\<rparr>),
     ne_getdata = (\<lambda>_. Fail (ErrorString ''json'')),
     ne_version = (\<lambda>_. Ok \<lparr>ver_Version = 1, ver_NodeID = ''peer'', ver_NetworkID = 1, ver_Height = 0\<rparr>),
     ne_compress = (\<lambda>_. []), ne_send = (\<lambda>_ _. Ok ()),
     ne_state_orders = (\<lambda>_. \<lparr>wo_accounts = [], wo_contracts = [], wo_shards = []\<rparr>),
     ne_forest_order = (\<lambda>_. []), ne_shard_orders = (\<lambda>_. []),
     ne_peer_order = key_sorted, ne_pool_order = key_sorted\<rparr>"

definition demo_node :: node where
  "demo_node = NewNode (DefaultConfig []) (NewBlockchain height_digest 0) (NewAdaptiveMerkleForest 0)
     demo_hc (NewStateManager 0)"

definition demo_version :: "net_message res" where
  "demo_version = Ok \<lparr>msg_Type = ''version'', msg_Payload = []\<rparr>"

theorem ProcessBlock_never_succeeds_witness:
  "\<exists>r. snd (ProcessBlock demo_node_env (demo_block 1 1 0) demo_node) = r \<and> \<not> is_Ok r"
  using ProcessBlock_never_succeeds [of demo_node_env "demo_block 1 1 0" demo_node] by auto

theorem nothing_is_ever_confirmed_witness:
  "nd_stateManager (handleNewConnection demo_node_env 3 demo_version demo_node) = NewStateManager 0"
proof -
  have "node_run height_digest demo_node (handleNewConnection demo_node_env 3 demo_version demo_node)"
    by (rule node_run.step [OF node_run.refl node_step.accept]) (simp add: demo_node_env_def)
  from nothing_is_ever_confirmed [OF this] show ?thesis by (simp add: demo_node_def NewNode_def)
qed

theorem peer_table_sound_witness:
  "fmlookup (nd_peers (updatePeerConnections demo_node_env
     (handleNewConnection demo_node_env 3 demo_version demo_node))) ''other'' = None"
proof -
  let ?n = "handleNewConnection demo_node_env 3 demo_version demo_node"
  have run: "node_run height_digest demo_node ?n"
    by (rule node_run.step [OF node_run.refl node_step.accept]) (simp add: demo_node_env_def)
  have "range_order (ne_peer_order demo_node_env (nd_peers ?n)) (nd_peers ?n)"
    by (simp add: demo_node_env_def range_order_key_sorted)
  from peer_table_sound [OF run [unfolded demo_node_def] this [unfolded demo_node_def]]
  have "fmlookup (nd_peers (updatePeerConnections demo_node_env ?n)) ''other'' =
      (case fmlookup (nd_peers ?n) ''other'' of None \<Rightarrow> None
       | Some p \<Rightarrow> if ne_now demo_node_env - pr_LastSeen (nd_heap ?n ! p) > 300000000000 then None else Some p)"
    unfolding demo_node_def by blast
  moreover have "fmlookup (nd_peers ?n) ''other'' = None"
    by (simp add: handleNewConnection_def greet_peer_def handshake_defs sendMessage_def Let_def
        demo_node_env_def demo_node_def NewNode_def demo_version_def DefaultConfig_def peer_at_def set_peer_def)
  ultimately show ?thesis by simp
qed

theorem handleGetBlocks_answers_witness:
  "\<exists>bs. handleGetBlocks demo_node_env 0 [] demo_node = Some (sendMessage demo_node_env 0 (PBlocks bs) demo_node)"
proof -
  have "GetCurrentHeight (nd_blockchain demo_node) = 0"
    by (simp add: demo_node_def NewNode_def GetCurrentHeight_def NewBlockchain_eq storeBlock_def Let_def genesisBlock_def)
  moreover have "ne_getblocks demo_node_env [] = Ok \<lparr>gb_FromHeight = 0, gb_ToHeight = 7\<rparr>"
    by (simp add: demo_node_env_def)
  note handleGetBlocks_answers [OF this, of demo_node 0]
  moreover have "(0 :: u64) < - 1" by (simp add: word_gt_0)
  ultimately show ?thesis by (auto simp: min_def)
qed

section \<open>Peer identities\<close>

definition accepts_version :: "node_env \<Rightarrow> node \<Rightarrow> nat \<Rightarrow> net_message \<Rightarrow> version_message \<Rightarrow> bool" where
  "accepts_version env n conn msg v \<longleftrightarrow>
     msg_Type msg = ''version'' \<and> ne_version env (msg_Payload msg) = Ok v \<and>
     ver_NetworkID v = nc_NetworkID (nd_config n) \<and> (\<forall>payload. ne_send env conn payload = Ok ())"

lemma greet_peer_Ok:
  assumes "accepts_version env n (pr_Connection q) msg v"
  shows "\<exists>s. greet_peer env q (Ok msg) n =
    n\<lparr>nd_sent := s, nd_heap := nd_heap n @ [q\<lparr>pr_ID := ver_NodeID v, pr_Version := ver_Version v\<rparr>],
      nd_peers := fmupd (ver_NodeID v) (length (nd_heap n)) (nd_peers n)\<rparr>"
  using assms
  by (auto simp: accepts_version_def greet_peer_def handshake_defs sendMessage_def Let_def
      peer_at_def set_peer_def intro: exI)

text \<open>
  Peers are known by the ID they claim. When a second connection claims an ID that is in use, it takes
  over the entry; when the first one then disconnects, the second one's entry is removed although its
  connection stays open and its handler keeps running, and broadcasts no longer reach it.
\<close>

theorem claimed_identity_hijack:
  fixes env n c1 c2 m1 m2
  assumes "accepts_version env n c1 m1 v1" and "accepts_version env n c2 m2 v2"
    and "ver_NodeID v1 = ver_NodeID v2" and "c1 \<noteq> c2" and "c2 \<notin> set (nd_closed n)"
  defines "n2 \<equiv> handleNewConnection env c2 (Ok m2) (handleNewConnection env c1 (Ok m1) n)"
    and "p1 \<equiv> length (nd_heap n)" and "p2 \<equiv> Suc (length (nd_heap n))"
  shows "fmlookup (nd_peers n2) (ver_NodeID v1) = Some p2 \<and>
    pr_Connection (peer_at n2 p1) = c1 \<and> pr_Connection (peer_at n2 p2) = c2 \<and>
    fmlookup (nd_peers (disconnectPeer p1 n2)) (ver_NodeID v1) = None \<and>
    c1 \<in> set (nd_closed (disconnectPeer p1 n2)) \<and> c2 \<notin> set (nd_closed (disconnectPeer p1 n2))"
proof -
  let ?q = "\<lambda>c. \<lparr>pr_ID = '''', pr_Address = '''', pr_Connection = c, pr_Version = 0,
    pr_LastSeen = ne_now env, pr_ReputationScore = Fin 0\<rparr>"
  have "accepts_version env n (pr_Connection (?q c1)) m1 v1" using assms(1) by simp
  from greet_peer_Ok [OF this] obtain s1 where
    n1: "handleNewConnection env c1 (Ok m1) n = n\<lparr>nd_sent := s1, nd_heap := nd_heap n @ [(?q c1)\<lparr>pr_ID := ver_NodeID v1,
        pr_Version := ver_Version v1\<rparr>],
      nd_peers := fmupd (ver_NodeID v1) (length (nd_heap n)) (nd_peers n)\<rparr>" (is "_ = ?n1")
    unfolding handleNewConnection_def by blast
  have "accepts_version env ?n1 (pr_Connection (?q c2)) m2 v2"
    using assms(2) by (simp add: accepts_version_def)
  from greet_peer_Ok [OF this] obtain s2 where
    "n2 = ?n1\<lparr>nd_sent := s2, nd_heap := nd_heap ?n1 @ [(?q c2)\<lparr>pr_ID := ver_NodeID v2,
      pr_Version := ver_Version v2\<rparr>], nd_peers := fmupd (ver_NodeID v2) (length (nd_heap ?n1)) (nd_peers ?n1)\<rparr>"
    unfolding n2_def n1 unfolding handleNewConnection_def by blast
  then show ?thesis
    using assms(3-5) by (simp add: peer_at_def p1_def p2_def nth_append disconnectPeer_def close_connection_def)
qed

theorem claimed_identity_hijack_witness:
  "fmlookup (nd_peers (disconnectPeer 0 (handleNewConnection demo_node_env 4 demo_version
     (handleNewConnection demo_node_env 3 demo_version demo_node)))) ''peer'' = None"
proof -
  let ?v = "\<lparr>ver_Version = 1, ver_NodeID = ''peer'', ver_NetworkID = 1, ver_Height = 0\<rparr>"
  let ?m = "\<lparr>msg_Type = ''version'', msg_Payload = []\<rparr>"
  have a: "accepts_version demo_node_env demo_node c ?m ?v" for c
    by (simp add: accepts_version_def demo_node_env_def demo_node_def NewNode_def DefaultConfig_def)
  have h: "nd_heap demo_node = []" "nd_closed demo_node = []" by (simp_all add: demo_node_def NewNode_def)
  from claimed_identity_hijack [OF a [of 3] a [of 4]] h show ?thesis
    by (simp add: demo_version_def)
qed

section \<open>Synchronization and lifecycle\<close>

lemma requestBlockchainState_eq:
  "requestBlockchainState env p n = n\<lparr>nd_sent := nd_sent n @ [(pr_Connection (peer_at n p),
     PGetBlocks \<lparr>gb_FromHeight = GetCurrentHeight (nd_blockchain n) + 1,
        gb_ToHeight = GetCurrentHeight (nd_blockchain n) + 100\<rparr>)]\<rparr>"
  by (simp add: requestBlockchainState_def sendMessage_def Let_def)

lemma peer_at_sent [simp]: "peer_at (n\<lparr>nd_sent := s\<rparr>) p = peer_at n p"
  by (simp add: peer_at_def)

lemma request_fold:
  "fold (\<lambda>(_, p). requestBlockchainState env p) es n = n\<lparr>nd_sent := nd_sent n @ map (\<lambda>(_, p).
     (pr_Connection (peer_at n p), PGetBlocks \<lparr>gb_FromHeight = GetCurrentHeight (nd_blockchain n) + 1,
        gb_ToHeight = GetCurrentHeight (nd_blockchain n) + 100\<rparr>)) es\<rparr>"
proof (induction es arbitrary: n)
  case (Cons e es)
  from Cons [of "requestBlockchainState env (snd e) n"] show ?case
    by (cases e) (simp add: requestBlockchainState_eq)
qed simp

text \<open>
  A synchronization round asks every peer once for the hundred blocks above the own height; but the
  answer to such a request is a message of type \<open>blocks\<close>, which no handler takes: it is refused as an
  unknown type and changes nothing, so synchronizing never adds a block.
\<close>

theorem sync_asks_in_vain:
  assumes "msg_Type msg = payload_type (PBlocks blocks)"
  shows "handleMessage env p msg n = Some (n, Fail (ErrorString ''unknown message type'')) \<and>
    (\<not> sy_syncing (nd_syncManager n) \<longrightarrow>
      nd_sent (synchronize env n) = nd_sent n @ map (\<lambda>(_, p). (pr_Connection (peer_at n p),
        PGetBlocks \<lparr>gb_FromHeight = GetCurrentHeight (nd_blockchain n) + 1,
          gb_ToHeight = GetCurrentHeight (nd_blockchain n) + 100\<rparr>)) (ne_peer_order env (nd_peers n)) \<and>
      nd_blockchain (synchronize env n) = nd_blockchain n \<and>
      \<not> sy_syncing (nd_syncManager (synchronize env n)))"
  using assms by (simp add: handleMessage_def synchronize_def request_fold Let_def peer_at_def)

theorem sync_asks_in_vain_witness:
  "handleMessage demo_node_env 0 \<lparr>msg_Type = ''blocks'', msg_Payload = []\<rparr> demo_node =
     Some (demo_node, Fail (ErrorString ''unknown message type'')) \<and>
   nd_sent (synchronize demo_node_env demo_node) = []"
  using sync_asks_in_vain [of "\<lparr>msg_Type = ''blocks'', msg_Payload = []\<rparr>" "[]" demo_node_env 0 demo_node]
  by (simp add: demo_node_env_def demo_node_def NewNode_def NewSyncManager_def key_sorted_def)

text \<open>
  A node can be started and stopped once: started again it runs, but its next stop closes a closed
  channel and panics. And when \<open>net.Listen\<close> fails, the node counts as running, so every later
  start is refused.
\<close>

theorem second_stop_panics:
  fixes config chain forest cons sm listener listener' env env' e listen
  defines "n0 \<equiv> NewNode config chain forest cons sm"
  defines "n1 \<equiv> fst (node_Start (Ok listener) n0)"
  defines "n2 \<equiv> fst (node_Stop env n1)"
  defines "n3 \<equiv> fst (node_Start (Ok listener') n2)"
  defines "failed \<equiv> fst (node_Start (Fail e) n0)"
  shows "snd (node_Start (Ok listener) n0) = Ok () \<and> snd (node_Stop env n1) = Ok () \<and> \<not> nd_running n2 \<and>
    snd (node_Start (Ok listener') n2) = Ok () \<and> nd_running n3 \<and>
    snd (node_Stop env' n3) = Panic CloseOfClosed \<and>
    snd (node_Start (Fail e) n0) = Fail e \<and>
    snd (node_Start listen failed) = Fail (ErrorString ''node already running'')"
proof -
  have n1: "node_Start (Ok listener) n0 = (n1, Ok ())" "nd_running n1" "\<not> nd_stopClosed n1"
      "\<not> p2p_stopClosed (nd_p2pNetwork n1)" "\<not> sy_stopClosed (nd_syncManager n1)"
    by (simp_all add: n1_def node_Start_def Let_def n0_def NewNode_def p2p_Start_def sync_Start_def
        NewP2PNetwork_def NewSyncManager_def)
  have keep: "nd_running (fold (\<lambda>(_, p) n. close_connection (pr_Connection (peer_at n p)) n) es m) = nd_running m"
    "nd_stopClosed (fold (\<lambda>(_, p) n. close_connection (pr_Connection (peer_at n p)) n) es m) = nd_stopClosed m" for es m
    using close_all [of es m] by auto
  have n2: "node_Stop env n1 = (n2, Ok ())" "\<not> nd_running n2" "nd_stopClosed n2"
    using n1 by (simp_all add: n2_def node_Stop_def Let_def close_channel_def p2p_Stop_def sync_Stop_def keep)
  have n3: "node_Start (Ok listener') n2 = (n3, Ok ())" "nd_running n3" "nd_stopClosed n3"
    using n2 by (simp_all add: n3_def node_Start_def Let_def)
  have "snd (node_Stop env' n3) = Panic CloseOfClosed"
    using n3 by (simp add: node_Stop_def Let_def close_channel_def)
  moreover have "snd (node_Start (Fail e) n0) = Fail e" "nd_running failed"
    by (simp_all add: failed_def node_Start_def Let_def n0_def NewNode_def)
  moreover have "snd (node_Start listen failed) = Fail (ErrorString ''node already running'')"
    using \<open>nd_running failed\<close> by (simp add: node_Start_def)
  ultimately show ?thesis using n1(1) n2 n3 by simp
qed

end
