(* ===== verification/Node_Invariant.thy ===== *)
theory Node_Invariant
  imports Network_Node
begin

text \<open>
  The components inside a running node: which operation of a component each step of the node performs,
  and so that the invariants of the chain, the forest, the consensus engine and the mempool hold in
  every state of a run.
\<close>

section \<open>Steps as operations of the components\<close>

definition same_parts :: "node \<Rightarrow> node \<Rightarrow> bool" where
  "same_parts n n' \<longleftrightarrow> nd_blockchain n' = nd_blockchain n \<and> nd_consensus n' = nd_consensus n \<and>
     nd_mempool n' = nd_mempool n \<and> nd_merkleForest n' = nd_merkleForest n"

lemma same_parts_refl [simp]: "same_parts n n"
  by (simp add: same_parts_def)

lemma same_parts_trans: "same_parts n1 n2 \<Longrightarrow> same_parts n2 n3 \<Longrightarrow> same_parts n1 n3"
  by (simp add: same_parts_def)

lemma same_parts_fold:
  assumes "\<And>x n. same_parts n (f x n)"
  shows "same_parts n (fold f xs n)"
  by (induction xs arbitrary: n) (auto intro: same_parts_trans assms)

lemma same_parts_send [simp]: "same_parts n (fst (sendMessage env p payload n))"
  by (simp add: same_parts_def sendMessage_def Let_def)

lemma same_parts_peer [simp]:
  "same_parts n (set_peer p q n)" "same_parts n (close_connection c n)" "same_parts n (disconnectPeer p n)"
  by (simp_all add: same_parts_def set_peer_def close_connection_def disconnectPeer_def)

lemma same_parts_broadcast: "same_parts n (broadcast env payload n)"
  unfolding broadcast_def by (rule same_parts_fold) (simp split: prod.split)

lemma same_parts_updatePeerConnections: "same_parts n (updatePeerConnections env n)"
  unfolding updatePeerConnections_def
  by (rule same_parts_fold)
    (simp add: drop_inactive_def close_connection_def same_parts_def split: prod.split)

lemma same_parts_performHandshake: "same_parts n (fst (performHandshake env p received n))"
proof -
  obtain m s where sm: "send_version env p n = (m, s)" by fastforce
  then have "same_parts n m" by (metis fst_conv same_parts_send send_version_def)
  moreover have "same_parts m (fst (accept_version env p received m))"
    by (simp add: accept_version_def split: res.split)
  ultimately show ?thesis
    by (auto simp: performHandshake_def sm split: res.split intro: same_parts_trans)
qed

lemma same_parts_greet_peer: "same_parts n (greet_peer env q received n)"
proof -
  let ?p = "length (nd_heap n)" and ?m = "n\<lparr>nd_heap := nd_heap n @ [q]\<rparr>"
  obtain n' r where h: "performHandshake env ?p received ?m = (n', r)" by fastforce
  have "same_parts n ?m" by (simp add: same_parts_def)
  with same_parts_performHandshake [of ?m env ?p received] have "same_parts n n'"
    unfolding h by (auto intro: same_parts_trans)
  then show ?thesis
    by (simp add: greet_peer_def Let_def h same_parts_def close_connection_def split: res.split)
qed

lemma same_parts_synchronize: "same_parts n (synchronize env n)"
proof -
  let ?m = "n\<lparr>nd_syncManager := (nd_syncManager n)\<lparr>sy_syncing := True\<rparr>\<rparr>"
  let ?f = "fold (\<lambda>(_, p). requestBlockchainState env p) (ne_peer_order env (nd_peers n)) ?m"
  have "same_parts m (requestBlockchainState env p m)" for m p
    by (simp add: requestBlockchainState_def Let_def)
  then have "same_parts ?m ?f" by (intro same_parts_fold) (simp split: prod.split)
  then show ?thesis by (simp add: synchronize_def Let_def same_parts_def)
qed

lemma same_parts_Start: "same_parts n (fst (node_Start listen n))"
  by (simp add: node_Start_def Let_def same_parts_def split: res.split)

lemma same_parts_Stop:
  assumes "node_Stop env n = (n', r)"
  shows "same_parts n n'"
proof -
  let ?f = "\<lambda>es m. fold (\<lambda>(_, p) n. close_connection (pr_Connection (peer_at n p)) n) es m"
  have f: "nd_blockchain (?f es m) = nd_blockchain m" "nd_consensus (?f es m) = nd_consensus m"
    "nd_mempool (?f es m) = nd_mempool m" "nd_merkleForest (?f es m) = nd_merkleForest m" for es m
    using close_all [of es m] by auto
  from assms show ?thesis
    by (auto simp: node_Stop_def Let_def f same_parts_def split: prod.splits res.splits if_splits)
qed

section \<open>The invariant\<close>

definition well_formed :: "digest \<Rightarrow> node \<Rightarrow> bool" where
  "well_formed sha n \<longleftrightarrow> reachable_chain sha (nd_blockchain n) \<and> hc_ok sha (nd_consensus n) \<and>
     pool_ok (nd_mempool n) \<and> mp_maxSize (nd_mempool n) = 10000 \<and>
     forest_reachable sha (nd_merkleForest n)"

lemma well_formed_same: "same_parts n n' \<Longrightarrow> well_formed sha n' = well_formed sha n"
  by (simp add: well_formed_def same_parts_def)

lemma well_formed_AddBlock:
  assumes "well_formed sha n"
  shows "well_formed sha (n\<lparr>nd_blockchain := fst (AddBlock sha now b (nd_blockchain n))\<rparr>)"
  using assms reachable_chain.add [OF _ prod.collapse [symmetric]] by (simp add: well_formed_def)

lemma well_formed_ProcessBlock:
  "well_formed (ne_sha env) n \<Longrightarrow> well_formed (ne_sha env) (fst (ProcessBlock env b n))"
  by (simp add: ProcessBlock_eq well_formed_AddBlock)

lemma well_formed_ProcessTransaction:
  assumes "well_formed sha n"
  shows "well_formed sha (fst (ProcessTransaction env tx n))"
proof -
  obtain m r where m: "AddTransaction tx (nd_mempool n) = (m, r)" by fastforce
  have "pool_ok m" "mp_maxSize m = 10000"
    using assms pool_ok_AddTransaction [of "nd_mempool n" tx] mp_maxSize_ops(1) [of tx "nd_mempool n"]
    by (simp_all add: well_formed_def m)
  then have w: "well_formed sha (n\<lparr>nd_mempool := m\<rparr>)" using assms by (simp add: well_formed_def)
  have "well_formed sha (broadcastTransaction env tx (n\<lparr>nd_mempool := m\<rparr>))"
    using w well_formed_same [OF same_parts_broadcast] by (simp add: broadcastTransaction_def)
  with w assms show ?thesis
    by (cases "nd_validateTransaction tx n"; cases r) (simp_all add: ProcessTransaction_def m)
qed

lemma well_formed_consensus:
  assumes "well_formed sha n" and "hc_ok sha hc"
  shows "well_formed sha (n\<lparr>nd_consensus := hc\<rparr>)"
  using assms by (simp add: well_formed_def)

lemma well_formed_HandleConsensusMessage:
  assumes "well_formed (ne_sha env) n"
  shows "well_formed (ne_sha env) (fst (HandleConsensusMessage env msg n))"
proof -
  have "hc_ok (ne_sha env) (nd_consensus n)" using assms by (simp add: well_formed_def)
  from well_formed_consensus [OF assms hc_ok_ProcessConsensusMessage [OF this]]
  show ?thesis by (simp add: HandleConsensusMessage_def split_beta)
qed

lemma hc_ok_runConsensusRound:
  assumes "runConsensusRound sha curve k ord now hc = Some (Ok (hc', proposal))" and "hc_ok sha hc"
  shows "hc_ok sha hc'"
proof -
  from assms(1) have "cs_PreparedBlocks (hc_consensusState hc') = cs_PreparedBlocks (hc_consensusState hc) \<and>
      cs_CommittedBlocks (hc_consensusState hc') = cs_CommittedBlocks (hc_consensusState hc) \<and>
      hc_spawned hc' = hc_spawned hc"
    by (auto simp: runConsensusRound_def selectLeader_def Let_def bind_res_Ok_iff
        split: option.splits)
  with assms(2) show ?thesis by (simp add: hc_ok_def preparedBlock_def committedBlock_def)
qed

lemma well_formed_handleMessage:
  assumes "handleMessage env p msg n = Some (n', r)" and "well_formed (ne_sha env) n"
  shows "well_formed (ne_sha env) n'"
proof -
  have send: "well_formed (ne_sha env) (fst (sendMessage env p payload n))" for payload
    using assms(2) well_formed_same [OF same_parts_send] by simp
  have dec: "well_formed (ne_sha env) (fst (decoded d f n))"
    if "\<And>x. well_formed (ne_sha env) (fst (f x n))" for d :: "'a res" and f
    using that assms(2) by (simp add: decoded_def split: res.split)
  have "well_formed (ne_sha env) (fst (handleGetData env p payload n))" for payload
    using send assms(2) by (simp add: handleGetData_def split: res.split)
  moreover have "handleGetBlocks env p payload n = Some (n', r) \<Longrightarrow> well_formed (ne_sha env) n'" for payload
    using send assms(2) by (auto simp: handleGetBlocks_def split: res.splits) (metis fst_conv)
  moreover have "decoded (ne_block env pl) (ProcessBlock env) n = (n', r) \<Longrightarrow> well_formed (ne_sha env) n'"
      "decoded (ne_transaction env pl) (ProcessTransaction env) n = (n', r) \<Longrightarrow> well_formed (ne_sha env) n'"
      "decoded (ne_consensus env pl) (HandleConsensusMessage env) n = (n', r) \<Longrightarrow> well_formed (ne_sha env) n'" for pl
    using dec [of "ProcessBlock env" "ne_block env pl"] dec [of "ProcessTransaction env" "ne_transaction env pl"]
      dec [of "HandleConsensusMessage env" "ne_consensus env pl"] assms(2)
    by (simp_all add: well_formed_ProcessBlock well_formed_ProcessTransaction well_formed_HandleConsensusMessage)
  ultimately show ?thesis
    using assms by (auto simp: handleMessage_def split: if_splits) (metis fst_conv)+
qed

lemma well_formed_handlePeer:
  assumes "handlePeer env p received n = Some (n', r)" and "well_formed (ne_sha env) n"
  shows "well_formed (ne_sha env) n'"
proof (cases received)
  case (Ok msg)
  let ?m = "set_peer p ((peer_at n p)\<lparr>pr_LastSeen := ne_now env\<rparr>) n"
  obtain r' where h: "handleMessage env p msg ?m = Some (n', r')"
    using assms(1) Ok by (auto simp: handlePeer_def)
  have "well_formed (ne_sha env) ?m"
    using assms(2) well_formed_same [OF same_parts_peer(1)] by simp
  with h show ?thesis by (rule well_formed_handleMessage)
next
  case Fail
  then show ?thesis using assms well_formed_same [OF same_parts_peer(3), of "ne_sha env" p n]
    by (auto simp: handlePeer_def)
next
  case Panic
  then show ?thesis using assms well_formed_same [OF same_parts_peer(3), of "ne_sha env" p n]
    by (auto simp: handlePeer_def)
qed

lemma well_formed_forest:
  "well_formed sha n \<Longrightarrow> forest_reachable sha amf \<Longrightarrow> well_formed sha (n\<lparr>nd_merkleForest := amf\<rparr>)"
  by (simp add: well_formed_def)

lemma well_formed_processPendingTransactions:
  assumes "processPendingTransactions env n = (n', r)" and "well_formed (ne_sha env) n"
  shows "well_formed (ne_sha env) n'"
  using assms well_formed_ProcessBlock [OF assms(2)]
  by (auto simp: processPendingTransactions_def Let_def split: res.splits if_splits prod.splits)
    (metis fst_conv)

lemma well_formed_processRoutineTasks:
  assumes "processRoutineTasks env n = (n', Ok ())" and "well_formed (ne_sha env) n"
    and "forest_orders env (mf_shards (nd_merkleForest n))"
  shows "well_formed (ne_sha env) n'"
proof -
  let ?m = "updatePeerConnections env n"
  have same: "same_parts n ?m" by (rule same_parts_updatePeerConnections)
  obtain amf r where d: "DynamicShardRebalancing (ne_sha env) (ne_now env) (ne_forest_order env 0)
      (ne_forest_order env 1) (ne_shard_orders env) (nd_merkleForest ?m) = (amf, r)" by fastforce
  let ?f = "?m\<lparr>nd_merkleForest := amf\<rparr>"
  obtain n1 r1 where p: "processPendingTransactions env ?f = (n1, r1)" by fastforce
  have np: "r \<noteq> Panic q" for q
    using assms(1) unfolding processRoutineTasks_def Let_def d prod.case by (cases r) simp_all
  have w: "well_formed (ne_sha env) ?m" using assms(2) well_formed_same [OF same] by simp
  have "mf_shards (nd_merkleForest ?m) = mf_shards (nd_merkleForest n)" using same by (simp add: same_parts_def)
  with assms(3) have o: "range_order (ne_forest_order env 0) (mf_shards (nd_merkleForest ?m))"
      "range_order (ne_forest_order env 1) (mf_shards (nd_merkleForest ?m))"
      "range_order (ne_shard_orders env i) (mf_shards (nd_merkleForest ?m))" for i
    by (simp_all add: forest_orders_def)
  have "forest_reachable (ne_sha env) (nd_merkleForest ?m)" using w by (simp add: well_formed_def)
  from forest_reachable.rebalance [OF this o d np] have "well_formed (ne_sha env) ?f"
    using w by (intro well_formed_forest)
  from well_formed_processPendingTransactions [OF p this] have "well_formed (ne_sha env) n1" .
  moreover have "n' = n1"
    using assms(1) unfolding processRoutineTasks_def Let_def d prod.case p nd_updateNetworkMetrics_def
    by (cases r; cases r1) simp_all
  ultimately show ?thesis by simp
qed

lemma well_formed_step:
  assumes "node_step sha n n'" and "well_formed sha n"
  shows "well_formed sha n'"
  using assms(1)
proof (cases rule: node_step.cases)
  case (message env p received)
  then show ?thesis using well_formed_handlePeer assms(2) by blast
next
  case (accept env conn received)
  then show ?thesis
    using well_formed_same [OF same_parts_greet_peer] assms(2) by (simp add: handleNewConnection_def)
next
  case (connect env addr dialled received)
  then show ?thesis
    using well_formed_same [OF same_parts_greet_peer] assms(2) by (simp add: connectToPeer_def split: res.split)
next
  case (routine env)
  then show ?thesis using well_formed_processRoutineTasks assms(2) by blast
next
  case (submit env tx)
  then show ?thesis using well_formed_ProcessTransaction assms(2) by simp
next
  case (import env b e)
  then show ?thesis using well_formed_ProcessBlock [of env n b] assms(2) by simp
next
  case (sync env)
  then show ?thesis using well_formed_same [OF same_parts_synchronize] assms(2) by simp
next
  case (start listen)
  then show ?thesis using well_formed_same [OF same_parts_Start] assms(2) by simp
next
  case (stop env)
  then show ?thesis using well_formed_same [OF same_parts_Stop] assms(2) by blast
next
  case (voted codec now msg hc r)
  have "hc_ok sha (nd_consensus n)" using assms(2) by (simp add: well_formed_def)
  from hc_ok_ProcessConsensusMessage [OF this, of codec now msg] voted show ?thesis
    using well_formed_consensus [OF assms(2)] by simp
next
  case (round curve k ord now hc proposal)
  have "hc_ok sha (nd_consensus n)" using assms(2) by (simp add: well_formed_def)
  with round show ?thesis using hc_ok_runConsensusRound well_formed_consensus [OF assms(2)] by blast
next
  case (prove key i amf r)
  have "forest_reachable sha (nd_merkleForest n)" using assms(2) by (simp add: well_formed_def)
  from forest_reachable.generate [OF this prove(2)] prove(1) show ?thesis
    using well_formed_forest [OF assms(2)] by simp
next
  case (cross blinding op amf r)
  have "forest_reachable sha (nd_merkleForest n)" using assms(2) by (simp add: well_formed_def)
  from forest_reachable.cross [OF this cross(2)] cross(1) show ?thesis
    using well_formed_forest [OF assms(2)] by simp
next
  case (cap co)
  then show ?thesis using assms(2) by (simp add: well_formed_def)
qed

lemma well_formed_run: "node_run sha n n' \<Longrightarrow> well_formed sha n \<Longrightarrow> well_formed sha n'"
  by (induction rule: node_run.induct) (auto intro: well_formed_step)

lemma well_formed_new:
  "well_formed sha (NewNode config (NewBlockchain sha t) (NewAdaptiveMerkleForest t') (NewHybridConsensus oracle) sm)"
  by (simp add: well_formed_def NewNode_def reachable_chain.new hc_ok_new pool_ok_new forest_reachable.init)
    (simp add: NewMempool_def)

section \<open>Blocks on their way through the node\<close>

lemma AddBlock_stores:
  assumes "AddBlock sha now b bc = (bc', Ok ())"
  shows "\<exists>b'. GetBlock (header_hash sha (blk_Header b)) bc' = Ok b'"
proof (cases rule: AddBlock_cases [of bc b sha now])
  case added
  let ?h = "header_hash sha (blk_Header b)"
  let ?s = "bc\<lparr>bc_orphanBlocks := orphan_rest sha ?h (bc_orphanBlocks bc)\<rparr>"
  have "bc' = fold (storeBlock sha) (b # orphan_chain sha ?h (bc_orphanBlocks bc)) ?s"
    using added assms by (simp add: addBlock_fold)
  then show ?thesis
    using chain_blocks.get_fold_mem [of ?h sha "b # orphan_chain sha ?h (bc_orphanBlocks bc)" ?s]
    by (auto simp: GetBlock_def)
qed (use assms in auto)

lemma blocks_at_stored:
  assumes "chain_inv sha bc" and "r \<in> set (blocks_at bc k)"
  shows "\<exists>b. r = Some b \<and> GetBlock (header_hash sha (blk_Header b)) bc = Ok b"
  using assms by (fastforce simp: blocks_at_def chain_inv_def GetBlockByHeight_def GetBlock_def
      split: res.splits option.splits if_splits)

lemma all_Some:
  "\<forall>r \<in> set l. \<exists>b. r = Some b \<and> P b \<Longrightarrow> \<exists>bs. l = map Some bs \<and> (\<forall>b \<in> set bs. P b)"
proof (induction l)
  case (Cons r l)
  then obtain b bs where "r = Some b" "P b" "l = map Some bs" "\<forall>b \<in> set bs. P b" by auto
  then show ?case by (intro exI [of _ "b # bs"]) simp
qed simp

end
