(* ===== verification/Node_Threads.thy ===== *)
theory Node_Threads
  imports Node_Invariant
begin

text \<open>
  The goroutines of \<open>main.go\<close>, \<open>network/\<close>, \<open>consensus/hybrid_consensus.go\<close> and \<open>cap/orchestrator.go\<close>, and
  their interleavings. A goroutine is a \<open>thread\<close>: where it stands between two critical sections, with
  its local variables. One step runs it up to the end of its next critical section, read of shared state,
  write to a connection or wait. The range over the peers in \<open>sync.go\<close>, which no lock orders with the
  writes of the table, takes one step for each entry; a write of \<open>LastSeen\<close> is one step as well.
\<close>

section \<open>Threads\<close>

text \<open>
  A range over the live peer table: the table when the range started, with what it has produced
  since, and the entries of it still to come, in the order of the range.
\<close>

type_synonym peer_range = "(string, nat) fmap \<times> (string \<times> nat) list"

text \<open>Where a handler goes on when it is done: nowhere, in the loop of \<open>handlePeer\<close> or in \<open>mainLoop\<close>.\<close>

datatype cont = CEnd | CPeer nat | CMain

text \<open>
  What a handler has yet to do. Of \<open>ProcessBlock\<close>: check, add, update the state, empty the mempool,
  broadcast; of \<open>ProcessTransaction\<close>: check, add, broadcast; one consensus message; the two reads of
  each turn of the loop of \<open>handleGetBlocks\<close>; a read for \<open>handleGetData\<close>; an answer.
\<close>

datatype job =
    JCheck block | JAdd block | JUpdate block | JForget "transaction list" block | JCastBlock block
  | JTx transaction | JPool transaction | JCastTx transaction
  | JConsensus consensus_message
  | JHeight nat u64 u64 "block option list" | JFetch nat u64 u64 "block option list"
  | JData nat hash
  | JReply nat net_payload

datatype thread =
    TAccept nat | TAccepting nat                       \<comment> \<open>\<open>acceptConnections\<close>\<close>
  | TDial string                                       \<comment> \<open>\<open>connectToPeer\<close>\<close>
  | TGreet nat | TVersion nat | TInsert nat            \<comment> \<open>the handshake with a new peer\<close>
  | TPeer nat | THandle nat net_message | TDisconnect nat \<comment> \<open>\<open>handlePeer\<close>\<close>
  | TClose nat                                         \<comment> \<open>\<open>Connection.Close\<close>\<close>
  | TJob job cont
  | TMain | TRebalance | TPending | TBuild "transaction list"  \<comment> \<open>\<open>mainLoop\<close>\<close>
  | TSyncStart | TSync | TRange | TIter | TNext peer_range
  | TAsk nat peer_range | TAskTo nat u64 peer_range | TSynced \<comment> \<open>\<open>sync.go\<close>\<close>
  | TSend nat net_payload                              \<comment> \<open>\<open>go n.sendMessage\<close>\<close>
  | TVote consensus_message                            \<comment> \<open>\<open>go hc.ProcessConsensusMessage\<close>\<close>
  | TRound | TTelemetry | TPartitions | TLevel         \<comment> \<open>loops without a stop channel\<close>
  | TStart bool | TListen bool | TWait                 \<comment> \<open>\<open>Start\<close>; the flag: called by \<open>main\<close>\<close>
  | TStop bool | TShut bool | TShutP2P bool | TShutSync bool | TCloseAll bool \<comment> \<open>\<open>Stop\<close>\<close>

text \<open>What a step does: the process goes on, has crashed or has exited, or the thread waits.\<close>

datatype outcome = Next node "thread list" | Crash go_panic | Exit nat | Blocked

text \<open>What one step receives from outside the process.\<close>

record io =
  io_tick :: bool                       \<comment> \<open>the ticker fired and the select takes it\<close>
  io_conn :: "nat res"                  \<comment> \<open>of \<open>Accept\<close>, \<open>Dial\<close> or \<open>Listen\<close>\<close>
  io_message :: "net_message res"
  io_signal :: bool
  io_curve :: ec_curve
  io_random :: nat
  io_validators :: "nat \<Rightarrow> address list"
  io_created :: "string list"           \<comment> \<open>entries created during a range that it may produce now\<close>

fun resume :: "cont \<Rightarrow> thread list" where
  "resume CEnd = []"
| "resume (CPeer p) = [TPeer p]"
| "resume CMain = [TMain]"

text \<open>The result of a call whose error only ends the handler.\<close>

fun goes_on :: "unit res \<Rightarrow> node \<Rightarrow> thread list \<Rightarrow> cont \<Rightarrow> outcome" where
  "goes_on (Ok _) n ts k = Next n ts"
| "goes_on (Fail _) n ts k = Next n (resume k)"
| "goes_on (Panic q) n ts k = Crash q"

section \<open>Handlers\<close>

definition cast :: "node_env \<Rightarrow> net_payload \<Rightarrow> node \<Rightarrow> thread list" where
  "cast env payload n = map (\<lambda>(_, p). TSend p payload) (ne_peer_order env (nd_peers n))"

text \<open>The votes that a consensus message made the engine process in new goroutines.\<close>

definition consensus_job :: "node_env \<Rightarrow> consensus_message \<Rightarrow> cont \<Rightarrow> node \<Rightarrow> outcome" where
  "consensus_job env msg k n =
     (let (n', r) = HandleConsensusMessage env msg n;
          votes = drop (length (hc_spawned (nd_consensus n))) (hc_spawned (nd_consensus n'))
      in case r of
           Panic q \<Rightarrow> Crash q
         | _ \<Rightarrow> Next n' (map TVote votes @ resume k))"

fun job_step :: "node_env \<Rightarrow> job \<Rightarrow> cont \<Rightarrow> node \<Rightarrow> outcome" where
  "job_step env (JCheck b) k n =
     goes_on (hc_ValidateBlock (nd_consensus n) (Some b)) n [TJob (JAdd b) k] k"
| "job_step env (JAdd b) k n =
     (let (bc, r) = AddBlock (ne_sha env) (Unix (ne_now env)) b (nd_blockchain n)
      in goes_on r (n\<lparr>nd_blockchain := bc\<rparr>) [TJob (JUpdate b) k] k)"
| "job_step env (JUpdate b) k n =
     (let (sm, r) = UpdateState (ne_sha env) (ne_compress env) (ne_state_orders env 0)
            (ne_state_orders env 1) (ne_state_orders env 2) (ne_now env) b (nd_stateManager n)
      in goes_on r (n\<lparr>nd_stateManager := sm\<rparr>) [TJob (JForget (blk_Transactions b) b) k] k)"
| "job_step env (JForget [] b) k n = Next n [TJob (JCastBlock b) k]"
| "job_step env (JForget (tx # txs) b) k n =
     Next (n\<lparr>nd_mempool := RemoveTransaction (tx_ID tx) (nd_mempool n)\<rparr>) [TJob (JForget txs b) k]"
| "job_step env (JCastBlock b) k n = Next n (cast env (PBlock b) n @ resume k)"
| "job_step env (JTx tx) k n = goes_on (nd_validateTransaction tx n) n [TJob (JPool tx) k] k"
| "job_step env (JPool tx) k n =
     (let (m, r) = AddTransaction tx (nd_mempool n)
      in goes_on r (n\<lparr>nd_mempool := m\<rparr>) [TJob (JCastTx tx) k] k)"
| "job_step env (JCastTx tx) k n = Next n (cast env (PTransaction tx) n @ resume k)"
| "job_step env (JConsensus msg) k n = consensus_job env msg k n"
| "job_step env (JHeight p to i blocks) k n =
     Next n [TJob (if i \<le> to \<and> i \<le> GetCurrentHeight (nd_blockchain n) then JFetch p to i blocks
                   else JReply p (PBlocks blocks)) k]"
| "job_step env (JFetch p to i blocks) k n =
     Next n [TJob (JHeight p to (i + 1)
       (case GetBlockByHeight i (nd_blockchain n) of Ok b \<Rightarrow> blocks @ [b] | _ \<Rightarrow> blocks)) k]"
| "job_step env (JData p h) k n =
     (case GetBlock h (nd_blockchain n) of
        Ok b \<Rightarrow> Next n [TJob (JReply p (PBlock b)) k]
      | Fail _ \<Rightarrow> Next n (resume k)
      | Panic q \<Rightarrow> Crash q)"
| "job_step env (JReply p payload) k n =
     (let (n, r) = sendMessage env p payload n in goes_on r n (resume k) k)"

text \<open>Decoding a message and choosing its handler.\<close>

definition dispatch :: "node_env \<Rightarrow> nat \<Rightarrow> net_message \<Rightarrow> job option res" where
  "dispatch env p msg =
     (let pl = msg_Payload msg in
      if msg_Type msg = ''block'' then bind_res (ne_block env pl) (\<lambda>b. Ok (Some (JCheck b)))
      else if msg_Type msg = ''transaction'' then bind_res (ne_transaction env pl) (\<lambda>tx. Ok (Some (JTx tx)))
      else if msg_Type msg = ''consensus'' then bind_res (ne_consensus env pl) (\<lambda>m. Ok (Some (JConsensus m)))
      else if msg_Type msg = ''getblocks''
      then bind_res (ne_getblocks env pl) (\<lambda>r. Ok (Some (JHeight p (gb_ToHeight r) (gb_FromHeight r) [])))
      else if msg_Type msg = ''getdata''
      then bind_res (ne_getdata env pl) (\<lambda>r.
        if gd_Type r = ''block'' then Ok (Some (JData p (gd_Hash r)))
        else if gd_Type r = ''transaction'' then Ok None
        else Fail (ErrorString ''unknown data type''))
      else Fail (ErrorString ''unknown message type''))"

definition handle_step :: "node_env \<Rightarrow> nat \<Rightarrow> net_message \<Rightarrow> node \<Rightarrow> outcome" where
  "handle_step env p msg n =
     (case dispatch env p msg of
        Panic q \<Rightarrow> Crash q
      | Ok (Some j) \<Rightarrow> Next n [TJob j (CPeer p)]
      | _ \<Rightarrow> Next n [TPeer p])"

definition peer_step :: "node_env \<Rightarrow> io \<Rightarrow> nat \<Rightarrow> node \<Rightarrow> outcome" where
  "peer_step env inp p n =
     (case io_message inp of
        Ok msg \<Rightarrow> Next (set_peer p ((peer_at n p)\<lparr>pr_LastSeen := ne_now env\<rparr>) n) [THandle p msg]
      | _ \<Rightarrow> Next n [TDisconnect p])"

section \<open>Connections\<close>

definition new_peer :: "node_env \<Rightarrow> string \<Rightarrow> nat \<Rightarrow> node \<Rightarrow> outcome" where
  "new_peer env addr conn n =
     Next (n\<lparr>nd_heap := nd_heap n @ [\<lparr>pr_ID = '''', pr_Address = addr, pr_Connection = conn,
        pr_Version = 0, pr_LastSeen = ne_now env, pr_ReputationScore = Fin 0\<rparr>]\<rparr>) [TGreet (length (nd_heap n))]"

text \<open>\<open>net.Conn\<close> of an accepted connection goes to a goroutine of its own; the loop goes on.\<close>

definition accept_step :: "node_env \<Rightarrow> io \<Rightarrow> nat \<Rightarrow> node \<Rightarrow> outcome" where
  "accept_step env inp l n =
     (case io_conn inp of
        Ok conn \<Rightarrow> (case new_peer env '''' conn n of Next n ts \<Rightarrow> Next n (TAccept l # ts) | r \<Rightarrow> r)
      | _ \<Rightarrow> Next n [TAccept l])"

definition dial_step :: "node_env \<Rightarrow> io \<Rightarrow> string \<Rightarrow> node \<Rightarrow> outcome" where
  "dial_step env inp addr n =
     (case io_conn inp of Ok conn \<Rightarrow> new_peer env addr conn n | _ \<Rightarrow> Next n [])"

text \<open>A failed handshake closes the connection.\<close>

definition handshake_step :: "node \<times> unit res \<Rightarrow> nat \<Rightarrow> thread \<Rightarrow> outcome" where
  "handshake_step nr p t =
     (case nr of (n, r) \<Rightarrow>
        case r of Ok _ \<Rightarrow> Next n [t] | _ \<Rightarrow> Next n [TClose (pr_Connection (peer_at n p))])"

definition insert_step :: "nat \<Rightarrow> node \<Rightarrow> outcome" where
  "insert_step p n = Next (n\<lparr>nd_peers := fmupd (pr_ID (peer_at n p)) p (nd_peers n)\<rparr>) [TPeer p]"

definition disconnect_step :: "nat \<Rightarrow> node \<Rightarrow> outcome" where
  "disconnect_step p n =
     Next (n\<lparr>nd_peers := fmdrop (pr_ID (peer_at n p)) (nd_peers n)\<rparr>) [TClose (pr_Connection (peer_at n p))]"

section \<open>Loops\<close>

definition accept_loop :: "nat \<Rightarrow> node \<Rightarrow> outcome" where
  "accept_loop l n = (if nd_stopClosed n then Next n [] else Next n [TAccepting l])"

text \<open>When the ticker and the stop channel are both ready, \<open>select\<close> takes either.\<close>

definition ticker_loop :: "io \<Rightarrow> bool \<Rightarrow> outcome \<Rightarrow> node \<Rightarrow> outcome" where
  "ticker_loop inp stopped body n =
     (if io_tick inp then body else if stopped then Next n [] else Blocked)"

definition main_loop :: "node_env \<Rightarrow> io \<Rightarrow> node \<Rightarrow> outcome" where
  "main_loop env inp n =
     ticker_loop inp (nd_stopClosed n) (Next (updatePeerConnections env n) [TRebalance]) n"

definition sync_loop :: "io \<Rightarrow> node \<Rightarrow> outcome" where
  "sync_loop inp n = ticker_loop inp (sy_stopClosed (nd_syncManager n)) (Next n [TRange]) n"

definition rebalance_step :: "node_env \<Rightarrow> node \<Rightarrow> outcome" where
  "rebalance_step env n =
     (let (amf, r) = DynamicShardRebalancing (ne_sha env) (ne_now env) (ne_forest_order env 0)
            (ne_forest_order env 1) (ne_shard_orders env) (nd_merkleForest n);
          n = n\<lparr>nd_merkleForest := amf\<rparr>
      in case r of Panic q \<Rightarrow> Crash q | _ \<Rightarrow> Next n [TPending])"

definition pending_step :: "node_env \<Rightarrow> node \<Rightarrow> outcome" where
  "pending_step env n =
     (case GetTransactions (ne_pool_order env (mp_transactions (nd_mempool n))) 100 of
        Ok txs \<Rightarrow> Next n (if txs = [] then [TMain] else [TBuild txs])
      | Fail _ \<Rightarrow> Next n [TMain]
      | Panic q \<Rightarrow> Crash q)"

definition build_step :: "node_env \<Rightarrow> transaction list \<Rightarrow> node \<Rightarrow> outcome" where
  "build_step env txs n = Next n [TJob (JCheck (pending_block env txs n)) CMain]"

definition sync_range :: "node \<Rightarrow> outcome" where
  "sync_range n =
     (if sy_syncing (nd_syncManager n) then Next n [TSync]
      else Next (n\<lparr>nd_syncManager := (nd_syncManager n)\<lparr>sy_syncing := True\<rparr>\<rparr>) [TIter])"

text \<open>
  The range of \<open>synchronize\<close> holds no lock, so the table may change between two of its steps. Go then
  leaves out an entry that was deleted before the range reached it, and may or may not produce one
  that was created meanwhile. An entry with another value than at the start counts as created.
\<close>

definition sync_iter :: "node_env \<Rightarrow> node \<Rightarrow> outcome" where
  "sync_iter env n = Next n [TNext (nd_peers n, ne_peer_order env (nd_peers n))]"

definition created_entry :: "io \<Rightarrow> (string, nat) fmap \<Rightarrow> (string, nat) fmap \<Rightarrow> (string \<times> nat) option" where
  "created_entry inp start now =
     (case find (\<lambda>i. fmlookup now i \<noteq> None \<and> fmlookup now i \<noteq> fmlookup start i) (io_created inp) of
        Some i \<Rightarrow> map_option (Pair i) (fmlookup now i)
      | None \<Rightarrow> None)"

definition range_next :: "io \<Rightarrow> peer_range \<Rightarrow> (string, nat) fmap \<Rightarrow> thread" where
  "range_next inp r now =
     (case r of (start, es) \<Rightarrow>
        (case created_entry inp start now of
           Some (i, p) \<Rightarrow> TAsk p (fmupd i p start, filter (\<lambda>e. fst e \<noteq> i) es)
         | None \<Rightarrow>
             (case es of
                [] \<Rightarrow> TSynced
              | (i, p) # es \<Rightarrow>
                  if fmlookup now i = fmlookup start i then TAsk p (start, es) else TNext (start, es))))"

definition sync_next :: "io \<Rightarrow> peer_range \<Rightarrow> node \<Rightarrow> outcome" where
  "sync_next inp r n = Next n [range_next inp r (nd_peers n)]"

definition sync_ask :: "nat \<Rightarrow> peer_range \<Rightarrow> node \<Rightarrow> outcome" where
  "sync_ask p r n = Next n [TAskTo p (GetCurrentHeight (nd_blockchain n) + 1) r]"

definition sync_ask_to :: "node_env \<Rightarrow> nat \<Rightarrow> u64 \<Rightarrow> peer_range \<Rightarrow> node \<Rightarrow> outcome" where
  "sync_ask_to env p from r n =
     Next (fst (sendMessage env p (PGetBlocks \<lparr>gb_FromHeight = from,
       gb_ToHeight = GetCurrentHeight (nd_blockchain n) + 100\<rparr>) n)) [TNext r]"

definition sync_done :: "node \<Rightarrow> outcome" where
  "sync_done n = Next (n\<lparr>nd_syncManager := (nd_syncManager n)\<lparr>sy_syncing := False\<rparr>\<rparr>) [TSync]"

text \<open>
  A round whose search for a curve point does not end stays where it is. It also keeps the lock of the
  engine then; letting the other goroutines of the engine go on only adds runs.
\<close>

definition consensus_loop :: "node_env \<Rightarrow> io \<Rightarrow> node \<Rightarrow> outcome" where
  "consensus_loop env inp n =
     (if \<not> io_tick inp then Blocked
      else case runConsensusRound (ne_sha env) (io_curve inp) (io_random inp) (io_validators inp)
             (ne_now env) (nd_consensus n) of
             None \<Rightarrow> Blocked
           | Some (Ok (hc, proposal)) \<Rightarrow> Next (n\<lparr>nd_consensus := hc\<rparr>) [TRound]
           | Some (Fail _) \<Rightarrow> Next n [TRound]
           | Some (Panic q) \<Rightarrow> Crash q)"

text \<open>The loops of \<open>orchestrator.go\<close> have no stop channel.\<close>

definition cap_loop :: "io \<Rightarrow> (cap_orchestrator \<Rightarrow> cap_orchestrator) \<Rightarrow> thread \<Rightarrow> node \<Rightarrow> outcome" where
  "cap_loop inp f t n =
     ticker_loop inp False (Next (n\<lparr>nd_capOrchestrator := f (nd_capOrchestrator n)\<rparr>) [t]) n"

definition telemetry_loop :: "io \<Rightarrow> node \<Rightarrow> outcome" where
  "telemetry_loop inp n = cap_loop inp updateNetworkMetrics TTelemetry n"

definition partition_loop :: "io \<Rightarrow> node \<Rightarrow> outcome" where
  "partition_loop inp n = cap_loop inp monitor_tick TPartitions n"

definition level_loop :: "node_env \<Rightarrow> io \<Rightarrow> node \<Rightarrow> outcome" where
  "level_loop env inp n = cap_loop inp (optimizeConsistencyLevel (ne_now env)) TLevel n"

section \<open>Start, stop and \<open>main\<close>\<close>

text \<open>\<open>log.Fatalf\<close> exits with status 1; when \<open>main\<close> returns, the process ends with status 0.\<close>

definition start_failed :: "bool \<Rightarrow> node \<Rightarrow> thread list \<Rightarrow> outcome" where
  "start_failed main n ts = (if main then Exit 1 else Next n ts)"

definition start_step :: "bool \<Rightarrow> node \<Rightarrow> outcome" where
  "start_step main n =
     (if nd_running n then start_failed main n []
      else Next (n\<lparr>nd_running := True\<rparr>) [TListen main])"

definition consensus_Start :: "hybrid_consensus \<Rightarrow> thread list res" where
  "consensus_Start hc =
     bind_res (pow_Start (hc_powEngine hc)) (\<lambda>_. bind_res (bft_Start (hc_bftEngine hc)) (\<lambda>_. Ok [TRound]))"

definition cap_Start :: "cap_orchestrator \<Rightarrow> thread list res" where
  "cap_Start co = Ok [TTelemetry, TPartitions, TLevel]"

definition connectToBootstrapPeers :: "node \<Rightarrow> thread list" where
  "connectToBootstrapPeers n = map TDial (nc_BootstrapPeers (nd_config n))"

definition listen_step :: "bool \<Rightarrow> io \<Rightarrow> node \<Rightarrow> outcome" where
  "listen_step main inp n =
     (case io_conn inp of
        Ok l \<Rightarrow>
          let n = n\<lparr>nd_p2pNetwork := p2p_Start l (nd_p2pNetwork n)\<rparr> in
          (case consensus_Start (nd_consensus n) of
             Ok cs \<Rightarrow>
               (case cap_Start (nd_capOrchestrator n) of
                  Ok ts \<Rightarrow> Next n (cs @ ts @ [TSyncStart, TAccept l, TMain] @ connectToBootstrapPeers n @
                    (if main then [TWait] else []))
                | _ \<Rightarrow> start_failed main n cs)
           | _ \<Rightarrow> start_failed main n [])
      | _ \<Rightarrow> start_failed main n [])"

definition sync_start_step :: "node \<Rightarrow> outcome" where
  "sync_start_step n = Next (n\<lparr>nd_syncManager := sync_Start (nd_syncManager n)\<rparr>) [TSync]"

definition wait_step :: "io \<Rightarrow> node \<Rightarrow> outcome" where
  "wait_step inp n = (if io_signal inp then Next n [TStop True] else Blocked)"

definition return_step :: "bool \<Rightarrow> node \<Rightarrow> outcome" where
  "return_step main n = (if main then Exit 0 else Next n [])"

definition stop_step :: "bool \<Rightarrow> node \<Rightarrow> outcome" where
  "stop_step main n =
     (if \<not> nd_running n then return_step main n else Next (n\<lparr>nd_running := False\<rparr>) [TShut main])"

text \<open>The calls of \<open>Stop\<close> that follow, each a panic when its channel is closed already.\<close>

definition shut_step :: "bool \<Rightarrow> node \<Rightarrow> outcome" where
  "shut_step main n =
     (case close_channel (nd_stopClosed n) of
        Ok shut \<Rightarrow> Next (n\<lparr>nd_stopClosed := shut\<rparr>) [TShutP2P main]
      | Fail _ \<Rightarrow> Next n []
      | Panic q \<Rightarrow> Crash q)"

definition shut_p2p_step :: "bool \<Rightarrow> node \<Rightarrow> outcome" where
  "shut_p2p_step main n =
     (let (p2p, r) = p2p_Stop (nd_p2pNetwork n)
      in goes_on r (n\<lparr>nd_p2pNetwork := p2p\<rparr>) [TShutSync main] CEnd)"

definition shut_sync_step :: "bool \<Rightarrow> node \<Rightarrow> outcome" where
  "shut_sync_step main n =
     (let (sm, r) = sync_Stop (nd_syncManager n)
      in goes_on r (n\<lparr>nd_syncManager := sm\<rparr>) [TCloseAll main] CEnd)"

definition close_all_step :: "node_env \<Rightarrow> bool \<Rightarrow> node \<Rightarrow> outcome" where
  "close_all_step env main n =
     return_step main (fold (\<lambda>(_, p) n. close_connection (pr_Connection (peer_at n p)) n)
       (ne_peer_order env (nd_peers n)) n)"

text \<open>What the engines start, once their \<open>Start\<close> succeeds, as it always does.\<close>

definition engine_threads :: "thread list" where
  "engine_threads = [TRound, TTelemetry, TPartitions, TLevel]"

lemma engines_start [simp]: "consensus_Start hc = Ok [TRound]" "cap_Start co = Ok [TTelemetry, TPartitions, TLevel]"
  by (simp_all add: consensus_Start_def cap_Start_def pow_Start_def bft_Start_def)

section \<open>The step of a thread\<close>

fun thread_step :: "node_env \<Rightarrow> io \<Rightarrow> thread \<Rightarrow> node \<Rightarrow> outcome" where
  "thread_step env inp (TAccept l) n = accept_loop l n"
| "thread_step env inp (TAccepting l) n = accept_step env inp l n"
| "thread_step env inp (TDial addr) n = dial_step env inp addr n"
| "thread_step env inp (TGreet p) n = handshake_step (send_version env p n) p (TVersion p)"
| "thread_step env inp (TVersion p) n = handshake_step (accept_version env p (io_message inp) n) p (TInsert p)"
| "thread_step env inp (TInsert p) n = insert_step p n"
| "thread_step env inp (TPeer p) n = peer_step env inp p n"
| "thread_step env inp (THandle p msg) n = handle_step env p msg n"
| "thread_step env inp (TDisconnect p) n = disconnect_step p n"
| "thread_step env inp (TClose conn) n = Next (close_connection conn n) []"
| "thread_step env inp (TJob j k) n = job_step env j k n"
| "thread_step env inp TMain n = main_loop env inp n"
| "thread_step env inp TRebalance n = rebalance_step env n"
| "thread_step env inp TPending n = pending_step env n"
| "thread_step env inp (TBuild txs) n = build_step env txs n"
| "thread_step env inp TSyncStart n = sync_start_step n"
| "thread_step env inp TSync n = sync_loop inp n"
| "thread_step env inp TRange n = sync_range n"
| "thread_step env inp TIter n = sync_iter env n"
| "thread_step env inp (TNext r) n = sync_next inp r n"
| "thread_step env inp (TAsk p r) n = sync_ask p r n"
| "thread_step env inp (TAskTo p from r) n = sync_ask_to env p from r n"
| "thread_step env inp TSynced n = sync_done n"
| "thread_step env inp (TSend p payload) n = Next (fst (sendMessage env p payload n)) []"
| "thread_step env inp (TVote msg) n = consensus_job env msg CEnd n"
| "thread_step env inp TRound n = consensus_loop env inp n"
| "thread_step env inp TTelemetry n = telemetry_loop inp n"
| "thread_step env inp TPartitions n = partition_loop inp n"
| "thread_step env inp TLevel n = level_loop env inp n"
| "thread_step env inp (TStart main) n = start_step main n"
| "thread_step env inp (TListen main) n = listen_step main inp n"
| "thread_step env inp TWait n = wait_step inp n"
| "thread_step env inp (TStop main) n = stop_step main n"
| "thread_step env inp (TShut main) n = shut_step main n"
| "thread_step env inp (TShutP2P main) n = shut_p2p_step main n"
| "thread_step env inp (TShutSync main) n = shut_sync_step main n"
| "thread_step env inp (TCloseAll main) n = close_all_step env main n"

text \<open>\<open>createNode\<close> of \<open>main.go\<close>, with the random bytes of the node ID and the VRF key as arguments.\<close>

definition createNode :: "digest \<Rightarrow> ec_curve \<Rightarrow> bytes \<Rightarrow> nat \<Rightarrow> go_time \<Rightarrow> node" where
  "createNode sha curve random d now =
     (let config = DefaultConfig random;
          chain = NewBlockchain sha (Unix now);
          amf = NewAdaptiveMerkleForest now;
          consensusEngine = NewHybridConsensus (NewVRFOracle curve d);
          sm = NewStateManager now
      in NewNode config chain amf consensusEngine sm)"

section \<open>The process\<close>

text \<open>Calls that code outside the repository (the tests, say) may add at any time when \<open>open_api\<close>.\<close>

fun api_call :: "thread \<Rightarrow> bool" where
  "api_call (TStart main) = (\<not> main)"
| "api_call (TStop main) = (\<not> main)"
| "api_call (TJob (JCheck b) CEnd) = True"
| "api_call (TJob (JTx tx) CEnd) = True"
| "api_call (TJob (JConsensus msg) CEnd) = True"
| "api_call _ = False"

text \<open>The orders of the ranges are orders of what is ranged over.\<close>

definition env_orders :: "node_env \<Rightarrow> node \<Rightarrow> bool" where
  "env_orders env n \<longleftrightarrow> forest_orders env (mf_shards (nd_merkleForest n)) \<and>
     range_order (ne_peer_order env (nd_peers n)) (nd_peers n) \<and>
     range_order (ne_pool_order env (mp_transactions (nd_mempool n))) (mp_transactions (nd_mempool n))"

text \<open>What \<open>net\<close> documents for \<open>Accept\<close>: on a closed listener it fails.\<close>

definition net_ok :: "io \<Rightarrow> thread \<Rightarrow> node \<Rightarrow> bool" where
  "net_ok inp t n \<longleftrightarrow>
     (\<forall>l. t = TAccepting l \<and> l \<in> set (p2p_closed (nd_p2pNetwork n)) \<longrightarrow> \<not> is_Ok (io_conn inp))"

inductive sys_step :: "digest \<Rightarrow> bool \<Rightarrow> node \<times> thread list \<Rightarrow> node \<times> thread list \<Rightarrow> bool"
  for sha open_api where
  run: "ne_sha env = sha \<Longrightarrow> env_orders env n \<Longrightarrow>
    thread_step env inp t n = Next n' ts \<Longrightarrow> net_ok inp t n \<Longrightarrow>
    sys_step sha open_api (n, us @ t # vs) (n', us @ ts @ vs)"
| call: "open_api \<Longrightarrow> api_call t \<Longrightarrow> sys_step sha open_api (n, ts) (n, t # ts)"

inductive sys_run :: "digest \<Rightarrow> bool \<Rightarrow> node \<times> thread list \<Rightarrow> node \<times> thread list \<Rightarrow> bool"
  for sha open_api s where
  refl: "sys_run sha open_api s s"
| step: "sys_run sha open_api s s' \<Longrightarrow> sys_step sha open_api s' s'' \<Longrightarrow> sys_run sha open_api s s''"

lemma sys_run_invariant [consumes 1, case_names start run call]:
  assumes "sys_run sha open_api s (n', ts')"
    and "\<And>n ts. s = (n, ts) \<Longrightarrow> P n ts"
    and "\<And>env inp t n n' ts us vs. ne_sha env = sha \<Longrightarrow> env_orders env n \<Longrightarrow>
      thread_step env inp t n = Next n' ts \<Longrightarrow> net_ok inp t n \<Longrightarrow> P n (us @ t # vs) \<Longrightarrow> P n' (us @ ts @ vs)"
    and "\<And>t n ts. open_api \<Longrightarrow> api_call t \<Longrightarrow> P n ts \<Longrightarrow> P n (t # ts)"
  shows "P n' ts'"
proof -
  have "case s' of (n, ts) \<Rightarrow> P n ts" if "sys_run sha open_api s s'" for s'
    using that
  proof (induction rule: sys_run.induct)
    case refl
    show ?case using assms(2) by (cases s) simp
  next
    case (step s' s'')
    from step.hyps(2) step.IH assms(3,4) show ?case by (cases rule: sys_step.cases) auto
  qed
  from this [OF assms(1)] show ?thesis by simp
qed

text \<open>
  How a goroutine can end the process. It panics; or it takes a step of the range over the peers,
  without the lock, while another goroutine writes the table: the runtime then aborts the process
  with \<open>concurrent map iteration and map write\<close>. Writes of the table hold the lock; a tick of the main
  loop writes it when it drops a peer.
\<close>

datatype crash = GoPanic go_panic | MapRace

fun ranging :: "thread \<Rightarrow> bool" where
  "ranging TIter = True" | "ranging (TNext _) = True" | "ranging _ = False"

fun writes_peers :: "node_env \<Rightarrow> io \<Rightarrow> thread \<Rightarrow> node \<Rightarrow> bool" where
  "writes_peers env inp (TInsert _) n = True"
| "writes_peers env inp (TDisconnect _) n = True"
| "writes_peers env inp TMain n = (io_tick inp \<and> nd_peers (updatePeerConnections env n) \<noteq> nd_peers n)"
| "writes_peers env inp _ n = False"

inductive sys_crash :: "node_env \<Rightarrow> io \<Rightarrow> node \<times> thread list \<Rightarrow> thread \<Rightarrow> crash \<Rightarrow> bool" for env inp where
  panic: "thread_step env inp t n = Crash q \<Longrightarrow> t \<in> set ts \<Longrightarrow> sys_crash env inp (n, ts) t (GoPanic q)"
| race: "ranging t \<Longrightarrow> t \<in> set ts \<Longrightarrow> t' \<in> set ts \<Longrightarrow> writes_peers env inp t' n \<Longrightarrow>
    sys_crash env inp (n, ts) t MapRace"

text \<open>
  The shape of most invariants of the process: a predicate of the node, and a kind of threads that never
  occurs. A client shows that one step of a thread of the other kinds keeps both.
\<close>

locale process_invariant =
  fixes sha :: digest and inv :: "node \<Rightarrow> bool" and bad :: "thread \<Rightarrow> bool"
  assumes keeps: "ne_sha env = sha \<Longrightarrow> env_orders env n \<Longrightarrow> thread_step env inp t n = Next n' ts \<Longrightarrow>
      inv n \<Longrightarrow> \<not> bad t \<Longrightarrow> inv n' \<and> (\<forall>t' \<in> set ts. \<not> bad t')"
    and harmless: "api_call t \<Longrightarrow> \<not> bad t"
begin

lemma run:
  assumes "sys_run sha open_api (n, ts) (n', ts')" and "inv n" and "\<forall>t \<in> set ts. \<not> bad t"
  shows "inv n' \<and> (\<forall>t \<in> set ts'. \<not> bad t)"
  using assms(1)
proof (induction rule: sys_run_invariant)
  case (run env inp t m m' new us vs)
  then have "inv m" "\<not> bad t" by simp_all
  from keeps [OF run.hyps(1-3) this] run.IH show ?case by auto
next
  case (call t m us)
  then show ?case using harmless by simp
qed (use assms(2,3) in simp)

end

end
