(* ===== verification/Node_Interleaving.thy ===== *)
theory Node_Interleaving
  imports Node_Threads
begin

text \<open>
  Invariants of the interleaved goroutines of \<open>Node_Threads\<close>: the components stay well formed, nothing is
  confirmed, every peer in the table has its goroutine, and where a crash can come from.
\<close>

section \<open>The components in every interleaving\<close>

lemmas loop_defs = accept_loop_def main_loop_def sync_loop_def ticker_loop_def cap_loop_def telemetry_loop_def
  partition_loop_def level_loop_def consensus_loop_def

lemmas lifecycle_defs = start_failed_def start_step_def listen_step_def sync_start_step_def wait_step_def return_step_def
  stop_step_def shut_step_def shut_p2p_step_def shut_sync_step_def close_all_step_def

lemmas connection_defs = new_peer_def accept_step_def dial_step_def handshake_step_def insert_step_def
  disconnect_step_def peer_step_def handle_step_def

lemmas tick_defs = rebalance_step_def pending_step_def build_step_def sync_range_def sync_iter_def
  sync_next_def sync_ask_def sync_ask_to_def sync_done_def

lemma goes_on_Next [simp]:
  "goes_on r n ts k = Next n' ts' \<longleftrightarrow> n' = n \<and>
     (case r of Ok _ \<Rightarrow> ts' = ts | Fail _ \<Rightarrow> ts' = resume k | Panic _ \<Rightarrow> False)"
  by (cases r) auto

lemma well_formed_mempool:
  "well_formed sha n \<Longrightarrow> pool_ok m \<Longrightarrow> mp_maxSize m = mp_maxSize (nd_mempool n) \<Longrightarrow>
    well_formed sha (n\<lparr>nd_mempool := m\<rparr>)"
  by (simp add: well_formed_def)

lemma well_formed_pool: "well_formed sha n \<Longrightarrow> pool_ok (nd_mempool n)"
  by (simp add: well_formed_def)

lemma consensus_job_Next:
  "consensus_job env msg k n = Next n' ts \<Longrightarrow>
    n' = fst (HandleConsensusMessage env msg n) \<and> (\<exists>msgs. ts = map TVote msgs @ resume k)"
  by (auto simp: consensus_job_def Let_def split: prod.splits res.splits)

lemma well_formed_job:
  assumes "job_step env j k n = Next n' ts" and "well_formed (ne_sha env) n"
  shows "well_formed (ne_sha env) n'"
proof (cases j)
  case (JAdd b)
  then show ?thesis
    using assms well_formed_AddBlock [OF assms(2), of "Unix (ne_now env)" b] by (auto split: prod.splits)
next
  case (JUpdate b)
  then show ?thesis using assms by (simp add: UpdateState_eq)
next
  case (JForget txs b)
  then show ?thesis
    using assms well_formed_mempool [OF assms(2) pool_ok_RemoveTransaction [OF well_formed_pool [OF assms(2)]]]
    by (cases txs) auto
next
  case (JPool tx)
  then show ?thesis
    using assms well_formed_mempool [OF assms(2) pool_ok_AddTransaction [OF well_formed_pool [OF assms(2)]], of tx]
      mp_maxSize_ops(1) [of tx "nd_mempool n"]
    by (auto split: prod.splits)
next
  case (JConsensus msg)
  then show ?thesis
    using assms by (auto dest!: consensus_job_Next intro: well_formed_HandleConsensusMessage)
next
  case (JData p h)
  then show ?thesis using assms by (auto split: res.splits)
next
  case (JReply p payload)
  then show ?thesis
    using assms well_formed_same [OF same_parts_send [of n env p payload]] by (auto split: prod.splits)
qed (use assms in auto)

lemma same_parts_fields:
  "same_parts n (n\<lparr>nd_peers := ps\<rparr>)" "same_parts n (n\<lparr>nd_heap := h\<rparr>)" "same_parts n (n\<lparr>nd_syncManager := sm\<rparr>)"
  "same_parts n (n\<lparr>nd_running := b\<rparr>)" "same_parts n (n\<lparr>nd_stopClosed := b\<rparr>)"
  "same_parts n (n\<lparr>nd_p2pNetwork := p2p\<rparr>)" "same_parts n (n\<lparr>nd_capOrchestrator := co\<rparr>)"
  by (simp_all add: same_parts_def)

lemma same_parts_handshake:
  "same_parts n (fst (send_version env p n))" "same_parts n (fst (accept_version env p received n))"
  by (simp_all add: send_version_def accept_version_def split: res.split)

lemma same_parts_close_all:
  "same_parts n (fold (\<lambda>(_, p) n. close_connection (pr_Connection (peer_at n p)) n) es n)"
  using close_all [of es n] by (auto simp: same_parts_def)

lemma handshake_step_Next:
  "handshake_step nr p t = Next n' ts \<Longrightarrow> n' = fst nr \<and> (ts = [t] \<or> (\<exists>c. ts = [TClose c]))"
  by (auto simp: handshake_step_def split: prod.splits res.splits)

text \<open>A step runs one operation of one component, or leaves them all alone.\<close>

lemma well_formed_thread:
  assumes "thread_step env inp t n = Next n' ts" and wf: "well_formed (ne_sha env) n"
    and "forest_orders env (mf_shards (nd_merkleForest n))"
  shows "well_formed (ne_sha env) n'"
proof -
  have same: "well_formed (ne_sha env) n'" if "same_parts n n'"
    using well_formed_same [OF that] wf by simp
  show ?thesis
  proof (cases t)
    case (TJob j k)
    then show ?thesis using assms well_formed_job by simp
  next
    case (TVote msg)
    then show ?thesis
      using assms by (auto dest!: consensus_job_Next intro: well_formed_HandleConsensusMessage)
  next
    case TRebalance
    obtain amf r where d: "DynamicShardRebalancing (ne_sha env) (ne_now env) (ne_forest_order env 0)
        (ne_forest_order env 1) (ne_shard_orders env) (nd_merkleForest n) = (amf, r)" by fastforce
    note step = assms(1) [unfolded TRebalance thread_step.simps rebalance_step_def Let_def d prod.case]
    have np: "r \<noteq> Panic q" for q using step by (cases r) simp_all
    have n': "n' = n\<lparr>nd_merkleForest := amf\<rparr>" using step by (cases r) simp_all
    have "forest_reachable (ne_sha env) (nd_merkleForest n)" using wf by (simp add: well_formed_def)
    from forest_reachable.rebalance [OF this _ _ _ d np] assms(3) show ?thesis
      unfolding n' by (intro well_formed_forest wf) (simp add: forest_orders_def)
  next
    case TRound
    have ok: "hc_ok (ne_sha env) (nd_consensus n)" using wf by (simp add: well_formed_def)
    show ?thesis
      using assms(1) wf hc_ok_runConsensusRound [OF _ ok] well_formed_consensus [OF wf]
      by (auto simp: TRound loop_defs split: if_splits option.splits res.splits)
  next
    case (TGreet p)
    then show ?thesis using assms(1) same handshake_step_Next same_parts_handshake by (metis thread_step.simps(4))
  next
    case (TVersion p)
    then show ?thesis using assms(1) same handshake_step_Next same_parts_handshake by (metis thread_step.simps(5))
  next
    case (TAskTo p low ps)
    then show ?thesis using assms(1) same same_parts_send by (auto simp: sync_ask_to_def)
  next
    case (TSend p payload)
    then show ?thesis using assms(1) same same_parts_send by auto
  next
    case (TCloseAll main)
    then show ?thesis
      using assms(1) same same_parts_close_all by (auto simp: lifecycle_defs split: if_splits)
  next
    case TMain
    then show ?thesis
      using assms(1) same wf same_parts_updatePeerConnections by (auto simp: loop_defs split: if_splits)
  next
    case (THandle p msg)
    then show ?thesis
      using assms(1) wf by (auto simp: handle_step_def split: res.splits option.splits)
  next
    case TPending
    then show ?thesis using assms(1) wf by (auto simp: pending_step_def split: res.splits)
  qed (use assms(1) wf same in \<open>auto simp: same_parts_fields connection_defs loop_defs lifecycle_defs tick_defs
      close_channel_def p2p_Stop_def sync_Stop_def Let_def split: if_splits res.splits list.splits\<close>)
qed

section \<open>Nothing is confirmed in any interleaving\<close>

lemma range_next_cases:
  obtains "range_next inp r m = TSynced" | r' where "range_next inp r m = TNext r'"
    | p r' where "range_next inp r m = TAsk p r'"
  by (cases r; cases "created_entry inp (fst r) m"; cases "snd r")
    (fastforce simp: range_next_def split: if_splits)+

fun confirming :: "thread \<Rightarrow> bool" where
  "confirming (TJob (JForget _ _) _) = True"
| "confirming (TJob (JCastBlock _) _) = True"
| "confirming _ = False"

lemma confirming_resume [simp]: "t \<in> set (resume k) \<Longrightarrow> \<not> confirming t"
  by (cases k) auto

lemma confirming_cast [simp]: "t \<in> set (cast env payload n) \<Longrightarrow> \<not> confirming t"
  by (auto simp: cast_def)

lemma kept_fields:
  "kept n (n\<lparr>nd_peers := ps\<rparr>)" "kept n (n\<lparr>nd_heap := h\<rparr>)" "kept n (n\<lparr>nd_syncManager := sm\<rparr>)"
  "kept n (n\<lparr>nd_running := b\<rparr>)" "kept n (n\<lparr>nd_stopClosed := b\<rparr>)" "kept n (n\<lparr>nd_merkleForest := amf\<rparr>)"
  "kept n (n\<lparr>nd_p2pNetwork := p2p\<rparr>)" "kept n (n\<lparr>nd_capOrchestrator := co\<rparr>)" "kept n (n\<lparr>nd_consensus := hc\<rparr>)"
  "kept n (n\<lparr>nd_blockchain := bc\<rparr>)" "kept n (close_connection c n)" "kept n (set_peer p q n)"
  by (simp_all add: kept_def close_connection_def)

lemma kept_HandleConsensusMessage: "kept n (fst (HandleConsensusMessage env msg n))"
  using calm_HandleConsensusMessage [of n env msg] by (simp add: calm_def)

lemma kept_send: "kept n (fst (sendMessage env p payload n))"
  by (rule only_sends_kept) simp

lemma kept_handshake:
  "kept n (fst (send_version env p n))" "kept n (fst (accept_version env p received n))"
  by (simp_all add: send_version_def accept_version_def kept_send kept_fields split: res.split)

lemma AddTransaction_kept:
  "AddTransaction tx (nd_mempool n) = (m, r) \<Longrightarrow> kept n (n\<lparr>nd_mempool := m\<rparr>)"
  by (auto simp: kept_def AddTransaction_def pool.get_put split: if_splits)

lemma kept_job:
  assumes "job_step env j k n = Next n' ts" and "\<not> confirming (TJob j k)"
  shows "kept n n' \<and> (\<forall>t \<in> set ts. \<not> confirming t)"
proof (cases j)
  case (JConsensus msg)
  then show ?thesis
    using assms(1) kept_HandleConsensusMessage by (auto dest!: consensus_job_Next)
next
  case (JPool tx)
  then show ?thesis
    using assms(1) AddTransaction_kept [of tx n] by (auto split: prod.splits res.splits)
next
  case (JReply p payload)
  then show ?thesis
    using assms(1) by (auto split: prod.splits res.splits) (metis fst_conv kept_send)+
next
  case (JUpdate b)
  then show ?thesis using assms(1) by (auto simp: UpdateState_eq split: res.splits)
qed (use assms in \<open>auto simp: kept_fields split: prod.splits res.splits if_splits\<close>)

lemma kept_close_all:
  "kept n (fold (\<lambda>(_, p) n. close_connection (pr_Connection (peer_at n p)) n) es n)"
  using close_all [of es n] by (auto simp: kept_def)

lemma range_next_confirming [simp]: "\<not> confirming (range_next inp r m)"
  by (cases inp r m rule: range_next_cases) auto

lemma kept_thread:
  assumes "thread_step env inp t n = Next n' ts" and "\<not> confirming t"
  shows "kept n n' \<and> (\<forall>t' \<in> set ts. \<not> confirming t')"
proof (cases t)
  case (TJob j k)
  then show ?thesis using assms kept_job by simp
next
  case (TVote msg)
  then show ?thesis
    using assms(1) kept_HandleConsensusMessage by (auto dest!: consensus_job_Next)
next
  case (TGreet p)
  then show ?thesis
    using assms(1) kept_handshake by (auto dest!: handshake_step_Next)
next
  case (TVersion p)
  then show ?thesis
    using assms(1) kept_handshake by (auto dest!: handshake_step_Next)
next
  case (TAskTo p low ps)
  then show ?thesis using assms(1) kept_send by (auto simp: sync_ask_to_def)
next
  case (TSend p payload)
  then show ?thesis using assms(1) kept_send by auto
next
  case (TCloseAll main)
  then show ?thesis using assms(1) kept_close_all by (auto simp: lifecycle_defs split: if_splits)
next
  case TMain
  then show ?thesis
    using assms(1) updatePeerConnections_frame(1) by (auto simp: loop_defs split: if_splits)
next
  case (THandle p msg)
  have "dispatch env p msg = Ok (Some j) \<Longrightarrow> \<not> confirming (TJob j k)" for j k
    by (auto simp: dispatch_def Let_def bind_res_Ok_iff split: if_splits)
  with THandle show ?thesis
    using assms(1) by (auto simp: handle_step_def split: res.splits option.splits)
next
  case TPending
  then show ?thesis using assms(1) by (auto simp: pending_step_def split: res.splits if_splits)
next
  case TRound
  then show ?thesis
    using assms(1) by (auto simp: loop_defs kept_fields split: if_splits option.splits res.splits)
next
  case (TListen main)
  then show ?thesis
    using assms(1) by (auto simp: listen_step_def start_failed_def Let_def connectToBootstrapPeers_def
        kept_fields split: if_splits res.splits)
qed (use assms(1) in \<open>auto simp: kept_fields connection_defs loop_defs lifecycle_defs tick_defs
    close_channel_def p2p_Stop_def sync_Stop_def Let_def split: if_splits res.splits list.splits prod.splits\<close>)

section \<open>Peers and their goroutines\<close>

text \<open>
  The peers a thread points to; the peer it owns, from the handshake to the end of \<open>handlePeer\<close>; and the
  one it owns after the peer went into the table.
\<close>

fun job_pointers :: "job \<Rightarrow> nat list" where
  "job_pointers (JHeight p _ _ _) = [p]"
| "job_pointers (JFetch p _ _ _) = [p]"
| "job_pointers (JData p _) = [p]"
| "job_pointers (JReply p _) = [p]"
| "job_pointers _ = []"

fun cont_owner :: "cont \<Rightarrow> nat list" where
  "cont_owner (CPeer p) = [p]"
| "cont_owner _ = []"

fun serving :: "thread \<Rightarrow> nat list" where
  "serving (TPeer p) = [p]"
| "serving (THandle p _) = [p]"
| "serving (TDisconnect p) = [p]"
| "serving (TJob _ k) = cont_owner k"
| "serving _ = []"

fun owner :: "thread \<Rightarrow> nat list" where
  "owner (TGreet p) = [p]"
| "owner (TVersion p) = [p]"
| "owner (TInsert p) = [p]"
| "owner t = serving t"

fun pointers :: "thread \<Rightarrow> nat list" where
  "pointers (TJob j k) = job_pointers j @ cont_owner k"
| "pointers (TNext r) = map snd (snd r)"
| "pointers (TAsk p r) = p # map snd (snd r)"
| "pointers (TAskTo p _ r) = p # map snd (snd r)"
| "pointers (TSend p _) = [p]"
| "pointers t = owner t"

definition owners :: "thread list \<Rightarrow> nat list" where
  "owners ts = concat (map owner ts)"

definition servers :: "thread list \<Rightarrow> nat list" where
  "servers ts = concat (map serving ts)"

lemma owners_simps [simp]:
  "owners [] = []" "owners (t # ts) = owner t @ owners ts" "owners (ts @ us) = owners ts @ owners us"
  by (simp_all add: owners_def)

lemma servers_simps [simp]:
  "servers [] = []" "servers (t # ts) = serving t @ servers ts" "servers (ts @ us) = servers ts @ servers us"
  by (simp_all add: servers_def)

lemma serving_owner: "p \<in> set (serving t) \<Longrightarrow> p \<in> set (owner t)"
  by (cases t) auto

lemma cont_owner_single: "p \<in> set (cont_owner k) \<Longrightarrow> cont_owner k = [p]"
  by (cases k) auto

lemma serving_single: "p \<in> set (serving t) \<Longrightarrow> serving t = [p]"
  by (cases t) (auto dest: cont_owner_single)

lemma owner_pointers: "p \<in> set (owner t) \<Longrightarrow> p \<in> set (pointers t)"
  by (cases t) auto

lemma servers_owners: "p \<in> set (servers ts) \<Longrightarrow> p \<in> set (owners ts)"
  by (induction ts) (auto dest: serving_owner)

lemma resume_peers [simp]:
  "owners (resume k) = cont_owner k" "servers (resume k) = cont_owner k"
  "t \<in> set (resume k) \<Longrightarrow> p \<in> set (pointers t) \<Longrightarrow> p \<in> set (cont_owner k)"
  by (cases k; auto)+

lemma votes_peers [simp]: "owners (map TVote msgs) = []" "servers (map TVote msgs) = []"
  by (induction msgs) auto

lemma dials_peers [simp]: "owners (map TDial as) = []" "servers (map TDial as) = []"
  by (induction as) auto

lemma cast_peers [simp]: "owners (cast env payload n) = []" "servers (cast env payload n) = []"
proof -
  have "owners (map (\<lambda>(x :: string, p). TSend p payload) es) = [] \<and> servers (map (\<lambda>(x :: string, p). TSend p payload) es) = []" for es
    by (induction es) auto
  then show "owners (cast env payload n) = []" "servers (cast env payload n) = []"
    by (simp_all add: cast_def)
qed

definition table_ok :: "node \<Rightarrow> bool" where
  "table_ok n \<longleftrightarrow> (\<forall>i p. fmlookup (nd_peers n) i = Some p \<longrightarrow>
     p < length (nd_heap n) \<and> pr_ID (peer_at n p) = i)"

text \<open>What a step of \<open>t\<close> to \<open>ts\<close> may do to peers.\<close>

definition peer_effect :: "node \<Rightarrow> thread \<Rightarrow> node \<Rightarrow> thread list \<Rightarrow> bool" where
  "peer_effect n t n' ts \<longleftrightarrow>
     length (nd_heap n) \<le> length (nd_heap n') \<and>
     (\<forall>p < length (nd_heap n). p \<in> set (serving t) \<or> p \<notin> set (owner t) \<longrightarrow> pr_ID (peer_at n' p) = pr_ID (peer_at n p)) \<and>
     (\<forall>t' \<in> set ts. \<forall>p \<in> set (pointers t'). p < length (nd_heap n')) \<and>
     (owners ts = owner t \<or> owners ts = [] \<or>
        owner t = [] \<and> owners ts = [length (nd_heap n)] \<and> length (nd_heap n) < length (nd_heap n')) \<and>
     (\<forall>i p. fmlookup (nd_peers n') i = Some p \<longrightarrow>
        fmlookup (nd_peers n) i = Some p \<and> (p \<in> set (serving t) \<longrightarrow> p \<in> set (servers ts)) \<or>
        p \<in> set (owner t) \<and> i = pr_ID (peer_at n' p) \<and> p \<in> set (servers ts))"

lemma peer_effect_same:
  assumes "nd_peers n' = nd_peers n" and "nd_heap n' = nd_heap n"
    and "\<And>t' p. t' \<in> set ts \<Longrightarrow> p \<in> set (pointers t') \<Longrightarrow> p < length (nd_heap n)"
    and "owners ts = owner t" and "servers ts = serving t"
  shows "peer_effect n t n' ts"
  using assms by (auto simp: peer_effect_def peer_at_def)

lemma cast_pointers:
  assumes "table_ok n" and "range_order (ne_peer_order env (nd_peers n)) (nd_peers n)"
    and "t \<in> set (cast env payload n)" and "p \<in> set (pointers t)"
  shows "p < length (nd_heap n)"
  using assms range_order_lookup [OF assms(2)] by (auto simp: cast_def table_ok_def)

lemma HandleConsensusMessage_peers:
  "nd_peers (fst (HandleConsensusMessage env msg n)) = nd_peers n"
  "nd_heap (fst (HandleConsensusMessage env msg n)) = nd_heap n"
  by (simp_all add: HandleConsensusMessage_def split: prod.split)

lemma consensus_job_effect:
  assumes "consensus_job env msg k n = Next n' ts" and "owner t = cont_owner k" and "serving t = cont_owner k"
    and "\<forall>p \<in> set (owner t). p < length (nd_heap n)"
  shows "peer_effect n t n' ts"
proof -
  from consensus_job_Next [OF assms(1)] obtain msgs where
    n': "n' = fst (HandleConsensusMessage env msg n)" and ts: "ts = map TVote msgs @ resume k" by blast
  show ?thesis
    unfolding n' ts using assms(2-4)
    by (intro peer_effect_same) (auto simp: HandleConsensusMessage_peers dest: resume_peers(3))
qed

lemma sendMessage_peers:
  assumes "sendMessage env p payload n = (n', r)"
  shows "nd_peers n' = nd_peers n" "nd_heap n' = nd_heap n"
  using assms by (auto simp: sendMessage_def Let_def)

lemma job_effect:
  assumes "job_step env j k n = Next n' ts" and "table_ok n"
    and "range_order (ne_peer_order env (nd_peers n)) (nd_peers n)"
    and "\<forall>p \<in> set (pointers (TJob j k)). p < length (nd_heap n)"
  shows "peer_effect n (TJob j k) n' ts"
proof -
  have cast: "t \<in> set (cast env payload n) \<Longrightarrow> p \<in> set (pointers t) \<Longrightarrow> p < length (nd_heap n)" for t p payload
    by (rule cast_pointers [OF assms(2,3)])
  show ?thesis
  proof (cases j)
    case (JConsensus msg)
    then show ?thesis using assms consensus_job_effect by fastforce
  next
    case (JForget txs b)
    then show ?thesis using assms by (cases txs) (auto intro!: peer_effect_same)
  next
    case (JUpdate b)
    then show ?thesis
      using assms by (auto simp: UpdateState_eq intro!: peer_effect_same dest: resume_peers(3) split: res.splits)
  next
    case (JCastBlock b)
    then show ?thesis using assms cast by (auto intro!: peer_effect_same dest: resume_peers(3))
  next
    case (JCastTx tx)
    then show ?thesis using assms cast by (auto intro!: peer_effect_same dest: resume_peers(3))
  next
    case (JReply p payload)
    obtain m r where m: "sendMessage env p payload n = (m, r)" by fastforce
    show ?thesis
      using assms JReply m sendMessage_peers [OF m]
      by (auto intro!: peer_effect_same dest: resume_peers(3) split: res.splits)
  qed (use assms in \<open>auto intro!: peer_effect_same dest: resume_peers(3) split: prod.splits res.splits if_splits\<close>)
qed

lemma send_version_peers:
  "nd_peers (fst (send_version env p n)) = nd_peers n" "nd_heap (fst (send_version env p n)) = nd_heap n"
  by (simp_all add: send_version_def sendMessage_def Let_def)

text \<open>A handshake step may set the ID of the peer it greets, and keeps or gives up the peer.\<close>

lemma handshake_effect:
  assumes "handshake_step nr p t' = Next n' ts" and "owner t = [p]" and "serving t = []"
    and "owner t' = [p]" and "pointers t' = [p]" and "serving t' = []" and "p < length (nd_heap n)"
    and "nd_peers (fst nr) = nd_peers n" and "length (nd_heap (fst nr)) = length (nd_heap n)"
    and "\<forall>q. q \<noteq> p \<longrightarrow> peer_at (fst nr) q = peer_at n q"
  shows "peer_effect n t n' ts"
  using handshake_step_Next [OF assms(1)] assms(2-) by (auto simp: peer_effect_def)

lemma new_peer_effect:
  assumes "nd_heap n' = nd_heap n @ [q]" and "nd_peers n' = nd_peers n" and "owner t = []"
    and "owners ts = [length (nd_heap n)]" and "\<forall>t' \<in> set ts. set (pointers t') \<subseteq> {length (nd_heap n)}"
  shows "peer_effect n t n' ts"
proof -
  have s: "serving t = []" using assms(3) serving_owner [of _ t] by (cases "serving t") auto
  have "peer_at n' p = peer_at n p" if "p < length (nd_heap n)" for p
    using that assms(1) by (simp add: peer_at_def nth_append)
  with assms s show ?thesis by (auto simp: peer_effect_def)
qed

lemma new_peer_thread_effect:
  assumes "new_peer env addr conn n = Next n' us" and "owner t = []" and "ts = us \<or> ts = TAccept l # us"
  shows "peer_effect n t n' ts"
  using assms by (intro new_peer_effect [of _ _ "\<lparr>pr_ID = [], pr_Address = addr, pr_Connection = conn,
      pr_Version = 0, pr_LastSeen = ne_now env, pr_ReputationScore = Fin 0\<rparr>"]) (auto simp: new_peer_def)

lemma fold_close_peers:
  "nd_peers (fold (\<lambda>(_, p) n. close_connection (pr_Connection (peer_at n p)) n) es n) = nd_peers n"
  "nd_heap (fold (\<lambda>(_, p) n. close_connection (pr_Connection (peer_at n p)) n) es n) = nd_heap n"
  using close_all [of es n] by auto

lemma updatePeerConnections_peers:
  "nd_heap (updatePeerConnections env n) = nd_heap n"
  "fmlookup (nd_peers (updatePeerConnections env n)) i = Some p \<Longrightarrow> fmlookup (nd_peers n) i = Some p"
  using drop_inactive_fold [of "ne_now env" "ne_peer_order env (nd_peers n)" n i]
  by (simp_all add: updatePeerConnections_def split: if_splits)

lemma updatePeerConnections_effect: "peer_effect n TMain (updatePeerConnections env n) [TRebalance]"
  unfolding peer_effect_def using updatePeerConnections_peers(2) [of env n]
  by (simp add: updatePeerConnections_peers(1) peer_at_def)

lemma dispatch_pointers:
  "dispatch env p msg = Ok (Some j) \<Longrightarrow> q \<in> set (job_pointers j) \<Longrightarrow> q = p"
  by (auto simp: dispatch_def Let_def bind_res_Ok_iff split: if_splits)

lemma greeting_effect:
  assumes step: "thread_step env inp t n = Next n' ts" and table: "table_ok n"
    and t: "t = TGreet p \<or> t = TVersion p \<or> t = TInsert p" and bound: "p < length (nd_heap n)"
  shows "peer_effect n t n' ts"
  using t
proof (elim disjE)
  assume t: "t = TGreet p"
  then show ?thesis
    using step bound send_version_peers [of env p n]
    by (intro handshake_effect [where nr = "send_version env p n" and t' = "TVersion p"])
      (auto simp: peer_at_def)
next
  assume t: "t = TVersion p"
  have "nd_peers (fst (accept_version env p (io_message inp) n)) = nd_peers n \<and>
      length (nd_heap (fst (accept_version env p (io_message inp) n))) = length (nd_heap n) \<and>
      (\<forall>q. q \<noteq> p \<longrightarrow> peer_at (fst (accept_version env p (io_message inp) n)) q = peer_at n q)"
    using bound by (auto simp: accept_version_def peer_at_set_peer split: res.split)
  with t show ?thesis
    using step bound
    by (intro handshake_effect [where nr = "accept_version env p (io_message inp) n" and t' = "TInsert p"]) auto
next
  assume t: "t = TInsert p"
  then show ?thesis
    using step bound table by (auto simp: insert_step_def peer_effect_def peer_at_def split: if_splits)
qed

lemma serving_effect:
  assumes step: "thread_step env inp t n = Next n' ts" and table: "table_ok n"
    and t: "t = TPeer p \<or> t = TDisconnect p \<or> t = THandle p msg" and bound: "p < length (nd_heap n)"
  shows "peer_effect n t n' ts"
  using t
proof (elim disjE)
  assume "t = TPeer p"
  then show ?thesis
    using step bound by (auto simp: peer_step_def peer_effect_def peer_at_set_peer split: res.splits)
next
  assume "t = TDisconnect p"
  then show ?thesis
    using step bound table by (auto simp: disconnect_step_def peer_effect_def peer_at_def table_ok_def split: if_splits)
next
  assume "t = THandle p msg"
  then show ?thesis
    using step bound by (auto simp: handle_step_def intro!: peer_effect_same dest: dispatch_pointers
        split: res.splits option.splits)
qed

lemma connecting_effect:
  assumes step: "thread_step env inp t n = Next n' ts" and t: "t = TAccepting l \<or> t = TDial addr"
  shows "peer_effect n t n' ts"
proof (cases "io_conn inp")
  case (Ok conn)
  from t show ?thesis
  proof
    assume t: "t = TAccepting l"
    then obtain us where "new_peer env '''' conn n = Next n' us" "ts = TAccept l # us"
      using step Ok by (auto simp: accept_step_def split: outcome.splits)
    then show ?thesis using t new_peer_thread_effect by simp
  next
    assume t: "t = TDial addr"
    then show ?thesis using step Ok new_peer_thread_effect [of env addr conn n n' ts] by (simp add: dial_step_def)
  qed
qed (use step t in \<open>auto simp: accept_step_def dial_step_def intro!: peer_effect_same\<close>)

lemma range_next_peers [simp]: "owner (range_next inp r m) = []" "serving (range_next inp r m) = []"
  by (cases inp r m rule: range_next_cases; simp)+

lemma created_entry_Some: "created_entry inp start m = Some (i, p) \<Longrightarrow> fmlookup m i = Some p"
  by (auto simp: created_entry_def split: option.splits)

lemma created_entry_same [simp]: "created_entry inp m m = None"
proof -
  have "find (\<lambda>i. fmlookup m i \<noteq> None \<and> fmlookup m i \<noteq> fmlookup m i) xs = None" for xs by (simp add: find_None_iff)
  then show ?thesis by (simp add: created_entry_def)
qed

lemma range_next_pointers:
  assumes "p \<in> set (pointers (range_next inp r m))" and "\<forall>p \<in> set (map snd (snd r)). p < k"
    and "\<forall>i p. fmlookup m i = Some p \<longrightarrow> p < k"
  shows "p < k"
proof -
  obtain start es where r: "r = (start, es)" by fastforce
  have old: "p < k" if "(i, p) \<in> set es" for i p using assms(2) that by (force simp: r)
  from assms(1,3) old created_entry_Some [of inp start m] show ?thesis
    by (cases es) (fastforce simp: r range_next_def split: option.splits if_splits)+
qed

lemma thread_effect:
  assumes step: "thread_step env inp t n = Next n' ts" and table: "table_ok n"
    and order: "range_order (ne_peer_order env (nd_peers n)) (nd_peers n)"
    and bound: "\<forall>p \<in> set (pointers t). p < length (nd_heap n)"
  shows "peer_effect n t n' ts"
proof (cases t)
  case (TJob j k)
  then show ?thesis using assms job_effect by simp
next
  case (TVote msg)
  then show ?thesis using step by (auto intro: consensus_job_effect [where k = CEnd])
next
  case (TGreet p)
  then show ?thesis using greeting_effect [OF step table] bound by simp
next
  case (TVersion p)
  then show ?thesis using greeting_effect [OF step table] bound by simp
next
  case (TInsert p)
  then show ?thesis using greeting_effect [OF step table] bound by simp
next
  case (TPeer p)
  then show ?thesis using serving_effect [OF step table] bound by simp
next
  case (TDisconnect p)
  then show ?thesis using serving_effect [OF step table] bound by simp
next
  case (THandle p msg)
  then show ?thesis using serving_effect [OF step table] bound by simp
next
  case TMain
  then show ?thesis
    using step updatePeerConnections_effect
    by (cases "io_tick inp"; cases "nd_stopClosed n") (auto simp: loop_defs intro: peer_effect_same)
next
  case TIter
  have "p < length (nd_heap n)" if "p \<in> set (map snd (ne_peer_order env (nd_peers n)))" for p
    using that table range_order_lookup [OF order] by (auto simp: table_ok_def)
  with TIter show ?thesis
    using step by (auto simp: sync_iter_def intro!: peer_effect_same)
next
  case (TNext r)
  with bound table have "p < length (nd_heap n)" if "p \<in> set (pointers (range_next inp r (nd_peers n)))" for p
    using that by (intro range_next_pointers [of p inp r "nd_peers n"]) (auto simp: table_ok_def)
  with TNext show ?thesis
    using step by (auto simp: sync_next_def intro!: peer_effect_same)
next
  case (TAccepting l)
  then show ?thesis using connecting_effect [OF step] by simp
next
  case (TDial addr)
  then show ?thesis using connecting_effect [OF step] by simp
next
  case (TSend p payload)
  then show ?thesis
    using step by (auto intro!: peer_effect_same simp: sendMessage_def Let_def simp: peer_effect_def peer_at_def)
next
  case (TAskTo p low ps)
  then show ?thesis
    using step bound by (auto intro!: peer_effect_same simp: sync_ask_to_def sendMessage_def Let_def)
next
  case (TCloseAll main)
  then show ?thesis
    using step fold_close_peers by (auto simp: lifecycle_defs intro!: peer_effect_same split: if_splits)
next
  case TPending
  then show ?thesis
    using step by (auto simp: pending_step_def intro!: peer_effect_same split: res.splits if_splits)
next
  case (TListen main)
  then show ?thesis
    using step by (auto simp: listen_step_def start_failed_def Let_def connectToBootstrapPeers_def
        intro!: peer_effect_same split: if_splits res.splits)
next
  case TRebalance
  then show ?thesis
    using step by (auto simp: rebalance_step_def Let_def intro!: peer_effect_same split: prod.splits res.splits)
next
  case TRound
  then show ?thesis
    using step by (auto simp: loop_defs intro!: peer_effect_same split: if_splits option.splits res.splits)
next
  case (TAsk p r)
  then show ?thesis
    using step bound by (auto simp: sync_ask_def intro!: peer_effect_same)
next
  case (TClose conn)
  then show ?thesis
    using step by (auto simp: close_connection_def intro!: peer_effect_same)
qed (use step in \<open>auto simp: loop_defs lifecycle_defs tick_defs close_channel_def p2p_Stop_def sync_Stop_def Let_def
    intro!: peer_effect_same split: if_splits res.splits prod.splits\<close>)

definition peers_inv :: "node \<Rightarrow> thread list \<Rightarrow> bool" where
  "peers_inv n ts \<longleftrightarrow> table_ok n \<and> distinct (owners ts) \<and>
     (\<forall>t \<in> set ts. \<forall>p \<in> set (pointers t). p < length (nd_heap n)) \<and>
     (\<forall>i p. fmlookup (nd_peers n) i = Some p \<longrightarrow> p \<in> set (servers ts))"

lemma owners_bound:
  "\<forall>t \<in> set ts. \<forall>p \<in> set (pointers t). p < m \<Longrightarrow> p \<in> set (owners ts) \<Longrightarrow> p < m"
  by (auto simp: owners_def dest: owner_pointers)

lemma owners_fresh:
  "\<forall>t \<in> set ts. \<forall>p \<in> set (pointers t). p < m \<Longrightarrow> m \<notin> set (owners ts)"
  using owners_bound by blast

lemma peers_inv_step:
  assumes "thread_step env inp t n = Next n' ts" and inv: "peers_inv n (us @ t # vs)"
    and "range_order (ne_peer_order env (nd_peers n)) (nd_peers n)"
  shows "peers_inv n' (us @ ts @ vs)"
proof -
  have tab: "table_ok n" and dist: "distinct (owners (us @ t # vs))"
    and bound: "\<forall>t' \<in> set (us @ t # vs). \<forall>p \<in> set (pointers t'). p < length (nd_heap n)"
    and served: "\<And>i p. fmlookup (nd_peers n) i = Some p \<Longrightarrow> p \<in> set (servers (us @ t # vs))"
    using inv by (auto simp: peers_inv_def)
  from thread_effect [OF assms(1) tab assms(3)] bound have e: "peer_effect n t n' ts" by simp
  note e = e [unfolded peer_effect_def]
  note len = e [THEN conjunct1]
  have ids: "pr_ID (peer_at n' p) = pr_ID (peer_at n p)"
    if "p < length (nd_heap n)" "p \<in> set (serving t) \<or> p \<notin> set (owner t)" for p
    using that e [THEN conjunct2, THEN conjunct1, rule_format, OF that] by simp
  note bound' = e [THEN conjunct2, THEN conjunct2, THEN conjunct1]
  note own = e [THEN conjunct2, THEN conjunct2, THEN conjunct2, THEN conjunct1]
  note look = e [THEN conjunct2, THEN conjunct2, THEN conjunct2, THEN conjunct2, rule_format]
  have "length (nd_heap n) \<notin> set (owners (us @ t # vs))" by (rule owners_fresh [OF bound])
  then have fresh: "length (nd_heap n) \<notin> set (owners us) \<union> set (owners vs)" by simp
  have "distinct (owners (us @ ts @ vs))" using dist own fresh by auto
  moreover have "p < length (nd_heap n')" if "t' \<in> set (us @ ts @ vs)" "p \<in> set (pointers t')" for t' p
  proof -
    from that(1) consider "t' \<in> set ts" | "t' \<in> set (us @ t # vs)" by auto
    then show ?thesis
    proof cases
      case 1
      with bound' that(2) show ?thesis by blast
    next
      case 2
      with bound that(2) have "p < length (nd_heap n)" by blast
      with len show ?thesis by simp
    qed
  qed
  moreover have "p < length (nd_heap n') \<and> pr_ID (peer_at n' p) = i \<and> p \<in> set (servers (us @ ts @ vs))"
    if l: "fmlookup (nd_peers n') i = Some p" for i p
    using look [OF l]
  proof
    assume old: "fmlookup (nd_peers n) i = Some p \<and> (p \<in> set (serving t) \<longrightarrow> p \<in> set (servers ts))"
    then have p: "p < length (nd_heap n)" "pr_ID (peer_at n p) = i" using tab by (auto simp: table_ok_def)
    have s: "p \<in> set (servers us) \<or> p \<in> set (serving t) \<or> p \<in> set (servers vs)"
      using served old by auto
    then have "p \<in> set (serving t) \<or> p \<notin> set (owner t)"
      using dist servers_owners [of p us] servers_owners [of p vs] by auto
    with ids p s old len show ?thesis by auto
  next
    assume new: "p \<in> set (owner t) \<and> i = pr_ID (peer_at n' p) \<and> p \<in> set (servers ts)"
    then have "p < length (nd_heap n)" using bound owner_pointers [of p t] by auto
    with new len show ?thesis by auto
  qed
  ultimately show ?thesis by (auto simp: peers_inv_def table_ok_def)
qed

lemma api_call_owner:
  assumes "api_call t"
  shows "owner t = []" "serving t = []" "pointers t = []" "\<not> confirming t"
  using assms by (cases rule: api_call.elims(2); simp)+

section \<open>Runs of the process\<close>

lemma createNode_new:
  "well_formed sha (createNode sha curve random d now)" "nd_peers (createNode sha curve random d now) = fmempty"
  "nd_heap (createNode sha curve random d now) = []"
  by (simp_all add: createNode_def Let_def well_formed_new) (simp_all add: NewNode_def)

interpretation wf: process_invariant sha "well_formed sha" "\<lambda>_. False" for sha
  by unfold_locales (auto dest: well_formed_thread simp: env_orders_def)

interpretation keeping: process_invariant sha "kept n0" confirming for sha n0
  by unfold_locales (use kept_thread kept_trans in blast, rule api_call_owner(4))

lemma run_well_formed: "sys_run sha open_api (n, ts) (n', ts') \<Longrightarrow> well_formed sha n \<Longrightarrow> well_formed sha n'"
  using wf.run by simp

lemma run_kept:
  "sys_run sha open_api (n, ts) (n', ts') \<Longrightarrow> \<forall>t \<in> set ts. \<not> confirming t \<Longrightarrow>
    kept n n' \<and> (\<forall>t \<in> set ts'. \<not> confirming t)"
  using keeping.run kept_refl by blast

lemma run_peers_inv:
  assumes "sys_run sha open_api (n, ts) (n', ts')" and "peers_inv n ts"
  shows "peers_inv n' ts'"
  using assms(1)
proof (induction rule: sys_run_invariant)
  case (start m us)
  then show ?case using assms(2) by simp
next
  case (run env inp t m m' new us vs)
  then show ?case using peers_inv_step by (auto simp: env_orders_def)
next
  case (call t m us)
  then show ?case using api_call_owner [OF call(2)] by (simp add: peers_inv_def)
qed

end
