(* ===== verification/Node_Lifecycle.thy ===== *)
theory Node_Lifecycle
  imports Node_Interleaving
begin

text \<open>
  What the goroutines of \<open>Node_Threads\<close> never do: change the forest, the validators or the orchestrator's
  profile, crash in \<open>Start\<close> or \<open>Stop\<close> when only \<open>main\<close> calls them, accept a connection after a stop.
\<close>

section \<open>What never happens\<close>

text \<open>
  No goroutine updates the load of a shard, adds a validator or finds a partition: the forest keeps its one
  shard, the validators stay empty and the orchestrator keeps its profile.
\<close>

definition idle :: "go_time \<Rightarrow> node \<Rightarrow> bool" where
  "idle t0 n \<longleftrightarrow> nd_merkleForest n = NewAdaptiveMerkleForest t0 \<and>
     hc_validators (nd_consensus n) = fmempty \<and> cap_reachable (nd_capOrchestrator n)"

lemma range_order_single:
  assumes "range_order es (fmupd k v fmempty)"
  shows "es = [(k, v)]"
proof -
  have mem: "(i, x) \<in> set es \<longleftrightarrow> i = k \<and> x = v" for i x
    using range_order_lookup [OF assms, of i x] by auto
  have "distinct es" using assms by (auto simp: range_order_def distinct_map)
  moreover have "set es = {(k, v)}" using mem by auto
  ultimately show ?thesis
  proof (cases es)
    case (Cons x xs)
    with \<open>set es = {(k, v)}\<close> have "x = (k, v)" "set xs \<subseteq> {(k, v)}" by auto
    moreover from this \<open>distinct es\<close> Cons have "(k, v) \<notin> set xs" by simp
    ultimately have "set xs = {}" by (metis insertI1 subset_singletonD)
    with \<open>x = (k, v)\<close> Cons show ?thesis by simp
  qed simp
qed

lemma rebalancing_idle:
  assumes "range_order es (mf_shards (NewAdaptiveMerkleForest t0))"
    and "range_order es' (mf_shards (NewAdaptiveMerkleForest t0))"
    and "\<And>i. range_order (orders i) (mf_shards (NewAdaptiveMerkleForest t0))"
  shows "DynamicShardRebalancing sha now es es' orders (NewAdaptiveMerkleForest t0) =
    (NewAdaptiveMerkleForest t0, Ok ())"
proof -
  let ?amf = "NewAdaptiveMerkleForest t0" and ?s = "new_shard 0 (Fin 0) 0 t0"
  have shards: "mf_shards ?amf = fmupd 0 ?s fmempty"
    by (simp add: NewAdaptiveMerkleForest_def initializeRootShard_def)
  have es: "es = [(0, ?s)]" "es' = [(0, ?s)]" "\<And>i. orders i = [(0, ?s)]"
    using assms(1,2) [unfolded shards, THEN range_order_single] assms(3) [unfolded shards, THEN range_order_single]
    by blast+
  have "mf_rebalancer ?amf = NewShardRebalancer"
    by (simp add: NewAdaptiveMerkleForest_def initializeRootShard_def)
  moreover have "\<not> f64_less (f64_round (9 / 10)) (Fin 0)"
    unfolding f64_constants by simp
  ultimately show ?thesis
    by (simp add: DynamicShardRebalancing_def es AnalyzeShardLoads_def analyze_shard_def Let_def
        findMergeCandidate_def NewShardRebalancer_def new_shard_def load_only_def)
qed

definition chans :: "node \<Rightarrow> bool \<times> bool \<times> bool" where
  "chans n = (nd_stopClosed n, p2p_stopClosed (nd_p2pNetwork n), sy_stopClosed (nd_syncManager n))"

fun control :: "thread \<Rightarrow> bool" where
  "control (TStart _) = True" | "control (TListen _) = True" | "control TWait = True"
| "control (TStop _) = True" | "control (TShut _) = True" | "control (TShutP2P _) = True"
| "control (TShutSync _) = True" | "control (TCloseAll _) = True" | "control _ = False"

text \<open>The parts of the node that only the loops and the callers of \<open>Start\<close> and \<open>Stop\<close> write.\<close>

definition same_rest :: "node \<Rightarrow> node \<Rightarrow> bool" where
  "same_rest n n' \<longleftrightarrow> nd_merkleForest n' = nd_merkleForest n \<and>
     hc_validators (nd_consensus n') = hc_validators (nd_consensus n) \<and>
     nd_capOrchestrator n' = nd_capOrchestrator n \<and> nd_p2pNetwork n' = nd_p2pNetwork n \<and>
     nd_running n' = nd_running n \<and> chans n' = chans n"

lemma validators_ProcessConsensusMessage:
  "hc_validators (fst (ProcessConsensusMessage sha codec now msg hc)) = hc_validators hc"
  by (auto simp: ProcessConsensusMessage_def ProcessVote_def VerifyNode_def bft_ProcessVote_def
      ProcessProposal_def hc_ValidateBlock_eq signVote_def Let_def broadcastVote_def storePrepared_def
      ProcessCommit_eq FinalizeBlock_def hasQuorum_def storeCommitted_def split: option.split)

lemma same_rest_consensus:
  "same_rest n (fst (HandleConsensusMessage env msg n))"
  using validators_ProcessConsensusMessage [of "ne_sha env" "ne_codec env" "ne_now env" msg "nd_consensus n"]
  by (simp add: same_rest_def chans_def HandleConsensusMessage_def split_beta)

lemma same_rest_sends:
  assumes "only_sends n n'"
  shows "same_rest n n'"
proof -
  from assms obtain s where "n' = n\<lparr>nd_sent := s\<rparr>" unfolding only_sends_def by blast
  then show ?thesis by (simp add: same_rest_def chans_def)
qed

lemma same_rest_refl [simp]: "same_rest n n"
  by (simp add: same_rest_def)

lemma same_rest_fields:
  "same_rest n (n\<lparr>nd_peers := ps\<rparr>)" "same_rest n (n\<lparr>nd_heap := h\<rparr>)"
  "same_rest n (n\<lparr>nd_blockchain := bc\<rparr>)" "same_rest n (n\<lparr>nd_stateManager := sm\<rparr>)"
  "same_rest n (n\<lparr>nd_mempool := m\<rparr>)" "same_rest n (close_connection c n)" "same_rest n (set_peer p q n)"
  by (simp_all add: same_rest_def chans_def close_connection_def set_peer_def)

lemma same_rest_send: "sendMessage env p payload n = (n', r) \<Longrightarrow> same_rest n n'"
  by (metis fst_conv only_sends_sendMessage same_rest_sends)

lemma same_rest_handshake:
  "same_rest n (fst (send_version env p n))" "same_rest n (fst (accept_version env p received n))"
  by (simp_all add: send_version_def accept_version_def same_rest_sends same_rest_fields split: res.split)

lemma resume_control [simp]: "t \<in> set (resume k) \<Longrightarrow> \<not> control t"
  by (cases k) auto

lemma range_next_control [simp]: "\<not> control (range_next inp r m)"
  by (cases inp r m rule: range_next_cases) auto

lemma cast_control [simp]: "t \<in> set (cast env payload n) \<Longrightarrow> \<not> control t"
  by (auto simp: cast_def)

lemma same_rest_fold:
  assumes "\<And>x n. same_rest n (f x n)"
  shows "same_rest n (fold f xs n)"
proof (induction xs arbitrary: n)
  case (Cons x xs)
  from Cons [of "f x n"] assms [of n x] show ?case by (simp add: same_rest_def)
qed simp

lemma same_rest_updatePeerConnections: "same_rest n (updatePeerConnections env n)"
  unfolding updatePeerConnections_def
  by (rule same_rest_fold)
    (simp add: drop_inactive_def close_connection_def same_rest_def chans_def split: prod.split)

lemma same_rest_close_all:
  "same_rest n (fold (\<lambda>(_, p) n. close_connection (pr_Connection (peer_at n p)) n) es n)"
  by (rule same_rest_fold) (simp add: same_rest_fields split: prod.split)

lemma rest_job:
  assumes "job_step env j k n = Next n' ts"
  shows "same_rest n n' \<and> (\<forall>t \<in> set ts. \<not> control t)"
proof (cases j)
  case (JConsensus msg)
  then show ?thesis
    using assms same_rest_consensus by (auto dest!: consensus_job_Next)
next
  case (JForget txs b)
  then show ?thesis using assms by (cases txs) (auto simp: same_rest_fields)
next
  case (JReply p payload)
  then show ?thesis
    using assms same_rest_send by (fastforce split: prod.splits res.splits)
qed (use assms in \<open>auto simp: same_rest_fields split: prod.splits res.splits if_splits\<close>)

text \<open>Threads that handle peers and messages leave all that alone.\<close>

fun worker :: "thread \<Rightarrow> bool" where
  "worker TRebalance = False" | "worker TRound = False" | "worker TTelemetry = False"
| "worker TPartitions = False" | "worker TLevel = False" | "worker t = (\<not> control t)"

lemma rest_worker:
  assumes "thread_step env inp t n = Next n' ts" and "worker t"
  shows "same_rest n n' \<and> (\<forall>t' \<in> set ts. \<not> control t')"
proof (cases t)
  case (TJob j k)
  then show ?thesis using assms rest_job by simp
next
  case (TVote msg)
  then show ?thesis
    using assms same_rest_consensus by (auto dest!: consensus_job_Next)
next
  case (TGreet p)
  then show ?thesis using assms(1) same_rest_handshake by (auto dest!: handshake_step_Next)
next
  case (TVersion p)
  then show ?thesis using assms(1) same_rest_handshake by (auto dest!: handshake_step_Next)
next
  case (TAskTo p low ps)
  then show ?thesis using assms(1) same_rest_sends by (auto simp: sync_ask_to_def)
next
  case (TSend p payload)
  then show ?thesis using assms(1) same_rest_sends by auto
next
  case TMain
  then show ?thesis
    using assms(1) same_rest_updatePeerConnections by (auto simp: loop_defs split: if_splits)
next
  case (THandle p msg)
  then show ?thesis
    using assms(1) by (auto simp: handle_step_def split: res.splits option.splits)
next
  case TPending
  then show ?thesis using assms(1) by (auto simp: pending_step_def split: res.splits if_splits)
qed (use assms in \<open>auto simp: same_rest_fields connection_defs loop_defs sync_start_step_def tick_defs
    same_rest_def chans_def sync_Start_def set_peer_def close_connection_def Let_def
    split: if_splits res.splits list.splits prod.splits\<close>)

lemma chans_thread:
  assumes "thread_step env inp t n = Next n' ts" and "\<not> control t"
  shows "chans n' = chans n \<and> nd_p2pNetwork n' = nd_p2pNetwork n \<and> nd_running n' = nd_running n \<and>
    (\<forall>t' \<in> set ts. \<not> control t')"
proof (cases "worker t")
  case True
  with rest_worker [OF assms(1)] show ?thesis by (simp add: same_rest_def)
next
  case False
  with assms show ?thesis
    by (cases t) (auto simp: loop_defs rebalance_step_def chans_def Let_def
        split: if_splits option.splits res.splits prod.splits)
qed

lemma fold_close_rest:
  fixes es n
  defines "m \<equiv> fold (\<lambda>(_, p) n. close_connection (pr_Connection (peer_at n p)) n) es n"
  shows "nd_merkleForest m = nd_merkleForest n" "nd_consensus m = nd_consensus n"
    "nd_capOrchestrator m = nd_capOrchestrator n" "nd_stopClosed m = nd_stopClosed n"
    "nd_p2pNetwork m = nd_p2pNetwork n" "nd_running m = nd_running n"
  using close_all [of es n] by (auto simp: m_def)

lemma chans_control:
  assumes "thread_step env inp t n = Next n' ts" and "control t"
  shows "nd_merkleForest n' = nd_merkleForest n \<and> nd_consensus n' = nd_consensus n \<and>
    nd_capOrchestrator n' = nd_capOrchestrator n"
proof (cases t)
  case (TCloseAll main)
  then show ?thesis using fold_close_rest assms by (auto simp: lifecycle_defs split: if_splits)
qed (use assms in \<open>auto simp: lifecycle_defs close_channel_def p2p_Stop_def sync_Stop_def Let_def
    split: if_splits res.splits\<close>)

lemma idle_thread:
  assumes "thread_step env inp t n = Next n' ts" and "idle t0 n" and "env_orders env n"
  shows "idle t0 n'"
proof -
  consider "worker t" | "control t" | "t \<in> {TRebalance, TRound, TTelemetry, TPartitions, TLevel}"
    by (cases t) auto
  then show ?thesis
  proof cases
    case 1
    with rest_worker [OF assms(1)] assms(2) show ?thesis by (simp add: idle_def same_rest_def)
  next
    case 2
    with chans_control [OF assms(1)] assms(2) show ?thesis by (simp add: idle_def)
  next
    case 3
    have forest: "nd_merkleForest n = NewAdaptiveMerkleForest t0" and vals: "hc_validators (nd_consensus n) = fmempty"
      and cap: "cap_reachable (nd_capOrchestrator n)" using assms(2) by (simp_all add: idle_def)
    have d: "DynamicShardRebalancing (ne_sha env) (ne_now env) (ne_forest_order env 0) (ne_forest_order env 1)
        (ne_shard_orders env) (nd_merkleForest n) = (nd_merkleForest n, Ok ())"
      using assms(3) unfolding forest env_orders_def forest_orders_def by (intro rebalancing_idle) auto
    have round: "hc_validators hc = fmempty"
      if "runConsensusRound sha curve k ord now (nd_consensus n) = Some (Ok (hc, proposal))"
      for sha curve k ord now hc proposal
      using that vals by (auto simp: runConsensusRound_def selectLeader_def selectValidatorByVRF_def Let_def
          bind_res_Ok_iff fmlen_eq_0 split: option.splits)
    show ?thesis
      using 3 assms(1,2) d round cap cap_reachable.step cap_step.intros
      by (auto simp: idle_def rebalance_step_def loop_defs split: if_splits option.splits res.splits)
  qed
qed

interpretation idling: process_invariant sha "idle t0" "\<lambda>_. False" for sha t0
  by unfold_locales (auto dest: idle_thread)

lemma run_idle: "sys_run sha open_api (n, ts) (n', ts') \<Longrightarrow> idle t0 n \<Longrightarrow> idle t0 n'"
  using idling.run by simp

lemma createNode_idle: "idle now (createNode sha curve random d now)"
  by (simp add: idle_def createNode_def Let_def NewNode_def NewHybridConsensus_def cap_reachable.start)

section \<open>Start and stop as \<open>main\<close> calls them\<close>

fun flags_ok :: "thread \<Rightarrow> bool \<times> bool \<times> bool \<Rightarrow> bool" where
  "flags_ok (TShutP2P _) c = (c = (True, False, False))"
| "flags_ok (TShutSync _) c = (c = (True, True, False))"
| "flags_ok (TCloseAll _) c = True"
| "flags_ok t c = (control t \<longrightarrow> c = (False, False, False))"

text \<open>At most one thread starts or stops, and no channel it has yet to close is closed.\<close>

definition control_inv :: "node \<Rightarrow> thread list \<Rightarrow> bool" where
  "control_inv n ts \<longleftrightarrow> length (filter control ts) \<le> 1 \<and> (\<forall>t \<in> set ts. flags_ok t (chans n))"

lemma flags_ok_other [simp]: "\<not> control t \<Longrightarrow> flags_ok t c"
  by (cases t) auto

lemma control_dials [simp]: "filter control (map TDial as) = []"
  by (induction as) auto

lemma control_thread:
  assumes "thread_step env inp t n = Next n' ts" and "control t" and "flags_ok t (chans n)"
  shows "length (filter control ts) \<le> 1 \<and> (\<forall>t' \<in> set ts. flags_ok t' (chans n'))"
  using assms
  by (cases t) (auto simp: lifecycle_defs connectToBootstrapPeers_def
      chans_def close_channel_def p2p_Start_def p2p_Stop_def sync_Stop_def Let_def
      split: if_splits res.splits prod.splits)

lemma control_inv_step:
  assumes step: "thread_step env inp t n = Next n' ts" and inv: "control_inv n (us @ t # vs)"
  shows "control_inv n' (us @ ts @ vs)"
proof (cases "control t")
  case True
  have flags: "flags_ok t (chans n)" using inv by (simp add: control_inv_def)
  have "filter control us = []" "filter control vs = []"
    using inv True by (auto simp: control_inv_def)
  moreover from this have "\<forall>t' \<in> set us \<union> set vs. \<not> control t'" by (auto simp: filter_empty_conv)
  ultimately show ?thesis
    using control_thread [OF step True flags] by (auto simp: control_inv_def)
next
  case False
  from chans_thread [OF step False] have "chans n' = chans n" "filter control ts = []"
    "\<forall>t' \<in> set ts. flags_ok t' (chans n')" by (auto simp: filter_empty_conv)
  with inv False show ?thesis by (auto simp: control_inv_def)
qed

lemma run_control_inv:
  assumes "sys_run sha False (n, ts) (n', ts')" and "control_inv n ts"
  shows "control_inv n' ts'"
  using assms(1) by (induction rule: sys_run_invariant) (use assms(2) control_inv_step in auto)

lemma createNode_control: "control_inv (createNode sha curve random d now) [TStart True]"
  by (simp add: control_inv_def chans_def createNode_def Let_def NewNode_def NewP2PNetwork_def NewSyncManager_def)

section \<open>Own votes\<close>

lemma range_next_vote [simp]: "TVote msg \<noteq> range_next inp r m"
  by (cases inp r m rule: range_next_cases) auto

lemma votes_thread:
  assumes "thread_step env inp t n = Next n' ts" and "TVote msg \<in> set ts"
  shows "msg \<in> set (hc_spawned (nd_consensus n'))"
proof -
  have resume: "TVote msg \<notin> set (resume k)" for k by (cases k) auto
  have cast: "TVote msg \<notin> set (cast env payload n)" for payload by (auto simp: cast_def)
  have job: "msg \<in> set (hc_spawned (nd_consensus n'))" if "consensus_job env m k n = Next n' ts" for m k
    using that assms(2) resume [of k]
    by (auto simp: consensus_job_def Let_def split: prod.splits res.splits dest: in_set_dropD)
  show ?thesis
  proof (cases t)
    case (TJob j k)
    show ?thesis
    proof (cases j)
      case (JConsensus m)
      with assms(1) TJob job show ?thesis by simp
    next
      case (JForget txs b)
      with assms TJob show ?thesis by (cases txs) auto
    qed (use assms TJob resume [of k] cast in \<open>auto split: prod.splits res.splits if_splits\<close>)
  next
    case (TVote m)
    with assms(1) job show ?thesis by simp
  qed (use assms in \<open>auto simp: connection_defs loop_defs lifecycle_defs tick_defs connectToBootstrapPeers_def close_channel_def Let_def
      split: if_splits res.splits list.splits prod.splits option.splits\<close>)
qed

definition votes_inv :: "thread list \<Rightarrow> bool" where
  "votes_inv ts \<longleftrightarrow> (\<forall>msg. TVote msg \<in> set ts \<longrightarrow> cm_Sender msg = 0)"

lemma run_votes_inv:
  assumes "sys_run sha open_api (n, ts) (n', ts')" and "well_formed sha n" and "votes_inv ts"
  shows "votes_inv ts'"
proof -
  have "well_formed sha n' \<and> votes_inv ts'"
    using assms(1)
  proof (induction rule: sys_run_invariant)
    case (start m us)
    then show ?case using assms by simp
  next
    case (run env inp t m m' new us vs)
    then have wf: "well_formed sha m'" using well_formed_thread by (auto simp: env_orders_def)
    have "cm_Sender msg = 0" if "TVote msg \<in> set new" for msg
      using votes_thread [OF run.hyps(3) that] wf by (simp add: well_formed_def hc_ok_def)
    with run.IH wf show ?case by (auto simp: votes_inv_def)
  next
    case (call t m us)
    then show ?case by (auto simp: votes_inv_def)
  qed
  then show ?thesis ..
qed

section \<open>No transaction is ever accepted\<close>

text \<open>
  The accounts of a new state manager are empty and its state never changes, so every sender is unknown:
  no goroutine gets past the check of a transaction, the mempool stays empty and no block is ever built.
\<close>

definition barren :: "go_time \<Rightarrow> node \<Rightarrow> bool" where
  "barren t0 n \<longleftrightarrow> nd_stateManager n = NewStateManager t0 \<and> nd_mempool n = NewMempool 10000"

fun advancing :: "thread \<Rightarrow> bool" where
  "advancing (TJob (JForget _ _) _) = True" | "advancing (TJob (JCastBlock _) _) = True"
| "advancing (TJob (JPool _) _) = True" | "advancing (TJob (JCastTx _) _) = True"
| "advancing (TBuild _) = True" | "advancing _ = False"

lemma range_next_advancing [simp]: "\<not> advancing (range_next inp r m)"
  by (cases inp r m rule: range_next_cases) auto

lemma advancing_resume [simp]: "t \<in> set (resume k) \<Longrightarrow> \<not> advancing t"
  by (cases k) auto

lemma validate_barren: "barren t0 n \<Longrightarrow> nd_validateTransaction tx n = Fail (ErrorString ''sender account not found'')"
  by (simp add: barren_def nd_validateTransaction_def GetCurrentState_def NewStateManager_def)

lemma apply_barren:
  assumes "barren t0 n"
  shows "is_Ok (applyTransactions txs (copyState (sm_currentState (nd_stateManager n)))) \<longleftrightarrow> txs = []"
proof -
  have "ws_Accounts (copyState (sm_currentState (nd_stateManager n))) = fmempty"
    using assms by (simp add: barren_def NewStateManager_def)
  then show ?thesis by (cases txs) (simp_all add: applyTransaction_def)
qed

definition same_pool :: "node \<Rightarrow> node \<Rightarrow> bool" where
  "same_pool n n' \<longleftrightarrow> nd_stateManager n' = nd_stateManager n \<and> nd_mempool n' = nd_mempool n"

lemma same_pool_fields:
  "same_pool n n" "same_pool n (n\<lparr>nd_peers := ps\<rparr>)" "same_pool n (n\<lparr>nd_heap := h\<rparr>)"
  "same_pool n (n\<lparr>nd_syncManager := sm\<rparr>)" "same_pool n (n\<lparr>nd_running := b\<rparr>)"
  "same_pool n (n\<lparr>nd_stopClosed := b\<rparr>)" "same_pool n (n\<lparr>nd_merkleForest := amf\<rparr>)"
  "same_pool n (n\<lparr>nd_p2pNetwork := p2p\<rparr>)" "same_pool n (n\<lparr>nd_capOrchestrator := co\<rparr>)"
  "same_pool n (n\<lparr>nd_consensus := hc\<rparr>)" "same_pool n (n\<lparr>nd_blockchain := bc\<rparr>)"
  "same_pool n (close_connection c n)" "same_pool n (set_peer p q n)"
  by (simp_all add: same_pool_def close_connection_def)

lemma same_pool_sends: "only_sends n n' \<Longrightarrow> same_pool n n'"
  by (simp add: same_pool_def only_sends_fields)

lemma same_pool_consensus: "same_pool n (fst (HandleConsensusMessage env msg n))"
  by (simp add: HandleConsensusMessage_def same_pool_fields split: prod.split)

lemma same_pool_handshake:
  "same_pool n (fst (send_version env p n))" "same_pool n (fst (accept_version env p received n))"
  by (simp_all add: send_version_def accept_version_def same_pool_sends same_pool_fields split: res.split)

lemma same_pool_fold:
  assumes "\<And>x n. same_pool n (f x n)"
  shows "same_pool n (fold f xs n)"
proof (induction xs arbitrary: n)
  case (Cons x xs)
  from Cons [of "f x n"] assms [of n x] show ?case by (simp add: same_pool_def)
qed (simp add: same_pool_fields)

lemma same_pool_updatePeerConnections: "same_pool n (updatePeerConnections env n)"
  unfolding updatePeerConnections_def
  by (rule same_pool_fold) (simp add: drop_inactive_def close_connection_def same_pool_def split: prod.split)

lemma same_pool_close_all:
  "same_pool n (fold (\<lambda>(_, p) n. close_connection (pr_Connection (peer_at n p)) n) es n)"
  by (rule same_pool_fold) (simp add: same_pool_fields split: prod.split)

lemma barren_same: "same_pool n n' \<Longrightarrow> barren t0 n \<Longrightarrow> barren t0 n'"
  by (simp add: barren_def same_pool_def)

lemma barren_job:
  assumes "job_step env j k n = Next n' ts" and "barren t0 n" and "\<not> advancing (TJob j k)"
  shows "same_pool n n' \<and> (\<forall>t \<in> set ts. \<not> advancing t)"
proof (cases j)
  case (JUpdate b)
  then show ?thesis using assms(1) by (auto simp: UpdateState_eq same_pool_fields split: res.splits)
next
  case (JConsensus msg)
  then show ?thesis using assms(1) same_pool_consensus by (auto dest!: consensus_job_Next)
next
  case (JReply p payload)
  then show ?thesis
    using assms(1) same_pool_sends [OF only_sends_sendMessage, of n env p payload] by (auto split: prod.splits res.splits)
qed (use assms validate_barren in \<open>auto simp: same_pool_fields split: prod.splits res.splits if_splits\<close>)

lemma barren_thread:
  assumes "thread_step env inp t n = Next n' ts" and "barren t0 n" and "\<not> advancing t" and "env_orders env n"
  shows "same_pool n n' \<and> (\<forall>t' \<in> set ts. \<not> advancing t')"
proof (cases t)
  case (TJob j k)
  then show ?thesis using assms barren_job by simp
next
  case (TVote msg)
  then show ?thesis using assms(1) same_pool_consensus by (auto dest!: consensus_job_Next)
next
  case (TGreet p)
  then show ?thesis using assms(1) same_pool_handshake by (auto dest!: handshake_step_Next)
next
  case (TVersion p)
  then show ?thesis using assms(1) same_pool_handshake by (auto dest!: handshake_step_Next)
next
  case (TAskTo p low ps)
  then show ?thesis using assms(1) same_pool_sends by (auto simp: sync_ask_to_def)
next
  case (TSend p payload)
  then show ?thesis using assms(1) same_pool_sends by auto
next
  case (TCloseAll main)
  then show ?thesis using assms(1) same_pool_close_all by (auto simp: lifecycle_defs split: if_splits)
next
  case TMain
  then show ?thesis
    using assms(1) same_pool_updatePeerConnections by (auto simp: loop_defs same_pool_fields split: if_splits)
next
  case (THandle p msg)
  have "dispatch env p msg = Ok (Some j) \<Longrightarrow> \<not> advancing (TJob j k)" for j k
    by (auto simp: dispatch_def Let_def bind_res_Ok_iff split: if_splits)
  with THandle show ?thesis
    using assms(1) by (auto simp: handle_step_def same_pool_fields split: res.splits option.splits)
next
  case TPending
  have "range_order (ne_pool_order env fmempty) (fmempty :: (hash, transaction) fmap)"
    using assms(2,4) by (simp add: env_orders_def barren_def NewMempool_def)
  then have "ne_pool_order env fmempty = []"
    using range_order_lookup [of "ne_pool_order env fmempty" "fmempty :: (hash, transaction) fmap"]
    by (cases "ne_pool_order env fmempty") auto
  then show ?thesis
    using TPending assms(1,2)
    by (auto simp: pending_step_def GetTransactions_100 barren_def NewMempool_def same_pool_fields)
next
  case TRound
  then show ?thesis
    using assms(1) by (auto simp: loop_defs same_pool_fields split: if_splits option.splits res.splits)
next
  case (TListen main)
  then show ?thesis
    using assms(1) by (auto simp: listen_step_def start_failed_def Let_def connectToBootstrapPeers_def
        same_pool_fields split: if_splits res.splits)
qed (use assms(1,3) in \<open>auto simp: same_pool_fields connection_defs loop_defs lifecycle_defs tick_defs
    close_channel_def p2p_Stop_def sync_Stop_def Let_def split: if_splits res.splits list.splits prod.splits\<close>)

interpretation barrenness: process_invariant sha "barren t0" advancing for sha t0
  by unfold_locales (use barren_thread barren_same in blast, auto elim: api_call.elims)

lemmas run_barren = barrenness.run

lemma createNode_barren: "barren now (createNode sha curve random d now)"
  by (simp add: barren_def createNode_def Let_def NewNode_def)

section \<open>Where a crash comes from\<close>

text \<open>\<open>encoding/json\<close>, \<open>encoding/gob\<close> and \<open>net\<close> report errors, they do not panic.\<close>

definition library_ok :: "node_env \<Rightarrow> io \<Rightarrow> bool" where
  "library_ok env inp \<longleftrightarrow> (\<forall>x q. ne_block env x \<noteq> Panic q \<and> ne_transaction env x \<noteq> Panic q \<and>
     ne_consensus env x \<noteq> Panic q \<and> ne_getblocks env x \<noteq> Panic q \<and> ne_getdata env x \<noteq> Panic q) \<and>
     (\<forall>c x q. ne_send env c x \<noteq> Panic q)"

text \<open>A proposal or a commit whose bytes decode to no block.\<close>

definition blockless :: "json_codec \<Rightarrow> consensus_message \<Rightarrow> bool" where
  "blockless codec msg \<longleftrightarrow>
     cm_Type msg = ''proposal'' \<and> bp_Block (jc_proposal codec (cm_Data msg)) = None \<or>
     cm_Type msg = ''commit'' \<and> cmt_Block (jc_commit codec (cm_Data msg)) = None"

lemma ProcessConsensusMessage_panic:
  assumes "ProcessConsensusMessage sha codec now msg hc = (hc', Panic q)"
  shows "q = NilDereference \<and> blockless codec msg \<and> cm_Sender msg \<noteq> 0"
  using assms
  by (auto simp: ProcessConsensusMessage_def validateConsensusMessage_def ProcessVote_def VerifyNode_def
      bft_ProcessVote_def ProcessProposal_def hc_ValidateBlock_eq signVote_def ProcessCommit_eq FinalizeBlock_def
      hasQuorum_def blockless_def Let_def split: if_splits option.splits)

lemma consensus_job_Crash:
  "consensus_job env msg k n = Crash q \<Longrightarrow> q = NilDereference \<and> blockless (ne_codec env) msg \<and> cm_Sender msg \<noteq> 0"
  by (auto simp: consensus_job_def HandleConsensusMessage_def Let_def dest: ProcessConsensusMessage_panic
      split: prod.splits res.splits)

lemma goes_on_Crash [simp]: "goes_on r n ts k = Crash q \<longleftrightarrow> r = Panic q"
  by (cases r) auto

lemma sendMessage_no_panic: "library_ok env inp \<Longrightarrow> sendMessage env p payload n \<noteq> (n', Panic q)"
  by (auto simp: sendMessage_def library_ok_def Let_def)

lemma AddBlock_no_panic: "AddBlock sha now b bc \<noteq> (bc', Panic q)"
  by (cases rule: AddBlock_cases [of bc b sha now]) auto

lemma job_Crash:
  assumes "job_step env j k n = Crash q" and "library_ok env inp"
  shows "(\<exists>b. j = JUpdate b \<and> q = SliceToArray \<and>
      is_Ok (applyTransactions (blk_Transactions b) (copyState (sm_currentState (nd_stateManager n))))) \<or>
    (\<exists>msg. j = JConsensus msg \<and> q = NilDereference \<and> blockless (ne_codec env) msg)"
proof (cases j)
  case (JAdd b)
  then show ?thesis using assms(1) AddBlock_no_panic by (auto split: prod.splits)
next
  case (JUpdate b)
  then show ?thesis
    using assms(1) applyTransactions_no_panic
    by (auto simp: UpdateState_eq split: res.splits)
next
  case (JForget txs b)
  then show ?thesis using assms(1) by (cases txs) auto
next
  case (JPool tx)
  then show ?thesis using assms(1) by (auto simp: AddTransaction_def split: prod.splits if_splits)
next
  case (JConsensus msg)
  then show ?thesis using assms(1) consensus_job_Crash by simp
next
  case (JReply p payload)
  then show ?thesis using assms(1) sendMessage_no_panic [OF assms(2)] by (auto split: prod.splits)
qed (use assms(1) in \<open>auto simp: hc_ValidateBlock_eq nd_validateTransaction_def GetBlock_def Let_def
    split: option.splits if_splits\<close>)

lemma bind_res_Panic_iff: "bind_res r f = Panic q \<longleftrightarrow> r = Panic q \<or> (\<exists>x. r = Ok x \<and> f x = Panic q)"
  by (cases r) auto

lemma dispatch_no_panic: "library_ok env inp \<Longrightarrow> dispatch env p msg \<noteq> Panic q"
  by (auto simp: dispatch_def library_ok_def Let_def bind_res_Panic_iff split: if_splits)

text \<open>In a consensus round only the curve can panic.\<close>

lemma runConsensusRound_panic:
  assumes "runConsensusRound sha curve k ord now hc = Some (Panic q)"
  shows "\<exists>point scalar. ec_ScalarMult curve point scalar = Panic q"
  using assms
  by (auto simp: runConsensusRound_def selectLeader_def vrf_Generate_def generateProof_def bind_res_Panic_iff Let_def
      split: option.splits res.splits)

lemma thread_Crash:
  assumes "thread_step env inp t n = Crash q" and "library_ok env inp" and "flags_ok t (chans n)"
    and "idle t0 n" and "env_orders env n" and "\<And>msg. t = TVote msg \<Longrightarrow> cm_Sender msg = 0"
  shows "(\<exists>b k. t = TJob (JUpdate b) k \<and> q = SliceToArray \<and>
      is_Ok (applyTransactions (blk_Transactions b) (copyState (sm_currentState (nd_stateManager n))))) \<or>
    (\<exists>msg k. t = TJob (JConsensus msg) k \<and> q = NilDereference \<and> blockless (ne_codec env) msg) \<or>
    t = TRound \<and> (\<exists>point scalar. ec_ScalarMult (io_curve inp) point scalar = Panic q)"
proof (cases t)
  case (TJob j k)
  then show ?thesis using assms(1) job_Crash [OF _ assms(2)] by auto
next
  case (TVote msg)
  then show ?thesis using assms(1,6) consensus_job_Crash by auto
next
  case TRebalance
  have forest: "nd_merkleForest n = NewAdaptiveMerkleForest t0" using assms(4) by (simp add: idle_def)
  have "DynamicShardRebalancing (ne_sha env) (ne_now env) (ne_forest_order env 0) (ne_forest_order env 1)
      (ne_shard_orders env) (nd_merkleForest n) = (nd_merkleForest n, Ok ())"
    using assms(5) unfolding forest env_orders_def forest_orders_def by (intro rebalancing_idle) auto
  with TRebalance assms(1) show ?thesis by (simp add: rebalance_step_def)
next
  case TRound
  then show ?thesis
    using assms(1) runConsensusRound_panic by (fastforce simp: loop_defs split: if_splits option.splits res.splits)
next
  case (THandle p msg)
  then show ?thesis
    using assms(1) dispatch_no_panic [OF assms(2)] by (auto simp: handle_step_def split: res.splits option.splits)
next
  case TPending
  then show ?thesis using assms(1) by (auto simp: pending_step_def GetTransactions_100)
qed (use assms(1,3) in \<open>auto simp: connection_defs loop_defs lifecycle_defs tick_defs chans_def close_channel_def
    p2p_Stop_def sync_Stop_def Let_def split: if_splits res.splits list.splits prod.splits\<close>)

text \<open>The goroutines that write the peer table, and that no other step changes it.\<close>

lemma table_writers:
  assumes "writes_peers env inp t n" and "range_order (ne_peer_order env (nd_peers n)) (nd_peers n)"
  shows "(\<exists>p. t = TInsert p \<or> t = TDisconnect p) \<or>
    t = TMain \<and> (\<exists>i p. fmlookup (nd_peers n) i = Some p \<and> inactive (ne_now env) (peer_at n p))"
proof (cases "t = TMain")
  case True
  then have "nd_peers (updatePeerConnections env n) \<noteq> nd_peers n" using assms(1) by simp
  then obtain i where "fmlookup (nd_peers (updatePeerConnections env n)) i \<noteq> fmlookup (nd_peers n) i"
    using fmap_ext by metis
  then show ?thesis
    using True drop_inactive_fold [of "ne_now env" "ne_peer_order env (nd_peers n)" n i] range_order_lookup [OF assms(2)]
    by (auto simp: updatePeerConnections_def split: if_splits)
next
  case False
  with assms(1) show ?thesis by (cases t) auto
qed

lemma only_writers:
  assumes "thread_step env inp t n = Next n' ts" and "nd_peers n' \<noteq> nd_peers n"
  shows "writes_peers env inp t n"
proof (cases t)
  case (TJob j k)
  show ?thesis
  proof (cases j)
    case (JConsensus m)
    with assms TJob show ?thesis by (auto simp: HandleConsensusMessage_peers dest!: consensus_job_Next)
  next
    case (JForget txs b)
    with assms TJob show ?thesis by (cases txs) auto
  qed (use assms TJob in \<open>auto simp: sendMessage_def Let_def split: prod.splits res.splits if_splits\<close>)
next
  case (TVote m)
  with assms show ?thesis by (auto simp: HandleConsensusMessage_peers dest!: consensus_job_Next)
next
  case (TGreet p)
  with assms show ?thesis by (auto simp: send_version_peers dest!: handshake_step_Next)
next
  case (TVersion p)
  with assms show ?thesis by (auto simp: accept_version_def set_peer_def dest!: handshake_step_Next split: res.splits if_splits)
next
  case (TCloseAll main)
  with assms show ?thesis by (auto simp: lifecycle_defs fold_close_peers split: if_splits)
qed (use assms in \<open>auto simp: connection_defs loop_defs lifecycle_defs tick_defs sendMessage_def close_connection_def
    set_peer_def close_channel_def Let_def split: if_splits res.splits list.splits prod.splits option.splits\<close>)

section \<open>After a stop\<close>

fun listener_of :: "thread \<Rightarrow> nat option" where
  "listener_of (TAccept l) = Some l" | "listener_of (TAccepting l) = Some l" | "listener_of _ = None"

lemma listener_of_others [simp]:
  "t \<in> set (resume k) \<Longrightarrow> listener_of t = None" "t \<in> set (cast env payload n) \<Longrightarrow> listener_of t = None"
  "listener_of (range_next inp r m) = None" "t \<in> TVote ` M \<Longrightarrow> listener_of t = None"
  "t \<in> TDial ` A \<Longrightarrow> listener_of t = None"
  by (cases k; auto) (auto simp: cast_def, cases inp r m rule: range_next_cases, auto)

text \<open>Where an accept loop comes from: from itself or from \<open>Start\<close>; it calls \<open>Accept\<close> before a stop only.\<close>

lemma accept_origin:
  assumes "thread_step env inp t n = Next n' ts" and "t' \<in> set ts" and "listener_of t' = Some l"
  shows "t = TAccept l \<and> t' = TAccepting l \<and> \<not> nd_stopClosed n \<or> t = TAccepting l \<and> t' = TAccept l \<or>
    (\<exists>main. t = TListen main) \<and> t' = TAccept l \<and> p2p_listener (nd_p2pNetwork n') = Some l"
proof (cases t)
  case (TJob j k)
  show ?thesis
  proof (cases j)
    case (JConsensus m)
    with assms TJob show ?thesis by (fastforce dest!: consensus_job_Next)
  next
    case (JForget txs b)
    with assms TJob show ?thesis by (cases txs) auto
  qed (use assms TJob in \<open>auto split: prod.splits res.splits if_splits\<close>)
next
  case (TVote m)
  with assms show ?thesis by (fastforce dest!: consensus_job_Next)
next
  case (TGreet p)
  with assms show ?thesis by (auto dest!: handshake_step_Next)
next
  case (TVersion p)
  with assms show ?thesis by (auto dest!: handshake_step_Next)
next
  case (TListen main)
  with assms show ?thesis
    by (auto simp: listen_step_def start_failed_def Let_def connectToBootstrapPeers_def p2p_Start_def
        split: if_splits res.splits)
qed (use assms in \<open>auto simp: connection_defs loop_defs lifecycle_defs tick_defs Let_def
    split: if_splits res.splits list.splits prod.splits option.splits\<close>)

text \<open>A listener stays closed, and so does the stop channel.\<close>

lemma closed_thread:
  assumes "thread_step env inp t n = Next n' ts"
  shows "set (p2p_closed (nd_p2pNetwork n)) \<subseteq> set (p2p_closed (nd_p2pNetwork n')) \<and> (nd_stopClosed n \<longrightarrow> nd_stopClosed n')"
proof (cases "control t")
  case False
  from chans_thread [OF assms False] show ?thesis by (simp add: chans_def)
next
  case True
  with assms show ?thesis
    by (cases t) (auto simp: lifecycle_defs close_channel_def p2p_Start_def p2p_Stop_def fold_close_rest Let_def
        split: if_splits res.splits prod.splits)
qed

definition deaf :: "node \<Rightarrow> thread list \<Rightarrow> bool" where
  "deaf n ts \<longleftrightarrow> nd_stopClosed n \<and> (\<forall>l. TAccepting l \<in> set ts \<longrightarrow> l \<in> set (p2p_closed (nd_p2pNetwork n)))"

lemma deaf_step:
  assumes "thread_step env inp t n = Next n' ts" and "deaf n (us @ t # vs)"
  shows "deaf n' (us @ ts @ vs)"
  using closed_thread [OF assms(1)] accept_origin [OF assms(1), of "TAccepting _"] assms(2)
  by (fastforce simp: deaf_def)

lemma run_deaf:
  assumes "sys_run sha open_api (n, ts) (n', ts')" and "deaf n ts"
  shows "deaf n' ts'"
  using assms(1)
proof (induction rule: sys_run_invariant)
  case (run env inp t m m' new us vs)
  from run.hyps(3) run.IH show ?case by (rule deaf_step)
next
  case (call t m us)
  then show ?case by (auto simp: deaf_def elim: api_call.elims)
qed (use assms(2) in simp)

text \<open>
  A node that is started once: its accept loop serves the listener of the peer-to-peer network, so once
  \<open>Stop\<close> has gone past \<open>p2pNetwork.Stop\<close> every loop that is still in \<open>Accept\<close> waits at a closed listener.
\<close>

fun starting :: "thread \<Rightarrow> bool" where
  "starting (TStart _) = True" | "starting (TListen _) = True" | "starting _ = False"

fun shutting :: "thread \<Rightarrow> bool" where
  "shutting (TShut _) = True" | "shutting (TShutP2P _) = True" | "shutting _ = False"

definition started_once :: "node \<Rightarrow> thread list \<Rightarrow> bool" where
  "started_once n ts \<longleftrightarrow> length (filter starting ts) \<le> 1 \<and>
     ((\<exists>t \<in> set ts. starting t) \<longrightarrow> (\<forall>t \<in> set ts. listener_of t = None)) \<and>
     (\<forall>t \<in> set ts. \<forall>l. listener_of t = Some l \<longrightarrow> p2p_listener (nd_p2pNetwork n) = Some l)"

definition stop_order :: "node \<Rightarrow> thread list \<Rightarrow> bool" where
  "stop_order n ts \<longleftrightarrow> (\<forall>main. TStart main \<in> set ts \<longrightarrow> \<not> nd_running n) \<and>
     (nd_running n \<or> (\<exists>main. TStart main \<in> set ts) \<longrightarrow>
        \<not> nd_stopClosed n \<and> \<not> p2p_stopClosed (nd_p2pNetwork n) \<and> (\<forall>t \<in> set ts. \<not> shutting t)) \<and>
     (\<forall>main. TShutP2P main \<in> set ts \<longrightarrow> nd_stopClosed n) \<and>
     (p2p_stopClosed (nd_p2pNetwork n) \<longrightarrow> deaf n ts)"

lemma control_threads: "\<not> control t \<Longrightarrow> \<not> starting t \<and> \<not> shutting t" "listener_of t \<noteq> None \<Longrightarrow> \<not> control t"
  by (cases t; simp)+

lemma starting_origin:
  assumes "thread_step env inp t n = Next n' ts"
  shows "\<forall>t' \<in> set ts. starting t' \<longrightarrow> (\<exists>main. t = TStart main \<and> t' = TListen main)"
    and "length (filter starting ts) \<le> (if starting t then 1 else 0)"
proof -
  have none: "\<forall>t' \<in> set ts. \<not> starting t'" if "\<not> control t"
    using chans_thread [OF assms that] control_threads(1) by blast
  have dial: "\<not> starting t'" if "t' \<in> set (connectToBootstrapPeers m)" for t' m
    using that by (auto simp: connectToBootstrapPeers_def)
  have dials: "filter starting (connectToBootstrapPeers m) = []" for m using dial by (simp add: filter_empty_conv)
  show "\<forall>t' \<in> set ts. starting t' \<longrightarrow> (\<exists>main. t = TStart main \<and> t' = TListen main)"
  proof (cases "control t")
    case True
    then show ?thesis using assms dial
      by (cases t) (auto simp: lifecycle_defs Let_def split: if_splits res.splits prod.splits)
  qed (use none in simp)
  show "length (filter starting ts) \<le> (if starting t then 1 else 0)"
  proof (cases "control t")
    case True
    then show ?thesis using assms dials
      by (cases t) (auto simp: lifecycle_defs Let_def split: if_splits res.splits prod.splits)
  qed (use none in \<open>simp add: filter_empty_conv\<close>)
qed

lemma listener_thread:
  assumes "thread_step env inp t n = Next n' ts" and "\<not> starting t"
  shows "p2p_listener (nd_p2pNetwork n') = p2p_listener (nd_p2pNetwork n)"
proof (cases "control t")
  case False
  from chans_thread [OF assms(1) False] show ?thesis by simp
next
  case True
  with assms show ?thesis
    by (cases t) (auto simp: lifecycle_defs p2p_Stop_def fold_close_rest Let_def
        split: if_splits res.splits prod.splits)
qed

lemma started_once_step:
  assumes step: "thread_step env inp t n = Next n' ts" and inv: "started_once n (us @ t # vs)"
  shows "started_once n' (us @ ts @ vs)"
proof -
  have one: "length (filter starting (us @ ts @ vs)) \<le> 1"
    using inv starting_origin(2) [OF step] by (auto simp: started_once_def split: if_splits)
  show ?thesis
  proof (cases "starting t")
    case True
    then have others: "\<forall>t' \<in> set us \<union> set vs. \<not> starting t' \<and> listener_of t' = None"
      using inv by (fastforce simp: started_once_def filter_empty_conv)
    have "(\<exists>main. t = TListen main) \<and> p2p_listener (nd_p2pNetwork n') = Some l"
      if "t' \<in> set ts" "listener_of t' = Some l" for t' l
      using accept_origin [OF step that] True by auto
    moreover have "\<not> starting t'" if "t = TListen main" "t' \<in> set ts" for t' main
      using starting_origin(1) [OF step] that by auto
    moreover have "listener_of t' = None" if "t = TStart main" "t' \<in> set ts" for t' main
      using accept_origin [OF step that(2)] that(1) by (cases "listener_of t'") auto
    ultimately show ?thesis using one others True
      by (cases t) (fastforce simp: started_once_def)+
  next
    case False
    then have "\<forall>t' \<in> set ts. \<not> starting t'" using starting_origin(1) [OF step] by auto
    moreover have "listener_of t = Some l" if "t' \<in> set ts" "listener_of t' = Some l" for t' l
      using accept_origin [OF step that] False by auto
    ultimately show ?thesis
      using one inv listener_thread [OF step False] by (fastforce simp: started_once_def)
  qed
qed

lemma stop_order_step:
  assumes step: "thread_step env inp t n = Next n' ts" and inv: "stop_order n (us @ t # vs)"
    and once: "started_once n (us @ t # vs)"
  shows "stop_order n' (us @ ts @ vs)"
proof -
  have start: "TStart main \<notin> set ts" for main using starting_origin(1) [OF step] by auto
  show ?thesis
  proof (cases "control t")
    case False
    from chans_thread [OF step False] have same: "nd_stopClosed n' = nd_stopClosed n" "nd_p2pNetwork n' = nd_p2pNetwork n"
        "nd_running n' = nd_running n" "\<forall>t' \<in> set ts. \<not> control t'" by (simp_all add: chans_def)
    then have "\<forall>t' \<in> set ts. \<not> shutting t'" using control_threads(1) by blast
    moreover from this have "TShutP2P main \<notin> set ts" for main by (metis shutting.simps(2))
    ultimately show ?thesis using inv same start deaf_step [OF step, of us vs] by (auto simp: stop_order_def)
  next
    case True
    then show ?thesis
    proof (cases t)
      case (TStart main)
      then have "TStart m \<notin> set us \<union> set vs" for m
        using once by (fastforce simp: started_once_def filter_empty_conv)
      with TStart step inv start show ?thesis
        by (auto simp: stop_order_def start_step_def start_failed_def split: if_splits)
    next
      case (TListen main)
      then have "TStart m \<notin> set us \<union> set vs" for m
        using once by (fastforce simp: started_once_def filter_empty_conv)
      with TListen step inv start deaf_step [OF step, of us vs] show ?thesis
        by (auto simp: stop_order_def listen_step_def start_failed_def Let_def p2p_Start_def connectToBootstrapPeers_def
            split: if_splits res.splits)
    next
      case (TShutP2P main)
      let ?p = "close_listener ((nd_p2pNetwork n)\<lparr>p2p_running := False\<rparr>)"
      have n': "n' = n\<lparr>nd_p2pNetwork := ?p\<lparr>p2p_stopClosed := True\<rparr>\<rparr>" "ts = [TShutSync main]"
        using step TShutP2P by (auto simp: shut_p2p_step_def p2p_Stop_def close_channel_def Let_def split: if_splits)
      have "nd_stopClosed n" using inv TShutP2P by (auto simp: stop_order_def)
      moreover have "l \<in> set (p2p_closed ?p)" if "TAccepting l \<in> set us \<union> set vs" for l
      proof -
        have "TAccepting l \<in> set (us @ t # vs)" using that by auto
        with once have "p2p_listener (nd_p2pNetwork n) = Some l" unfolding started_once_def by fastforce
        then show ?thesis by simp
      qed
      ultimately have "deaf n' (us @ ts @ vs)" by (auto simp: deaf_def n')
      moreover have "\<not> nd_running n" "TStart m \<notin> set us \<union> set vs" for m
        using inv TShutP2P by (auto simp: stop_order_def)
      ultimately show ?thesis by (auto simp: stop_order_def n' deaf_def)
    qed (use step inv start deaf_step [OF step, of us vs] in \<open>auto simp: stop_order_def lifecycle_defs close_channel_def
        sync_Stop_def fold_close_rest Let_def split: if_splits res.splits prod.splits\<close>)
  qed
qed

lemma run_stop_order:
  assumes "sys_run sha False (n, ts) (n', ts')" and "started_once n ts" and "stop_order n ts"
  shows "started_once n' ts' \<and> stop_order n' ts'"
  using assms(1)
proof (induction rule: sys_run_invariant)
  case (run env inp t m m' new us vs)
  then show ?case using started_once_step stop_order_step by blast
qed (use assms(2,3) in simp_all)

lemma createNode_stop_order:
  "started_once (createNode sha curve random d now) [TStart main] \<and> stop_order (createNode sha curve random d now) [TStart main]"
  by (simp add: started_once_def stop_order_def createNode_def Let_def NewNode_def NewP2PNetwork_def)

text \<open>A caller that stops the node adds a goroutine.\<close>

lemma stop_order_call: "started_once n ts \<and> stop_order n ts \<Longrightarrow> started_once n (TStop main # ts) \<and> stop_order n (TStop main # ts)"
  by (auto simp: started_once_def stop_order_def deaf_def)

end
