(* ===== verification/Node_Solo.thy ===== *)
theory Node_Solo
  imports Node_Lifecycle
begin

text \<open>
  Uninterrupted runs: when only a handler's own threads step, with one environment and one set of inputs,
  the goroutines of \<open>Node_Threads\<close> compute what the atomic handlers of \<open>Network_Node\<close> do, panics and
  endless loops included.
\<close>

section \<open>Runs of a handler alone\<close>

inductive own_step :: "node_env \<Rightarrow> io \<Rightarrow> node \<times> thread list \<Rightarrow> node \<times> thread list \<Rightarrow> bool"
  for env inp where
  own: "thread_step env inp t n = Next n' ts \<Longrightarrow> own_step env inp (n, us @ t # vs) (n', us @ ts @ vs)"

inductive_cases own_stepE: "own_step env inp s (n', ts')"

abbreviation own_run :: "node_env \<Rightarrow> io \<Rightarrow> node \<times> thread list \<Rightarrow> node \<times> thread list \<Rightarrow> bool" where
  "own_run env inp \<equiv> (own_step env inp)\<^sup>*\<^sup>*"

text \<open>
  While the forest keeps its one shard, the orders of the ranges are those of fixed lists; such runs are
  runs of the process, whatever the other goroutines wait for, as long as no closed listener gives
  a connection.
\<close>

definition orders_ok :: "node_env \<Rightarrow> go_time \<Rightarrow> bool" where
  "orders_ok env t0 \<longleftrightarrow> forest_orders env (mf_shards (NewAdaptiveMerkleForest t0)) \<and>
     (\<forall>m. range_order (ne_peer_order env m) m) \<and> (\<forall>m. range_order (ne_pool_order env m) m)"

lemma env_orders_idle: "idle t0 n \<Longrightarrow> orders_ok env t0 \<Longrightarrow> env_orders env n"
  by (simp add: idle_def orders_ok_def env_orders_def)

definition listeners_open :: "io \<Rightarrow> node \<Rightarrow> thread list \<Rightarrow> bool" where
  "listeners_open inp n ts \<longleftrightarrow> \<not> is_Ok (io_conn inp) \<or>
     p2p_closed (nd_p2pNetwork n) = [] \<and> (\<forall>t \<in> set ts. \<not> control t)"

lemma own_run_process:
  assumes "own_run env inp (n, ts) (n', ts')" and "ne_sha env = sha" and "orders_ok env t0" and "idle t0 n"
    and "sys_run sha open_api s (n, us @ ts @ vs)" and "listeners_open inp n ts"
  shows "sys_run sha open_api s (n', us @ ts' @ vs) \<and> idle t0 n'"
proof -
  have "sys_run sha open_api s (n', us @ ts' @ vs) \<and> idle t0 n' \<and> listeners_open inp n' ts'"
    using assms(1)
  proof (induction rule: rtranclp_induct2)
    case refl
    then show ?case using assms(4-6) by simp
  next
    case (step m ms m' ms')
    from step.hyps(2) obtain t new pre post where t: "thread_step env inp t m = Next m' new"
        "ms = pre @ t # post" "ms' = pre @ new @ post" by (auto elim: own_stepE)
    have o: "env_orders env m" using step.IH assms(3) env_orders_idle by blast
    have "sys_step sha open_api (m, (us @ pre) @ t # (post @ vs)) (m', (us @ pre) @ new @ (post @ vs))"
      using step.IH t(2) by (intro sys_step.run [OF assms(2) o t(1)]) (auto simp: listeners_open_def net_ok_def)
    then have "sys_run sha open_api s (m', us @ ms' @ vs)"
      using step.IH t(2,3) by (auto intro: sys_run.step)
    moreover have "idle t0 m'" using idle_thread [OF t(1) _ o] step.IH by blast
    moreover have "listeners_open inp m' ms'"
      using step.IH chans_thread [OF t(1)] t(2,3) by (fastforce simp: listeners_open_def)
    ultimately show ?case by blast
  qed
  then show ?thesis by blast
qed

lemma own_step_frame:
  assumes "own_step env inp (n, ts) (n', ts')"
  shows "own_step env inp (n, us @ ts @ vs) (n', us @ ts' @ vs)"
proof -
  from assms obtain t new pre post where "thread_step env inp t n = Next n' new"
      "ts = pre @ t # post" "ts' = pre @ new @ post" by (auto elim: own_stepE)
  with own_step.own [of env inp t n n' new "us @ pre" "post @ vs"] show ?thesis by simp
qed

lemma own_run_frame:
  assumes "own_run env inp (n, ts) (n', ts')"
  shows "own_run env inp (n, us @ ts @ vs) (n', us @ ts' @ vs)"
  using assms
proof (induction rule: rtranclp_induct2)
  case (step m ms m' ms')
  from step.IH own_step_frame [OF step.hyps(2), of us vs] show ?case by (rule rtranclp.rtrancl_into_rtrancl)
qed simp

lemma own_run_first:
  "thread_step env inp t n = Next m us \<Longrightarrow> own_run env inp (m, us @ vs) s \<Longrightarrow> own_run env inp (n, t # vs) s"
  using own_step.own [of env inp t n m us "[]" vs] by (auto intro: converse_rtranclp_into_rtranclp)

lemma own_run_step:
  "thread_step env inp t n = Next m us \<Longrightarrow> own_run env inp (m, us) s \<Longrightarrow> own_run env inp (n, [t]) s"
  using own_run_first [of env inp t n m us "[]" s] by simp

text \<open>
  What the handler's result means for its threads: after a panic some thread crashes, after any other
  result they are through and the node is the result's.
\<close>

definition crashes :: "node_env \<Rightarrow> io \<Rightarrow> node \<times> thread list \<Rightarrow> go_panic \<Rightarrow> bool" where
  "crashes env inp s q \<longleftrightarrow>
     (\<exists>m us t vs. own_run env inp s (m, us @ t # vs) \<and> thread_step env inp t m = Crash q)"

definition ends :: "node_env \<Rightarrow> io \<Rightarrow> thread \<Rightarrow> node \<Rightarrow> node \<times> unit res \<Rightarrow> thread list \<Rightarrow> bool" where
  "ends env inp t n nr ts \<longleftrightarrow>
     (case snd nr of Panic q \<Rightarrow> crashes env inp (n, [t]) q | _ \<Rightarrow> own_run env inp (n, [t]) (fst nr, ts))"

lemma crashes_now: "thread_step env inp t n = Crash q \<Longrightarrow> crashes env inp (n, [t]) q"
  unfolding crashes_def by (metis append_Nil rtranclp.rtrancl_refl)

lemma ends_now:
  assumes "thread_step env inp t n = goes_on r n' ts k" and "\<not> is_Ok r"
  shows "ends env inp t n (n', r) (resume k)"
  using assms own_run_first [of env inp t n n' "resume k" "[]"]
  by (cases r) (auto simp: ends_def crashes_now)

lemma ends_after:
  assumes "own_run env inp (n, [t]) (m, [u])" and "ends env inp u m nr ts"
  shows "ends env inp t n nr ts"
proof (cases "snd nr")
  case (Panic q)
  with assms(2) obtain k us v vs where "own_run env inp (m, [u]) (k, us @ v # vs)" "thread_step env inp v k = Crash q"
    by (auto simp: ends_def crashes_def)
  with rtranclp_trans [OF assms(1)] Panic show ?thesis
    unfolding ends_def crashes_def by (simp) blast
qed (use assms(2) rtranclp_trans [OF assms(1)] in \<open>simp_all add: ends_def\<close>)

lemma ends_step:
  assumes "thread_step env inp t n = Next m [u]" and "ends env inp u m nr ts"
  shows "ends env inp t n nr ts"
  using own_run_first [OF assms(1), of "[]"] by (intro ends_after [OF _ assms(2)]) simp

lemma ends_goes_on:
  assumes "thread_step env inp t n = goes_on r m [u] k"
    and "r = Ok () \<Longrightarrow> ends env inp u m nr (resume k)" and "\<not> is_Ok r \<Longrightarrow> nr = (m, r)"
  shows "ends env inp t n nr (resume k)"
proof (cases r)
  case (Ok x)
  then have "thread_step env inp t n = Next m [u]" "r = Ok ()" using assms(1) by simp_all
  from ends_step [OF this(1) assms(2) [OF this(2)]] show ?thesis .
qed (use assms ends_now in auto)

lemma ends_run: "own_run env inp (n, [t]) (n', ts) \<Longrightarrow> ends env inp t n (n', Ok ()) ts"
  by (simp add: ends_def)

lemma ends_drop_error: "ends env inp t n (n', r) ts \<Longrightarrow> ends env inp t n (n', drop_error r) ts"
  by (cases r) (simp_all add: ends_def)

section \<open>Blocks, transactions and requests\<close>

lemma send_each:
  "own_run env inp (n, map (\<lambda>(_, p). TSend p payload) es @ ts)
     (fold (\<lambda>(_, p) n. fst (sendMessage env p payload n)) es n, ts)"
proof (induction es arbitrary: n)
  case (Cons e es)
  obtain i p where e: "e = (i, p)" by fastforce
  from own_run_first [of env inp "TSend p payload" n "fst (sendMessage env p payload n)" "[]"] Cons
  show ?case by (simp add: e)
qed simp

lemma cast_run: "own_run env inp (n, cast env payload n @ ts) (broadcast env payload n, ts)"
  unfolding cast_def broadcast_def by (rule send_each)

lemma forget_run:
  "own_run env inp (n, [TJob (JForget txs b) k])
     (n\<lparr>nd_mempool := fold (\<lambda>tx. RemoveTransaction (tx_ID tx)) txs (nd_mempool n)\<rparr>, [TJob (JCastBlock b) k])"
proof (induction txs arbitrary: n)
  case Nil
  show ?case using own_run_first [of env inp _ n n "[TJob (JCastBlock b) k]" "[]"] by simp
next
  case (Cons tx txs)
  from own_run_first [of env inp "TJob (JForget (tx # txs) b) k" n _ "[TJob (JForget txs b) k]" "[]"]
    Cons [of "n\<lparr>nd_mempool := RemoveTransaction (tx_ID tx) (nd_mempool n)\<rparr>"]
  show ?case by simp
qed

lemma block_run: "ends env inp (TJob (JCheck b) k) n (ProcessBlock env b n) (resume k)"
proof -
  obtain bc r where bc: "AddBlock (ne_sha env) (Unix (ne_now env)) b (nd_blockchain n) = (bc, r)" by fastforce
  obtain sm r2 where sm: "UpdateState (ne_sha env) (ne_compress env) (ne_state_orders env 0)
      (ne_state_orders env 1) (ne_state_orders env 2) (ne_now env) b (nd_stateManager n) = (sm, r2)" by fastforce
  let ?n1 = "n\<lparr>nd_blockchain := bc\<rparr>"
  let ?n2 = "?n1\<lparr>nd_stateManager := sm\<rparr>"
  let ?n3 = "?n2\<lparr>nd_mempool := fold (\<lambda>tx. RemoveTransaction (tx_ID tx)) (blk_Transactions b) (nd_mempool ?n2)\<rparr>"
  have "own_run env inp (?n3, [TJob (JCastBlock b) k]) (broadcastBlock env b ?n3, resume k)"
    using own_run_first [of env inp "TJob (JCastBlock b) k" ?n3 ?n3 _ "[]"] cast_run [of env inp ?n3 "PBlock b"]
    by (simp add: broadcastBlock_def)
  with forget_run [of env inp ?n2 "blk_Transactions b" b k]
  have forget: "ends env inp (TJob (JForget (blk_Transactions b) b) k) ?n2 (broadcastBlock env b ?n3, Ok ()) (resume k)"
    by (auto intro: ends_run rtranclp_trans)
  have P: "ProcessBlock env b n =
      (case r of Fail e \<Rightarrow> (?n1, Fail e) | Panic p \<Rightarrow> (?n1, Panic p)
       | Ok _ \<Rightarrow> (case r2 of Fail e \<Rightarrow> (?n2, Fail e) | Panic p \<Rightarrow> (?n2, Panic p) | Ok _ \<Rightarrow> (broadcastBlock env b ?n3, Ok ())))"
    by (simp add: ProcessBlock_def hc_ValidateBlock_eq bc sm Let_def split: res.split del: One_nat_def)
  have update: "ends env inp (TJob (JUpdate b) k) ?n1 (ProcessBlock env b n) (resume k)" if "r = Ok ()"
    by (rule ends_goes_on [of _ _ _ _ r2 ?n2 "TJob (JForget (blk_Transactions b) b) k"])
      (use that forget in \<open>auto simp: P sm simp del: One_nat_def split: res.splits\<close>)
  have add: "ends env inp (TJob (JAdd b) k) n (ProcessBlock env b n) (resume k)"
    by (rule ends_goes_on [of _ _ _ _ r ?n1 "TJob (JUpdate b) k"])
      (use update in \<open>auto simp: P bc split: res.splits\<close>)
  show ?thesis by (rule ends_step [OF _ add]) (simp add: hc_ValidateBlock_eq)
qed

lemma transaction_run: "ends env inp (TJob (JTx tx) k) n (ProcessTransaction env tx n) (resume k)"
proof -
  obtain m r where m: "AddTransaction tx (nd_mempool n) = (m, r)" by fastforce
  let ?m = "n\<lparr>nd_mempool := m\<rparr>"
  have "own_run env inp (?m, [TJob (JCastTx tx) k]) (broadcastTransaction env tx ?m, resume k)"
    using own_run_first [of env inp "TJob (JCastTx tx) k" ?m ?m _ "[]"] cast_run [of env inp ?m "PTransaction tx"]
    by (simp add: broadcastTransaction_def)
  then have cast: "ends env inp (TJob (JCastTx tx) k) ?m (broadcastTransaction env tx ?m, Ok ()) (resume k)"
    by (rule ends_run)
  have pool: "ends env inp (TJob (JPool tx) k) n (ProcessTransaction env tx n) (resume k)"
    if "nd_validateTransaction tx n = Ok ()"
    by (rule ends_goes_on [of _ _ _ _ r ?m "TJob (JCastTx tx) k"])
      (use that cast in \<open>auto simp: ProcessTransaction_def m split: res.splits\<close>)
  show ?thesis
    by (rule ends_goes_on [of _ _ _ _ "nd_validateTransaction tx n" n "TJob (JPool tx) k"])
      (use pool in \<open>auto simp: ProcessTransaction_def split: res.splits\<close>)
qed

lemma reply_run: "ends env inp (TJob (JReply p payload) k) n (sendMessage env p payload n) (resume k)"
proof -
  obtain m r where m: "sendMessage env p payload n = (m, r)" by fastforce
  show ?thesis
  proof (cases "is_Ok r")
    case True
    with m own_run_first [of env inp "TJob (JReply p payload) k" n m "resume k" "[]"] show ?thesis
      by (cases r) (auto simp: ends_def)
  next
    case False
    with m ends_now [of env inp "TJob (JReply p payload) k" n r m "resume k" k] show ?thesis by simp
  qed
qed

lemma height_run:
  assumes "get_blocks bc to i blocks = Some bs" and "nd_blockchain n = bc"
  shows "own_run env inp (n, [TJob (JHeight p to i blocks) k]) (n, [TJob (JReply p (PBlocks bs)) k])"
proof (rule get_blocks.raw_induct [where P = "\<lambda>bc to i blocks bs. nd_blockchain n = bc \<longrightarrow>
    own_run env inp (n, [TJob (JHeight p to i blocks) k]) (n, [TJob (JReply p (PBlocks bs)) k])",
    OF _ assms(1), THEN mp, OF _ assms(2)], rule impI)
  fix f bc to i blocks bs
  let ?h = "TJob (JHeight p to i blocks) k"
    and ?bs = "case GetBlockByHeight i bc of Ok b \<Rightarrow> blocks @ [b] | _ \<Rightarrow> blocks"
  assume IH: "\<And>bc to i blocks bs. f bc to i blocks = Some bs \<Longrightarrow> nd_blockchain n = bc \<longrightarrow>
      own_run env inp (n, [TJob (JHeight p to i blocks) k]) (n, [TJob (JReply p (PBlocks bs)) k])"
    and eq: "(if i \<le> to \<and> i \<le> GetCurrentHeight bc then f bc to (i + 1) ?bs else Some blocks) = Some bs"
    and bc: "nd_blockchain n = bc"
  show "own_run env inp (n, [?h]) (n, [TJob (JReply p (PBlocks bs)) k])"
  proof (cases "i \<le> to \<and> i \<le> GetCurrentHeight bc")
    case True
    with IH [of bc to "i + 1" ?bs bs] eq bc
    have "own_run env inp (n, [TJob (JHeight p to (i + 1) ?bs) k]) (n, [TJob (JReply p (PBlocks bs)) k])" by simp
    moreover have "thread_step env inp ?h n = Next n [TJob (JFetch p to i blocks) k]"
      "thread_step env inp (TJob (JFetch p to i blocks) k) n = Next n [TJob (JHeight p to (i + 1) ?bs) k]"
      using bc True by simp_all
    ultimately show ?thesis by (metis append_Nil2 own_run_first)
  next
    case False
    with eq bc have "thread_step env inp ?h n = Next n [TJob (JReply p (PBlocks bs)) k]" by auto
    from own_run_first [OF this, of "[]"] show ?thesis by simp
  qed
qed

text \<open>A request whose loop does not end is never answered.\<close>

lemma height_runs_for_ever:
  assumes "own_run env inp (n, [TJob (JHeight p to i blocks) k]) (n', ts)"
    and "get_blocks (nd_blockchain n) to i blocks = None"
  shows "n' = n \<and> (\<exists>j bs. ts = [TJob (JHeight p to j bs) k] \<and> get_blocks (nd_blockchain n) to j bs = None \<or>
    ts = [TJob (JFetch p to j bs) k] \<and> get_blocks (nd_blockchain n) to (j + 1)
      (case GetBlockByHeight j (nd_blockchain n) of Ok b \<Rightarrow> bs @ [b] | _ \<Rightarrow> bs) = None)"
  using assms(1)
proof (induction rule: rtranclp_induct2)
  case refl
  then show ?case using assms(2) by blast
next
  case (step m us m' us')
  have turn: "j \<le> to \<and> j \<le> GetCurrentHeight (nd_blockchain n) \<and> get_blocks (nd_blockchain n) to (j + 1)
      (case GetBlockByHeight j (nd_blockchain n) of Ok b \<Rightarrow> bs @ [b] | _ \<Rightarrow> bs) = None"
    if "get_blocks (nd_blockchain n) to j bs = None" for j bs
    using that by (subst (asm) get_blocks.simps) (auto split: if_splits)
  from step.hyps(2) obtain t new pre post
    where t: "thread_step env inp t m = Next m' new" "us = pre @ t # post" "us' = pre @ new @ post"
    by (auto elim: own_stepE)
  from step.IH obtain u where "us = [u]" by blast
  with t(2,3) have "us = [t]" "us' = new" by (simp_all add: Cons_eq_append_conv)
  with step.IH t(1) turn show ?case by auto
qed

section \<open>Messages\<close>

text \<open>The goroutines that a consensus message leaves behind.\<close>

definition own_votes :: "node \<Rightarrow> node \<Rightarrow> thread list" where
  "own_votes n n' = map TVote (drop (length (hc_spawned (nd_consensus n))) (hc_spawned (nd_consensus n')))"

lemma own_votes_same: "nd_consensus n' = nd_consensus n \<Longrightarrow> own_votes n n' = []"
  by (simp add: own_votes_def)

lemma consensus_run:
  assumes "HandleConsensusMessage env msg n = (n', r)"
  shows "ends env inp (TJob (JConsensus msg) k) n (n', r) (own_votes n n' @ resume k)"
  using assms own_run_first [of env inp "TJob (JConsensus msg) k" n n' "own_votes n n' @ resume k" "[]"]
    crashes_now [of env inp "TJob (JConsensus msg) k" n]
  by (cases r) (auto simp: ends_def consensus_job_def own_votes_def)

lemma consensus_unchanged:
  "nd_consensus (fst (ProcessBlock env b n)) = nd_consensus n"
  "nd_consensus (fst (ProcessTransaction env tx n)) = nd_consensus n"
  "nd_consensus (fst (sendMessage env p payload n)) = nd_consensus n"
proof -
  show "nd_consensus (fst (ProcessBlock env b n)) = nd_consensus n" by (simp add: ProcessBlock_eq)
  show "nd_consensus (fst (sendMessage env p payload n)) = nd_consensus n"
    by (rule only_sends_fields(6) [OF only_sends_sendMessage])
  have "nd_consensus (broadcastTransaction env tx m) = nd_consensus m" for m
    unfolding broadcastTransaction_def by (rule only_sends_fields(6) [OF only_sends_broadcast])
  then show "nd_consensus (fst (ProcessTransaction env tx n)) = nd_consensus n"
    by (simp add: ProcessTransaction_def split: res.split prod.split)
qed

lemma getblocks_run:
  assumes "handleGetBlocks env p payload n = Some (n', r)" and "ne_getblocks env payload = Ok request"
  shows "ends env inp (TJob (JHeight p (gb_ToHeight request) (gb_FromHeight request) []) k) n (n', r) (resume k)"
    and "nd_consensus n' = nd_consensus n"
proof -
  from assms obtain bs where bs: "get_blocks (nd_blockchain n) (gb_ToHeight request) (gb_FromHeight request) [] = Some bs"
      "sendMessage env p (PBlocks bs) n = (n', r)" by (auto simp: handleGetBlocks_def)
  from bs(2) consensus_unchanged(3) [of env p "PBlocks bs" n] show "nd_consensus n' = nd_consensus n" by simp
  from reply_run [of env inp p "PBlocks bs" k n] bs(2)
  show "ends env inp (TJob (JHeight p (gb_ToHeight request) (gb_FromHeight request) []) k) n (n', r) (resume k)"
    by (intro ends_after [OF height_run [OF bs(1) HOL.refl]]) simp
qed

lemma getdata_run:
  assumes "handleGetData env p payload n = (n', r)" and "ne_getdata env payload = Ok request"
    and "gd_Type request = ''block''"
  shows "ends env inp (TJob (JData p (gd_Hash request)) k) n (n', r) (resume k)"
    and "nd_consensus n' = nd_consensus n"
proof -
  let ?j = "TJob (JData p (gd_Hash request)) k"
  have "ends env inp ?j n (n', r) (resume k) \<and> nd_consensus n' = nd_consensus n"
  proof (cases "GetBlock (gd_Hash request) (nd_blockchain n)")
    case (Ok b)
    with assms have s: "sendMessage env p (PBlock b) n = (n', r)" by (simp add: handleGetData_def)
    have "ends env inp ?j n (n', r) (resume k)"
      using reply_run [of env inp p "PBlock b" k n] s Ok
      by (intro ends_step [of env inp ?j n n "TJob (JReply p (PBlock b)) k"]) simp_all
    with s consensus_unchanged(3) [of env p "PBlock b" n] show ?thesis by simp
  next
    case (Fail e)
    with assms own_run_first [of env inp ?j n n "resume k" "[]"] show ?thesis
      by (auto simp: handleGetData_def ends_def)
  next
    case (Panic q)
    with assms crashes_now [of env inp ?j n q] show ?thesis by (auto simp: handleGetData_def ends_def)
  qed
  then show "ends env inp ?j n (n', r) (resume k)" "nd_consensus n' = nd_consensus n" by simp_all
qed

lemma dispatched_run:
  assumes "dispatch env p msg = Ok (Some j)" and "ends env inp (TJob j (CPeer p)) n nr ts"
  shows "ends env inp (THandle p msg) n nr ts"
  using assms(1) by (intro ends_step [OF _ assms(2)]) (simp add: handle_step_def)

lemma undispatched_run:
  assumes "n' = n" and "\<forall>j. dispatch env p msg \<noteq> Ok (Some j)"
    and "r = (case dispatch env p msg of Fail e \<Rightarrow> Fail e | Panic q \<Rightarrow> Panic q | Ok _ \<Rightarrow> Ok ())"
  shows "ends env inp (THandle p msg) n (n', r) (own_votes n n' @ [TPeer p])"
  using assms own_run_first [of env inp "THandle p msg" n n "[TPeer p]" "[]"] crashes_now [of env inp "THandle p msg" n]
  by (cases "dispatch env p msg") (auto simp: ends_def handle_step_def own_votes_same split: option.splits)

lemma decoded_run:
  assumes "decoded d f n = (n', r)" and "dispatch env p msg = bind_res d (\<lambda>x. Ok (Some (job x)))"
    and "\<And>x. d = Ok x \<Longrightarrow> f x n = (n', r) \<Longrightarrow>
      ends env inp (TJob (job x) (CPeer p)) n (n', r) (own_votes n n' @ [TPeer p])"
  shows "ends env inp (THandle p msg) n (n', r) (own_votes n n' @ [TPeer p])"
proof (cases d)
  case (Ok x)
  with assms show ?thesis by (intro dispatched_run [of _ _ _ "job x"]) (simp_all add: decoded_def)
qed ((rule undispatched_run; use assms in \<open>auto simp: decoded_def\<close>)+)

lemma handler_run:
  assumes "handleMessage env p msg n = Some (n', r)"
  shows "ends env inp (THandle p msg) n (n', r) (own_votes n n' @ [TPeer p])"
proof -
  note step [simp] = dispatch_def handleMessage_def Let_def
  consider (block) "msg_Type msg = ''block''" | (tx) "msg_Type msg = ''transaction''"
    | (consensus) "msg_Type msg = ''consensus''" | (blocks) "msg_Type msg = ''getblocks''"
    | (data) "msg_Type msg = ''getdata''"
    | (other) "msg_Type msg \<notin> {''block'', ''transaction'', ''consensus'', ''getblocks'', ''getdata''}" by blast
  then show ?thesis
  proof cases
    case block
    with assms block_run [of env inp _ "CPeer p" n] consensus_unchanged(1) [of env _ n] show ?thesis
      by (intro decoded_run [of "ne_block env (msg_Payload msg)" "ProcessBlock env" _ _ _ _ _ _ JCheck])
        (simp, simp, metis append_Nil fst_conv own_votes_same resume.simps(2))
  next
    case tx
    with assms transaction_run [of env inp _ "CPeer p" n] consensus_unchanged(2) [of env _ n] show ?thesis
      by (intro decoded_run [of "ne_transaction env (msg_Payload msg)" "ProcessTransaction env" _ _ _ _ _ _ JTx])
        (simp, simp, metis append_Nil fst_conv own_votes_same resume.simps(2))
  next
    case consensus
    with assms consensus_run [of env _ n n' r inp "CPeer p"] show ?thesis
      by (intro decoded_run [of "ne_consensus env (msg_Payload msg)" "HandleConsensusMessage env" _ _ _ _ _ _ JConsensus])
        simp_all
  next
    case blocks
    show ?thesis
    proof (cases "ne_getblocks env (msg_Payload msg)")
      case (Ok request)
      with blocks assms have h: "handleGetBlocks env p (msg_Payload msg) n = Some (n', r)" by simp
      from getblocks_run(1) [OF h Ok, of inp "CPeer p"] getblocks_run(2) [OF h Ok] Ok blocks show ?thesis
        by (intro dispatched_run [of _ _ _ "JHeight p (gb_ToHeight request) (gb_FromHeight request) []"])
          (simp_all add: own_votes_same)
    qed ((rule undispatched_run; use blocks assms in \<open>auto simp: handleGetBlocks_def\<close>)+)
  next
    case data
    show ?thesis
    proof (cases "\<exists>request. ne_getdata env (msg_Payload msg) = Ok request \<and> gd_Type request = ''block''")
      case True
      then obtain request where r: "ne_getdata env (msg_Payload msg) = Ok request" "gd_Type request = ''block''" by blast
      with data assms have h: "handleGetData env p (msg_Payload msg) n = (n', r)" by simp
      from getdata_run(1) [OF h r, of inp "CPeer p"] getdata_run(2) [OF h r] r data show ?thesis
        by (intro dispatched_run [of _ _ _ "JData p (gd_Hash request)"]) (simp_all add: own_votes_same)
    qed (rule undispatched_run; use data assms in \<open>auto simp: handleGetData_def split: res.splits if_splits\<close>)
  next
    case other
    with assms show ?thesis by (intro undispatched_run) simp_all
  qed
qed

section \<open>Peers\<close>

lemma own_step_single: "own_step env inp (n, [t]) s \<Longrightarrow> thread_step env inp t n = Next m us \<Longrightarrow> s = (m, us)"
  by (auto elim!: own_step.cases simp: Cons_eq_append_conv)

text \<open>One turn of \<open>handlePeer\<close>: none is returned exactly when the goroutine stays in its loop for ever.\<close>

lemma handlePeer_stuck:
  assumes "handlePeer env p received n = None" and "io_message inp = received"
    and run: "(own_step env inp)\<^sup>+\<^sup>+ (n, [TPeer p]) (m, ts)"
  shows "TPeer p \<notin> set ts \<and> nd_sent m = nd_sent n"
proof -
  obtain msg where msg: "received = Ok msg" using assms(1) by (cases received) (simp_all add: handlePeer_def)
  let ?n = "set_peer p ((peer_at n p)\<lparr>pr_LastSeen := ne_now env\<rparr>) n"
  have none: "handleMessage env p msg ?n = None" using assms(1) msg by (simp add: handlePeer_def)
  then have type: "msg_Type msg = ''getblocks''" by (simp add: handleMessage_def split: if_splits)
  with none obtain request where req: "ne_getblocks env (msg_Payload msg) = Ok request"
      "get_blocks (nd_blockchain ?n) (gb_ToHeight request) (gb_FromHeight request) [] = None"
    by (auto simp: handleMessage_def handleGetBlocks_def split: res.splits)
  let ?j = "TJob (JHeight p (gb_ToHeight request) (gb_FromHeight request) []) (CPeer p)"
  have steps: "thread_step env inp (TPeer p) n = Next ?n [THandle p msg]"
      "thread_step env inp (THandle p msg) ?n = Next ?n [?j]"
    using assms(2) msg type req by (simp_all add: peer_step_def handle_step_def dispatch_def Let_def)
  from run obtain s1 where s1: "own_step env inp (n, [TPeer p]) s1" "own_run env inp s1 (m, ts)"
    by (auto dest: tranclpD)
  then have "own_run env inp (?n, [THandle p msg]) (m, ts)" using own_step_single [OF s1(1) steps(1)] by simp
  then consider "(m, ts) = (?n, [THandle p msg])" | "own_run env inp (?n, [?j]) (m, ts)"
    using own_step_single [OF _ steps(2)] by (auto elim: converse_rtranclpE)
  then show ?thesis
  proof cases
    case 1
    then show ?thesis by (simp add: set_peer_def)
  next
    case 2
    from height_runs_for_ever [OF 2 req(2)] show ?thesis by (auto simp: set_peer_def)
  qed
qed

lemma handlePeer_run:
  assumes "handlePeer env p received n = Some (n', r)" and "io_message inp = received"
  shows "ends env inp (TPeer p) n (n', r) (own_votes n n' @ (if is_Ok received then [TPeer p] else []))"
proof (cases "is_Ok received")
  case True
  then obtain msg where msg: "received = Ok msg" by (cases received) simp_all
  let ?n = "set_peer p ((peer_at n p)\<lparr>pr_LastSeen := ne_now env\<rparr>) n"
  obtain r' where h: "handleMessage env p msg ?n = Some (n', r')" and r: "r = drop_error r'"
    using assms(1) msg by (auto simp: handlePeer_def)
  have "own_votes ?n n' = own_votes n n'" by (simp add: own_votes_def set_peer_def)
  with ends_drop_error [OF handler_run [OF h, of inp]] r
  have "ends env inp (THandle p msg) ?n (n', r) (own_votes n n' @ [TPeer p])" by simp
  with True show ?thesis
    using assms(2) msg by (intro ends_step [of env inp "TPeer p" n ?n "THandle p msg"]) (simp_all add: peer_step_def)
next
  case False
  let ?n = "n\<lparr>nd_peers := fmdrop (pr_ID (peer_at n p)) (nd_peers n)\<rparr>"
  have n': "n' = disconnectPeer p n" "r = Ok ()" "own_votes n n' = []"
    using False assms(1) by (cases received; auto simp: handlePeer_def own_votes_def disconnectPeer_def close_connection_def)+
  have "thread_step env inp (TPeer p) n = Next n [TDisconnect p]"
    using False assms(2) by (cases received) (simp_all add: peer_step_def)
  moreover have "thread_step env inp (TDisconnect p) n = Next ?n [TClose (pr_Connection (peer_at n p))]"
    by (simp add: disconnect_step_def)
  moreover have "thread_step env inp (TClose (pr_Connection (peer_at n p))) ?n = Next n' []"
    by (simp add: n' disconnectPeer_def)
  ultimately have "own_run env inp (n, [TPeer p]) (n', [])"
    by (metis append_Nil2 own_run_first rtranclp.rtrancl_refl)
  with False n' show ?thesis by (simp add: ends_run)
qed

section \<open>Connections\<close>

text \<open>The goroutine that serves a new peer when the handshake was accepted.\<close>

definition served :: "node_env \<Rightarrow> peer \<Rightarrow> net_message res \<Rightarrow> node \<Rightarrow> thread list" where
  "served env q received n =
     (let p = length (nd_heap n) in
      if is_Ok (snd (performHandshake env p received (n\<lparr>nd_heap := nd_heap n @ [q]\<rparr>))) then [TPeer p] else [])"

lemma greet_run:
  assumes "io_message inp = received"
  shows "own_run env inp (n\<lparr>nd_heap := nd_heap n @ [q]\<rparr>, [TGreet (length (nd_heap n))])
    (greet_peer env q received n, served env q received n)"
proof -
  let ?p = "length (nd_heap n)" and ?m = "n\<lparr>nd_heap := nd_heap n @ [q]\<rparr>"
  obtain n1 r1 where v: "send_version env ?p ?m = (n1, r1)" by fastforce
  obtain n2 r2 where a: "accept_version env ?p received n1 = (n2, r2)" by fastforce
  obtain n' r where h: "performHandshake env ?p received ?m = (n', r)" by fastforce
  have nr: "(n', r) = (case r1 of Ok _ \<Rightarrow> (n2, r2) | _ \<Rightarrow> (n1, r1))"
    using h v a by (auto simp: performHandshake_def split: res.splits)
  have "?p < length (nd_heap ?m)" by simp
  from performHandshake_frame [OF h this] have conn: "pr_Connection (peer_at n' ?p) = pr_Connection q"
    by (simp add: peer_at_def)
  have failed: "own_run env inp (n', [TClose (pr_Connection q)]) (close_connection (pr_Connection q) n', [])"
    using own_run_first [of env inp "TClose (pr_Connection q)" n' _ "[]" "[]"] by simp
  have inserted: "own_run env inp (n', [TInsert ?p]) (n'\<lparr>nd_peers := fmupd (pr_ID (peer_at n' ?p)) ?p (nd_peers n')\<rparr>, [TPeer ?p])"
    using own_run_first [of env inp "TInsert ?p" n' _ "[TPeer ?p]" "[]"] by (simp add: insert_step_def)
  have second: "own_run env inp (n1, [TVersion ?p]) (n2, case r2 of Ok _ \<Rightarrow> [TInsert ?p] | _ \<Rightarrow> [TClose (pr_Connection (peer_at n2 ?p))])"
    using own_run_first [of env inp "TVersion ?p" n1 n2 _ "[]"] a assms by (cases r2) (auto simp: handshake_step_def)
  have "own_run env inp (?m, [TGreet ?p]) (n1, case r1 of Ok _ \<Rightarrow> [TVersion ?p] | _ \<Rightarrow> [TClose (pr_Connection (peer_at n1 ?p))])"
    using own_run_first [of env inp "TGreet ?p" ?m n1 _ "[]"] v by (cases r1) (auto simp: handshake_step_def)
  also have "own_run env inp \<dots> (n', case r of Ok _ \<Rightarrow> [TInsert ?p] | _ \<Rightarrow> [TClose (pr_Connection q)])"
    using second nr conn by (cases r1; cases r2) auto
  also have "own_run env inp \<dots> (greet_peer env q received n, served env q received n)"
    using failed inserted by (cases r) (simp_all add: greet_peer_def served_def Let_def h)
  finally show ?thesis .
qed

lemma connection_run:
  assumes "io_message inp = received" and "io_conn inp = Ok conn"
  shows "own_run env inp (n, [TAccepting l]) (handleNewConnection env conn received n, TAccept l #
      served env \<lparr>pr_ID = '''', pr_Address = '''', pr_Connection = conn, pr_Version = 0, pr_LastSeen = ne_now env,
        pr_ReputationScore = Fin 0\<rparr> received n)"
    and "own_run env inp (n, [TDial addr]) (connectToPeer env addr (Ok conn) received n,
      served env \<lparr>pr_ID = '''', pr_Address = addr, pr_Connection = conn, pr_Version = 0, pr_LastSeen = ne_now env,
        pr_ReputationScore = Fin 0\<rparr> received n)"
proof -
  let ?q = "\<lambda>addr. \<lparr>pr_ID = '''', pr_Address = addr, pr_Connection = conn, pr_Version = 0, pr_LastSeen = ne_now env,
        pr_ReputationScore = Fin 0\<rparr>"
  have "thread_step env inp (TAccepting l) n =
      Next (n\<lparr>nd_heap := nd_heap n @ [?q '''']\<rparr>) [TAccept l, TGreet (length (nd_heap n))]"
    using assms(2) by (simp add: accept_step_def new_peer_def)
  from own_run_first [OF this, of "[]"] own_run_frame [OF greet_run [OF assms(1), of env n "?q ''''"], of "[TAccept l]" "[]"]
  show "own_run env inp (n, [TAccepting l]) (handleNewConnection env conn received n, TAccept l # served env (?q '''') received n)"
    by (simp add: handleNewConnection_def)
  have "thread_step env inp (TDial addr) n =
      Next (n\<lparr>nd_heap := nd_heap n @ [?q addr]\<rparr>) [TGreet (length (nd_heap n))]"
    using assms(2) by (simp add: dial_step_def new_peer_def)
  from own_run_first [OF this, of "[]"] greet_run [OF assms(1), of env n "?q addr"]
  show "own_run env inp (n, [TDial addr]) (connectToPeer env addr (Ok conn) received n, served env (?q addr) received n)"
    by (simp add: connectToPeer_def)
qed

section \<open>Ticks, start and stop\<close>

lemma routine_run:
  assumes "io_tick inp"
  shows "ends env inp TMain n (processRoutineTasks env n) [TMain]"
proof -
  let ?u = "updatePeerConnections env n"
  obtain amf r where d: "DynamicShardRebalancing (ne_sha env) (ne_now env) (ne_forest_order env 0)
      (ne_forest_order env 1) (ne_shard_orders env) (nd_merkleForest ?u) = (amf, r)" by fastforce
  let ?f = "?u\<lparr>nd_merkleForest := amf\<rparr>"
  have pending: "ends env inp TPending m (processPendingTransactions env m) [TMain]" for m
  proof (cases "GetTransactions (ne_pool_order env (mp_transactions (nd_mempool m))) 100")
    case (Ok txs)
    obtain n' r where p: "ProcessBlock env (pending_block env txs m) m = (n', r)" by fastforce
    from ends_drop_error [OF block_run [of env inp "pending_block env txs m" CMain m, unfolded p]]
    have "ends env inp (TBuild txs) m (n', drop_error r) [TMain]"
      by (intro ends_step [of env inp "TBuild txs" m m "TJob (JCheck (pending_block env txs m)) CMain"])
        (simp_all add: build_step_def)
    then have "ends env inp TPending m (n', drop_error r) [TMain]" if "txs \<noteq> []"
      using that Ok by (intro ends_step [of env inp TPending m m "TBuild txs"]) (simp_all add: pending_step_def)
    with Ok p own_run_first [of env inp TPending m m "[TMain]" "[]"] show ?thesis
      by (cases "txs = []") (auto simp: processPendingTransactions_def pending_step_def ends_def)
  qed (simp_all add: GetTransactions_100)
  have routine: "processRoutineTasks env n =
      (case r of Panic q \<Rightarrow> (?f, Panic q) | _ \<Rightarrow> processPendingTransactions env ?f)"
    using processPendingTransactions_eq [of env ?f]
    by (cases r) (auto simp: processRoutineTasks_def Let_def d nd_updateNetworkMetrics_def simp del: One_nat_def)
  have step: "thread_step env inp TRebalance ?u = (case r of Panic q \<Rightarrow> Crash q | _ \<Rightarrow> Next ?f [TPending])"
    by (simp add: rebalance_step_def Let_def d del: One_nat_def)
  have "ends env inp TRebalance ?u (processRoutineTasks env n) [TMain]"
    unfolding routine using step pending [of ?f] crashes_now [of env inp TRebalance ?u] ends_step [of env inp TRebalance ?u ?f TPending]
    by (cases r) (simp_all add: ends_def)
  then show ?thesis
    using assms by (intro ends_step [of env inp TMain n ?u TRebalance]) (simp_all add: loop_defs)
qed

lemma range_run:
  "own_run env inp (m, [TNext (nd_peers m, es)]) (fold (\<lambda>(_, p). requestBlockchainState env p) es m, [TSynced])"
proof (induction es arbitrary: m)
  case Nil
  show ?case
    using own_run_first [of env inp "TNext (nd_peers m, [])" m m "[TSynced]" "[]"]
    by (simp add: sync_next_def range_next_def)
next
  case (Cons e es)
  obtain i p where e: "e = (i, p)" by fastforce
  let ?h = "GetCurrentHeight (nd_blockchain m) + 1" and ?m = "requestBlockchainState env p m"
  have same: "nd_peers ?m = nd_peers m" by (simp add: requestBlockchainState_def sendMessage_def Let_def)
  have turn: "thread_step env inp (TNext (nd_peers m, e # es)) m = Next m [TAsk p (nd_peers m, es)]"
    "thread_step env inp (TAsk p (nd_peers m, es)) m = Next m [TAskTo p ?h (nd_peers m, es)]"
    "thread_step env inp (TAskTo p ?h (nd_peers m, es)) m = Next ?m [TNext (nd_peers m, es)]"
    by (simp_all add: e sync_next_def range_next_def sync_ask_def sync_ask_to_def requestBlockchainState_def Let_def)
  from own_run_step [OF turn(1) own_run_step [OF turn(2) own_run_step [OF turn(3)]]] Cons [of ?m, unfolded same]
  show ?case by (simp add: e)
qed

lemma sync_run:
  assumes "io_tick inp"
  shows "own_run env inp (n, [TSync]) (synchronize env n, [TSync])"
proof (cases "sy_syncing (nd_syncManager n)")
  case True
  then have turn: "thread_step env inp TSync n = Next n [TRange]" "thread_step env inp TRange n = Next n [TSync]"
    using assms by (simp_all add: loop_defs sync_range_def)
  from own_run_step [OF turn(1) own_run_step [OF turn(2)]] True show ?thesis by (simp add: synchronize_def)
next
  case False
  let ?m = "n\<lparr>nd_syncManager := (nd_syncManager n)\<lparr>sy_syncing := True\<rparr>\<rparr>"
  let ?es = "ne_peer_order env (nd_peers n)"
  let ?f = "fold (\<lambda>(_, p). requestBlockchainState env p) ?es ?m"
  have turn: "thread_step env inp TSync n = Next n [TRange]" "thread_step env inp TRange n = Next ?m [TIter]"
    "thread_step env inp TIter ?m = Next ?m [TNext (nd_peers ?m, ?es)]"
    "thread_step env inp TSynced ?f = Next (synchronize env n) [TSync]"
    using False assms by (simp_all add: loop_defs sync_range_def sync_iter_def sync_done_def synchronize_def Let_def)
  have "own_run env inp (?f, [TSynced]) (synchronize env n, [TSync])" by (rule own_run_step [OF turn(4)]) simp
  with range_run [of env inp ?m ?es] have "own_run env inp (?m, [TNext (nd_peers ?m, ?es)]) (synchronize env n, [TSync])"
    by (rule rtranclp_trans)
  from own_run_step [OF turn(1) own_run_step [OF turn(2) own_run_step [OF turn(3) this]]] show ?thesis .
qed

lemma start_run:
  assumes "io_conn inp = listen"
  shows "own_run env inp (n, [TStart False]) (fst (node_Start listen n),
    case listen of
      Ok l \<Rightarrow> if nd_running n then []
        else engine_threads @ [TSync, TAccept l, TMain] @ connectToBootstrapPeers n
    | _ \<Rightarrow> [])"
proof (cases "nd_running n")
  case True
  with own_run_first [of env inp "TStart False" n n "[]" "[]"] show ?thesis
    by (simp add: node_Start_def start_step_def start_failed_def split: res.split)
next
  case False
  let ?r = "n\<lparr>nd_running := True\<rparr>"
  have first: "thread_step env inp (TStart False) n = Next ?r [TListen False]" using False by (simp add: start_step_def)
  show ?thesis
  proof (cases listen)
    case (Ok l)
    let ?p = "?r\<lparr>nd_p2pNetwork := p2p_Start l (nd_p2pNetwork n)\<rparr>"
    let ?pre = "engine_threads" and ?post = "[TAccept l, TMain] @ connectToBootstrapPeers n"
    have "thread_step env inp (TListen False) ?r = Next ?p (?pre @ [TSyncStart] @ ?post)"
      using assms Ok by (simp add: listen_step_def Let_def engine_threads_def connectToBootstrapPeers_def)
    with first have "own_run env inp (n, [TStart False]) (?p, ?pre @ [TSyncStart] @ ?post)"
      by (metis append_Nil2 own_run_first rtranclp.rtrancl_refl)
    also have "own_run env inp \<dots> (fst (node_Start listen n), ?pre @ [TSync] @ ?post)"
      using own_run_first [of env inp TSyncStart ?p "fst (node_Start listen n)" "[TSync]" "[]"] False Ok
      by (intro own_run_frame) (simp add: sync_start_step_def node_Start_def Let_def)
    finally show ?thesis using False Ok by (simp add: node_Start_def Let_def)
  qed (use first False assms own_run_first [OF first, of "[]"] own_run_first [of env inp "TListen False" ?r ?r "[]" "[]"]
      in \<open>auto simp: node_Start_def Let_def listen_step_def start_failed_def\<close>)
qed

lemma stop_run: "ends env inp (TStop False) n (node_Stop env n) []"
proof (cases "nd_running n")
  case False
  with own_run_first [of env inp "TStop False" n n "[]" "[]"] show ?thesis
    by (simp add: node_Stop_def stop_step_def return_step_def ends_def)
next
  case True
  let ?r = "n\<lparr>nd_running := False\<rparr>"
  obtain p2p r1 where p: "p2p_Stop (nd_p2pNetwork n) = (p2p, r1)" by fastforce
  obtain sy r2 where s: "sync_Stop (nd_syncManager n) = (sy, r2)" by fastforce
  let ?c = "?r\<lparr>nd_stopClosed := True\<rparr>"
  let ?p = "?c\<lparr>nd_p2pNetwork := p2p\<rparr>"
  let ?s = "?p\<lparr>nd_syncManager := sy\<rparr>"
  let ?e = "fold (\<lambda>(_, p) n. close_connection (pr_Connection (peer_at n p)) n) (ne_peer_order env (nd_peers n)) ?s"
  have stop: "node_Stop env n = (if nd_stopClosed n then (?r, Panic CloseOfClosed)
      else case r1 of Ok _ \<Rightarrow> (case r2 of Ok _ \<Rightarrow> (?e, Ok ()) | _ \<Rightarrow> (?s, r2)) | _ \<Rightarrow> (?p, r1))"
    using True by (simp add: node_Stop_def Let_def close_channel_def p s split: res.split)
  have close: "ends env inp (TCloseAll False) ?s (?e, Ok ()) []"
    using own_run_first [of env inp "TCloseAll False" ?s ?e "[]" "[]"]
    by (intro ends_run) (simp add: close_all_step_def return_step_def)
  have sync: "ends env inp (TShutSync False) ?p (case r2 of Ok _ \<Rightarrow> (?e, Ok ()) | _ \<Rightarrow> (?s, r2)) (resume CEnd)"
    by (rule ends_goes_on [of _ _ _ _ r2 ?s "TCloseAll False"])
      (use close in \<open>auto simp: shut_sync_step_def s split: res.splits\<close>)
  have p2p: "ends env inp (TShutP2P False) ?c
      (case r1 of Ok _ \<Rightarrow> (case r2 of Ok _ \<Rightarrow> (?e, Ok ()) | _ \<Rightarrow> (?s, r2)) | _ \<Rightarrow> (?p, r1)) (resume CEnd)"
    by (rule ends_goes_on [of _ _ _ _ r1 ?p "TShutSync False"])
      (use sync in \<open>auto simp: shut_p2p_step_def p split: res.splits\<close>)
  have "ends env inp (TShut False) ?r (node_Stop env n) []"
  proof (cases "nd_stopClosed n")
    case closed: True
    with crashes_now [of env inp "TShut False" ?r CloseOfClosed] show ?thesis
      unfolding stop by (simp add: shut_step_def close_channel_def ends_def)
  next
    case False
    with p2p show ?thesis
      unfolding stop by (intro ends_step [of env inp "TShut False" ?r ?c "TShutP2P False"])
        (simp_all add: shut_step_def close_channel_def)
  qed
  with True show ?thesis by (intro ends_step [of env inp "TStop False" n ?r "TShut False"]) (simp_all add: stop_step_def)
qed

section \<open>Shutting down\<close>

text \<open>Once the signal arrives, \<open>Stop\<close> of a running or stopped node runs through and the process exits.\<close>

lemma shutdown_run:
  assumes "io_signal inp" and "nd_running n \<longrightarrow> chans n = (False, False, False)"
  shows "\<exists>m t. own_run env inp (n, [TWait]) (m, [t]) \<and> thread_step env inp t m = Exit 0"
proof (cases "nd_running n")
  case False
  have "thread_step env inp TWait n = Next n [TStop True]" using assms(1) by (simp add: wait_step_def)
  from own_run_step [OF this rtranclp.rtrancl_refl] False show ?thesis
    by (intro exI [of _ n] exI [of _ "TStop True"]) (simp add: stop_step_def return_step_def)
next
  case True
  let ?r = "n\<lparr>nd_running := False\<rparr>"
  let ?c = "?r\<lparr>nd_stopClosed := True\<rparr>"
  let ?p = "?c\<lparr>nd_p2pNetwork := fst (p2p_Stop (nd_p2pNetwork n))\<rparr>"
  let ?s = "?p\<lparr>nd_syncManager := fst (sync_Stop (nd_syncManager n))\<rparr>"
  have turn: "thread_step env inp TWait n = Next n [TStop True]"
    "thread_step env inp (TStop True) n = Next ?r [TShut True]"
    "thread_step env inp (TShut True) ?r = Next ?c [TShutP2P True]"
    "thread_step env inp (TShutP2P True) ?c = Next ?p [TShutSync True]"
    "thread_step env inp (TShutSync True) ?p = Next ?s [TCloseAll True]"
    using assms True by (simp_all add: lifecycle_defs chans_def close_channel_def p2p_Stop_def sync_Stop_def Let_def
        split: option.split)
  have "own_run env inp (n, [TWait]) (?s, [TCloseAll True])"
    by (rule own_run_step [OF turn(1) own_run_step [OF turn(2) own_run_step [OF turn(3)
        own_run_step [OF turn(4) own_run_step [OF turn(5)]]]]]) simp
  then show ?thesis by (intro exI [of _ ?s] exI [of _ "TCloseAll True"]) (simp add: close_all_step_def return_step_def)
qed

end
