(* ===== verification/Node_Serving.thy ===== *)
theory Node_Serving
  imports Node_Lifecycle
begin

text \<open>
  What the process sends: every block that any goroutine carries towards a connection, and every block
  that was written to one, is stored in the chain.
\<close>

fun payload_blocks :: "net_payload \<Rightarrow> block option list" where
  "payload_blocks (PBlocks bs) = bs"
| "payload_blocks (PBlock b) = [Some b]"
| "payload_blocks _ = []"

fun job_blocks :: "job \<Rightarrow> block option list" where
  "job_blocks (JUpdate b) = [Some b]"
| "job_blocks (JForget _ b) = [Some b]"
| "job_blocks (JCastBlock b) = [Some b]"
| "job_blocks (JHeight _ _ _ bs) = bs"
| "job_blocks (JFetch _ _ _ bs) = bs"
| "job_blocks (JReply _ payload) = payload_blocks payload"
| "job_blocks _ = []"

fun carried :: "thread \<Rightarrow> block option list" where
  "carried (TJob j _) = job_blocks j"
| "carried (TSend _ payload) = payload_blocks payload"
| "carried _ = []"

lemma range_next_carried [simp]: "carried (range_next inp r m) = []"
  by (cases inp r m rule: range_next_cases) auto

definition stored :: "digest \<Rightarrow> node \<Rightarrow> block option \<Rightarrow> bool" where
  "stored sha n x \<longleftrightarrow>
     (\<exists>b. x = Some b \<and> fmlookup (bc_blocks (nd_blockchain n)) (header_hash sha (blk_Header b)) \<noteq> None)"

definition serve_inv :: "digest \<Rightarrow> node \<Rightarrow> thread list \<Rightarrow> bool" where
  "serve_inv sha n ts \<longleftrightarrow> (\<forall>t \<in> set ts. \<forall>x \<in> set (carried t). stored sha n x) \<and>
     (\<forall>e \<in> set (nd_sent n). \<forall>x \<in> set (payload_blocks (snd e)). stored sha n x)"

definition chain_le :: "node \<Rightarrow> node \<Rightarrow> bool" where
  "chain_le n n' \<longleftrightarrow> bc_currentHeight (nd_blockchain n) \<le> bc_currentHeight (nd_blockchain n') \<and>
     (\<forall>h. fmlookup (bc_blocks (nd_blockchain n)) h \<noteq> None \<longrightarrow> fmlookup (bc_blocks (nd_blockchain n')) h \<noteq> None)"

lemma chain_le_refl: "nd_blockchain n' = nd_blockchain n \<Longrightarrow> chain_le n n'"
  by (simp add: chain_le_def)

lemma chain_le_trans: "chain_le n1 n2 \<Longrightarrow> chain_le n2 n3 \<Longrightarrow> chain_le n1 n3"
  by (auto simp: chain_le_def)

lemma chain_le_stored: "chain_le n n' \<Longrightarrow> stored sha n x \<Longrightarrow> stored sha n' x"
  by (auto simp: chain_le_def stored_def)

text \<open>
  A step keeps the stored blocks, passes on what it carries or what is stored, and sends what it
  carries.
\<close>

definition serve_effect :: "digest \<Rightarrow> node \<Rightarrow> thread \<Rightarrow> node \<Rightarrow> thread list \<Rightarrow> bool" where
  "serve_effect sha n t n' ts \<longleftrightarrow> chain_le n n' \<and>
     (\<forall>t' \<in> set ts. \<forall>x \<in> set (carried t'). x \<in> set (carried t) \<or> stored sha n' x) \<and>
     (\<forall>e \<in> set (nd_sent n'). e \<in> set (nd_sent n) \<or> set (payload_blocks (snd e)) \<subseteq> set (carried t))"

lemma serve_inv_step:
  assumes "serve_effect sha n t n' ts" and "serve_inv sha n (us @ t # vs)"
  shows "serve_inv sha n' (us @ ts @ vs)"
proof -
  have old: "stored sha n' x" if "stored sha n x" for x using that assms(1) chain_le_stored by (auto simp: serve_effect_def)
  have own: "stored sha n' x" if "x \<in> set (carried t)" for x
    using that assms(2) old by (simp add: serve_inv_def)
  have "stored sha n' x" if "t' \<in> set (us @ ts @ vs)" "x \<in> set (carried t')" for t' x
  proof (cases "t' \<in> set ts")
    case True
    with that(2) assms(1) own show ?thesis by (auto simp: serve_effect_def)
  next
    case False
    with that have "t' \<in> set (us @ t # vs)" by auto
    with that(2) assms(2) have "stored sha n x" by (simp only: serve_inv_def)
    then show ?thesis by (rule old)
  qed
  moreover have "stored sha n' x" if "e \<in> set (nd_sent n')" "x \<in> set (payload_blocks (snd e))" for e x
  proof (cases "e \<in> set (nd_sent n)")
    case True
    with that(2) assms(2) have "stored sha n x" by (simp add: serve_inv_def)
    then show ?thesis by (rule old)
  next
    case False
    with that assms(1) have "x \<in> set (carried t)" by (auto simp: serve_effect_def)
    then show ?thesis by (rule own)
  qed
  ultimately show ?thesis by (simp add: serve_inv_def)
qed

section \<open>Steps that leave chain and connections alone\<close>

definition same_wire :: "node \<Rightarrow> node \<Rightarrow> bool" where
  "same_wire n n' \<longleftrightarrow> nd_blockchain n' = nd_blockchain n \<and> nd_sent n' = nd_sent n"

lemma same_wire_fields:
  "same_wire n n" "same_wire n (n\<lparr>nd_peers := ps\<rparr>)" "same_wire n (n\<lparr>nd_heap := h\<rparr>)"
  "same_wire n (n\<lparr>nd_syncManager := sm\<rparr>)" "same_wire n (n\<lparr>nd_running := b\<rparr>)"
  "same_wire n (n\<lparr>nd_stopClosed := b\<rparr>)" "same_wire n (n\<lparr>nd_merkleForest := amf\<rparr>)"
  "same_wire n (n\<lparr>nd_p2pNetwork := p2p\<rparr>)" "same_wire n (n\<lparr>nd_capOrchestrator := co\<rparr>)"
  "same_wire n (n\<lparr>nd_consensus := hc\<rparr>)" "same_wire n (n\<lparr>nd_stateManager := st\<rparr>)"
  "same_wire n (n\<lparr>nd_mempool := m\<rparr>)" "same_wire n (close_connection c n)" "same_wire n (set_peer p q n)"
  by (simp_all add: same_wire_def close_connection_def set_peer_def)

lemma same_wire_fold:
  assumes "\<And>x n. same_wire n (f x n)"
  shows "same_wire n (fold f xs n)"
proof (induction xs arbitrary: n)
  case (Cons x xs)
  from Cons [of "f x n"] assms [of n x] show ?case by (simp add: same_wire_def)
qed (simp add: same_wire_fields)

lemma same_wire_updatePeerConnections: "same_wire n (updatePeerConnections env n)"
  unfolding updatePeerConnections_def
  by (rule same_wire_fold) (simp add: drop_inactive_def close_connection_def same_wire_def split: prod.split)

lemma same_wire_close_all:
  "same_wire n (fold (\<lambda>(_, p) n. close_connection (pr_Connection (peer_at n p)) n) es n)"
  by (rule same_wire_fold) (simp add: same_wire_fields split: prod.split)

lemma same_wire_consensus: "same_wire n (fst (HandleConsensusMessage env msg n))"
  by (simp add: HandleConsensusMessage_def same_wire_fields split: prod.split)

lemma same_wire_accept: "same_wire n (fst (accept_version env p received n))"
  by (simp add: accept_version_def same_wire_fields split: res.split)

lemma serve_effect_same:
  assumes "same_wire n n'" and "\<forall>t' \<in> set ts. \<forall>x \<in> set (carried t'). x \<in> set (carried t) \<or> stored sha n x"
  shows "serve_effect sha n t n' ts"
  using assms by (auto simp: serve_effect_def same_wire_def stored_def chain_le_refl)

lemma carried_resume [simp]: "t \<in> set (resume k) \<Longrightarrow> carried t = []"
  by (cases k) auto

lemma carried_cast [simp]: "t \<in> set (cast env payload n) \<Longrightarrow> carried t = payload_blocks payload"
  by (auto simp: cast_def)

lemma serve_effect_consensus:
  "consensus_job env msg k n = Next n' ts \<Longrightarrow> serve_effect sha n t n' ts"
  using same_wire_consensus by (auto dest!: consensus_job_Next intro!: serve_effect_same)

lemma serve_effect_send:
  assumes "n' = fst (sendMessage env p payload n)" and "set (payload_blocks payload) \<subseteq> set (carried t)"
    and "\<forall>t' \<in> set ts. carried t' = []"
  shows "serve_effect sha n t n' ts"
  using assms by (auto simp: serve_effect_def sendMessage_def Let_def stored_def chain_le_refl)

lemma serve_effect_add:
  assumes "AddBlock sha now b (nd_blockchain n) = (bc, r)"
    and "ts = (if r = Ok () then [TJob (JUpdate b) k] else resume k)"
  shows "serve_effect sha n t (n\<lparr>nd_blockchain := bc\<rparr>) ts"
  using AddBlock_grows [OF assms(1)] assms(2) by (auto simp: serve_effect_def stored_def chain_le_def)

section \<open>Every step\<close>

lemma serve_effect_job:
  assumes "job_step env j k n = Next n' ts" and "chain_inv (ne_sha env) (nd_blockchain n)"
  shows "serve_effect (ne_sha env) n (TJob j k) n' ts"
proof (cases j)
  case (JAdd b)
  obtain bc r where "AddBlock (ne_sha env) (Unix (ne_now env)) b (nd_blockchain n) = (bc, r)" by fastforce
  with JAdd assms(1) show ?thesis
    by (auto intro!: serve_effect_add split: res.splits)
next
  case (JUpdate b)
  then show ?thesis using assms(1) by (auto simp: UpdateState_eq same_wire_fields intro!: serve_effect_same split: res.splits)
next
  case (JForget txs b)
  then show ?thesis using assms(1) by (cases txs) (auto simp: same_wire_fields intro!: serve_effect_same)
next
  case (JConsensus msg)
  then show ?thesis using assms(1) serve_effect_consensus by simp
next
  case (JReply p payload)
  obtain m r where "sendMessage env p payload n = (m, r)" by fastforce
  with JReply assms(1) show ?thesis
    by (intro serve_effect_send [of _ env p payload]) (auto split: res.splits)
next
  case (JFetch p high i bs)
  have "r = Some b \<Longrightarrow> GetBlockByHeight i (nd_blockchain n) = Ok r \<Longrightarrow> stored (ne_sha env) n r" for r b
    using assms(2) by (auto simp: GetBlockByHeight_def chain_inv_def stored_def split: option.splits)
  moreover have "GetBlockByHeight i (nd_blockchain n) = Ok r \<Longrightarrow> r \<noteq> None" for r
    using assms(2) by (auto simp: GetBlockByHeight_def chain_inv_def split: option.splits)
  ultimately have "GetBlockByHeight i (nd_blockchain n) = Ok r \<Longrightarrow> stored (ne_sha env) n r" for r by blast
  with JFetch assms(1) show ?thesis
    by (auto intro!: serve_effect_same simp: same_wire_fields split: res.splits)
next
  case (JData p h)
  have "GetBlock h (nd_blockchain n) = Ok b \<Longrightarrow> stored (ne_sha env) n (Some b)" for b
    using assms(2) by (auto simp: GetBlock_def chain_inv_def stored_def split: option.splits)
  with JData assms(1) show ?thesis
    by (auto intro!: serve_effect_same simp: same_wire_fields split: res.splits)
qed (use assms(1) in \<open>auto intro!: serve_effect_same simp: same_wire_fields split: prod.splits res.splits if_splits\<close>)

lemma serve_effect_thread:
  assumes "thread_step env inp t n = Next n' ts" and "chain_inv (ne_sha env) (nd_blockchain n)"
  shows "serve_effect (ne_sha env) n t n' ts"
proof (cases t)
  case (TJob j k)
  then show ?thesis using assms serve_effect_job by simp
next
  case (TVote msg)
  then show ?thesis using assms(1) serve_effect_consensus by simp
next
  case (TGreet p)
  then show ?thesis
    using assms(1) handshake_step_Next by (intro serve_effect_send) (fastforce simp: send_version_def)+
next
  case (TVersion p)
  then show ?thesis
    using assms(1) same_wire_accept by (auto dest!: handshake_step_Next intro!: serve_effect_same)
next
  case (TAskTo p low ps)
  then show ?thesis using assms(1) by (intro serve_effect_send) (auto simp: sync_ask_to_def)
next
  case (TSend p payload)
  then show ?thesis using assms(1) by (intro serve_effect_send [of _ env p payload]) auto
next
  case (TCloseAll main)
  then show ?thesis
    using assms(1) same_wire_close_all by (auto simp: lifecycle_defs intro!: serve_effect_same split: if_splits)
next
  case TMain
  then show ?thesis
    using assms(1) same_wire_updatePeerConnections
    by (auto simp: loop_defs same_wire_fields intro!: serve_effect_same split: if_splits)
next
  case (THandle p msg)
  have "dispatch env p msg = Ok (Some j) \<Longrightarrow> job_blocks j = []" for j
    by (auto simp: dispatch_def Let_def bind_res_Ok_iff split: if_splits)
  with THandle show ?thesis
    using assms(1) by (auto simp: handle_step_def same_wire_fields intro!: serve_effect_same split: res.splits option.splits)
next
  case TPending
  then show ?thesis
    using assms(1) by (auto simp: pending_step_def same_wire_fields intro!: serve_effect_same split: res.splits if_splits)
next
  case TRound
  then show ?thesis
    using assms(1) by (auto simp: loop_defs same_wire_fields intro!: serve_effect_same
        split: if_splits option.splits res.splits)
next
  case (TListen main)
  then show ?thesis
    using assms(1) by (auto simp: listen_step_def start_failed_def Let_def connectToBootstrapPeers_def
        same_wire_fields intro!: serve_effect_same split: if_splits res.splits) 
qed (use assms(1) in \<open>auto simp: same_wire_fields connection_defs loop_defs lifecycle_defs tick_defs
    close_channel_def p2p_Stop_def sync_Stop_def Let_def intro!: serve_effect_same
    split: if_splits res.splits list.splits prod.splits\<close>)

lemma chain_of_well_formed: "well_formed sha n \<Longrightarrow> chain_inv sha (nd_blockchain n)"
  by (simp add: well_formed_def reachable_chain_inv)

interpretation growing: process_invariant sha "\<lambda>n. well_formed sha n \<and> chain_le n0 n" "\<lambda>_. False" for sha n0
proof
  fix env n inp t n' ts
  assume s: "ne_sha env = sha" "env_orders env n" "thread_step env inp t n = Next n' ts"
    and inv: "well_formed sha n \<and> chain_le n0 n"
  have "chain_inv (ne_sha env) (nd_blockchain n)" using inv chain_of_well_formed s(1) by simp
  from serve_effect_thread [OF s(3) this] have "chain_le n n'" by (simp add: serve_effect_def)
  with inv wf.keeps [OF s] show "(well_formed sha n' \<and> chain_le n0 n') \<and> (\<forall>t' \<in> set ts. \<not> False)"
    using chain_le_trans by blast
qed simp

lemma run_serve_inv:
  assumes "sys_run sha open_api (n, ts) (n', ts')" and "well_formed sha n" and "serve_inv sha n ts"
  shows "serve_inv sha n' ts'"
proof -
  have "well_formed sha n' \<and> serve_inv sha n' ts'"
    using assms(1)
  proof (induction rule: sys_run_invariant)
    case (start m us)
    then show ?case using assms(2,3) by simp
  next
    case (run env inp t m m' new us vs)
    then have wf: "well_formed sha m" by simp
    then have "chain_inv (ne_sha env) (nd_blockchain m)"
      using run.hyps(1) chain_of_well_formed by simp
    from serve_inv_step [OF serve_effect_thread [OF run.hyps(3) this]] run
      wf.keeps [OF run.hyps(1-3) wf] show ?case by simp
  next
    case (call t m us)
    have "carried t = []" using call(2) by (cases rule: api_call.elims(2)) simp_all
    with call show ?case by (simp add: serve_inv_def)
  qed
  then show ?thesis ..
qed

end
