(* ===== verification/Crypto_ZKP.thy ===== *)
theory Crypto_ZKP
  imports Core_Types
begin

text \<open>
  \<open>crypto/zkp.go\<close>: the Schnorr-style proof system over a fixed small group. A \<open>*big.Int\<close>
  argument or field is an \<open>int option\<close> where the code compares it with nil; the parameters of
  the system are never nil and their modulus is positive.
\<close>

section \<open>Modular exponentiation (\<open>math/big\<close>)\<close>

text \<open>
  \<open>Exp(x, y, m)\<close> for \<open>0 < m\<close> as documented: a negative exponent inverts the base, and the
  result is nil when there is no inverse.
\<close>

definition ModInverse :: "int \<Rightarrow> int \<Rightarrow> int option" where
  "ModInverse x m = find (\<lambda>k. x * k mod m = 1 mod m) [0..m - 1]"

definition big_Exp :: "int \<Rightarrow> int \<Rightarrow> int \<Rightarrow> int option" where
  "big_Exp x y m =
     (if 0 \<le> y then Some (x ^ nat y mod m)
      else map_option (\<lambda>k. k ^ nat (- y) mod m) (ModInverse x m))"

lemma big_Exp_nonneg: "0 \<le> y \<Longrightarrow> big_Exp x y m = Some (x ^ nat y mod m)"
  by (simp add: big_Exp_def)

section \<open>The proof system\<close>

record zkp_params =
  zk_Prime :: int
  zk_Generator :: int
  zk_Order :: int

record zk_proof =
  zk_Commitment :: "int option"
  zk_Challenge :: "int option"
  zk_Response :: "int option"

definition NewZKPSystem :: zkp_params where
  "NewZKPSystem = \<lparr>zk_Prime = 23, zk_Generator = 5, zk_Order = 11\<rparr>"

text \<open>The statement is not used; the error result is always nil.\<close>

definition zkp_GenerateProof :: "zkp_params \<Rightarrow> int \<Rightarrow> int \<Rightarrow> zk_proof" where
  "zkp_GenerateProof ps secret statement =
     (let r = 7; challenge = 3;
          commitment = big_Exp (zk_Generator ps) r (zk_Prime ps);
          response = (challenge * secret + r) mod zk_Order ps
      in \<lparr>zk_Commitment = commitment, zk_Challenge = Some challenge,
          zk_Response = Some response\<rparr>)"

text \<open>A nil result of \<open>Exp\<close> is dereferenced by \<open>Mul\<close> or \<open>Cmp\<close>.\<close>

definition zkp_VerifyProof :: "zkp_params \<Rightarrow> zk_proof option \<Rightarrow> int option \<Rightarrow> bool res" where
  "zkp_VerifyProof ps proof statement =
     (case (proof, statement) of
        (Some p, Some st) \<Rightarrow>
          (case (zk_Commitment p, zk_Challenge p, zk_Response p) of
             (Some com, Some ch, Some resp) \<Rightarrow>
               (case big_Exp st ch (zk_Prime ps) of
                  None \<Rightarrow> Panic NilDereference
                | Some pw \<Rightarrow>
                    (case big_Exp (zk_Generator ps) resp (zk_Prime ps) of
                       None \<Rightarrow> Panic NilDereference
                     | Some left \<Rightarrow> Ok (left = com * pw mod zk_Prime ps)))
           | _ \<Rightarrow> Ok False)
      | _ \<Rightarrow> Ok False)"

record state_proof =
  zsp_StateRoot :: hash
  zsp_Proof :: "zk_proof option"
  zsp_Timestamp :: i64

definition GenerateStateProof ::
  "zkp_params \<Rightarrow> hash \<Rightarrow> bytes \<Rightarrow> go_time \<Rightarrow> state_proof" where
  "GenerateStateProof ps stateRoot w now =
     (let secret = 2;
          statement = the (big_Exp (zk_Generator ps) secret (zk_Prime ps));
          proof = zkp_GenerateProof ps secret statement
      in \<lparr>zsp_StateRoot = stateRoot, zsp_Proof = Some proof, zsp_Timestamp = Unix now\<rparr>)"

definition VerifyStateProof :: "zkp_params \<Rightarrow> state_proof \<Rightarrow> bool res" where
  "VerifyStateProof ps sp =
     (let secret = 2; statement = big_Exp (zk_Generator ps) secret (zk_Prime ps)
      in zkp_VerifyProof ps (zsp_Proof sp) statement)"

lemmas zkp_defs = zkp_GenerateProof_def zkp_VerifyProof_def Let_def big_Exp_nonneg

section \<open>Properties\<close>

text \<open>The verification equation for a proof of the system's own shape.\<close>

lemma VerifyProof_generated:
  assumes "0 < zk_Order ps" and "0 < zk_Prime ps"
  shows "zkp_VerifyProof ps (Some (zkp_GenerateProof ps s st)) (Some x) =
    Ok (zk_Generator ps ^ nat ((3 * s + 7) mod zk_Order ps) mod zk_Prime ps =
        zk_Generator ps ^ 7 * x ^ 3 mod zk_Prime ps)"
  using assms by (simp add: zkp_defs mod_mult_eq)

text \<open>
  Completeness, for the parameters the protocol needs: when the generator raised to the order
  is 1 modulo the prime, the proof that \<open>GenerateProof\<close> builds for any secret verifies against
  the statement \<open>g ^ secret\<close>.
\<close>

theorem zkp_complete_for_sound_params:
  assumes "1 < zk_Prime ps" and "0 < zk_Order ps" and "0 \<le> s"
    and "zk_Generator ps ^ nat (zk_Order ps) mod zk_Prime ps = 1"
  shows "zkp_VerifyProof ps (Some (zkp_GenerateProof ps s st))
    (big_Exp (zk_Generator ps) s (zk_Prime ps)) = Ok True"
proof -
  let ?g = "zk_Generator ps" and ?p = "zk_Prime ps" and ?q = "zk_Order ps"
  let ?e = "3 * s + 7"
  have "nat ?e = nat ?q * nat (?e div ?q) + nat (?e mod ?q)"
    using assms by (intro int_int_eq [THEN iffD1]) (simp add: pos_imp_zdiv_nonneg_iff)
  then have "?g ^ nat ?e mod ?p =
      ((?g ^ nat ?q) ^ nat (?e div ?q) mod ?p) * ?g ^ nat (?e mod ?q) mod ?p"
    by (simp add: power_add power_mult mod_mult_left_eq)
  also have "(?g ^ nat ?q) ^ nat (?e div ?q) mod ?p = 1"
    using assms power_mod [of "?g ^ nat ?q" ?p "nat (?e div ?q)"] by simp
  finally have "?g ^ nat (?e mod ?q) mod ?p = ?g ^ nat ?e mod ?p" by simp
  also have "nat ?e = 7 + nat s * 3" using assms(3) by (simp add: nat_add_distrib nat_mult_distrib)
  also have "?g ^ (7 + nat s * 3) mod ?p = ?g ^ 7 * (?g ^ nat s mod ?p) ^ 3 mod ?p"
    by (simp add: power_add power_mult power_mod mod_mult_right_eq
        mod_mult_cong [OF refl power_mod])
  finally show ?thesis
    using assms by (simp add: VerifyProof_generated big_Exp_nonneg)
qed

theorem zkp_complete_for_sound_params_witness:
  "zkp_VerifyProof \<lparr>zk_Prime = 23, zk_Generator = 2, zk_Order = 11\<rparr>
     (Some (zkp_GenerateProof \<lparr>zk_Prime = 23, zk_Generator = 2, zk_Order = 11\<rparr> 42 100))
     (big_Exp 2 42 23) = Ok True"
  using zkp_complete_for_sound_params
    [of "\<lparr>zk_Prime = 23, zk_Generator = 2, zk_Order = 11\<rparr>" 42 100] by simp

text \<open>In the system's own group, 5 has order 22, so \<open>5 ^ 11 = -1\<close>.\<close>

lemma pow5_nonzero: "5 ^ k mod (23 :: int) \<noteq> 0"
proof -
  have "coprime (23 :: int) 5" by (simp add: coprime_iff_gcd_eq_1 gcd_non_0_int)
  then have "coprime (23 :: int) (5 ^ k)" by simp
  then show ?thesis using coprime_common_divisor [of "23 :: int" "5 ^ k" 23] by auto
qed

lemma pow5_split: "5 ^ (11 * q + r) mod (23 :: int) = (if even q then 5 ^ r else - (5 ^ r)) mod 23"
proof -
  have "(5 ^ 11) ^ q mod (23 :: int) = (- 1) ^ q mod 23"
    using power_mod [of "5 ^ 11 :: int" 23 q] power_mod [of "- 1 :: int" 23 q] by simp
  then have "(5 ^ 11) ^ q * 5 ^ r mod (23 :: int) = (- 1) ^ q * 5 ^ r mod 23"
    by (rule mod_mult_cong) simp
  then show ?thesis by (simp add: power_add power_mult)
qed

lemma odd_modulus_neg: "(x :: int) mod 23 = - x mod 23 \<longleftrightarrow> x mod 23 = 0"
proof -
  have "x mod 23 = - x mod 23 \<longleftrightarrow> 23 dvd 2 * x"
    by (simp add: mod_eq_dvd_iff)
  also have "\<dots> \<longleftrightarrow> 23 dvd x"
    by (rule coprime_dvd_mult_right_iff) (simp add: coprime_iff_gcd_eq_1 gcd_non_0_int)
  finally show ?thesis by (simp add: dvd_eq_mod_eq_0)
qed

lemma verify_own_group:
  assumes "0 \<le> s"
  shows "zkp_VerifyProof NewZKPSystem (Some (zkp_GenerateProof NewZKPSystem s st))
      (big_Exp 5 s 23) = Ok (even ((3 * s + 7) div 11))"
proof -
  let ?e = "nat (3 * s + 7)"
  have e: "?e = 11 * (?e div 11) + ?e mod 11" by simp
  have "(5 :: int) ^ 7 * (5 ^ nat s mod 23) ^ 3 mod 23 = 5 ^ (7 + nat s * 3) mod 23"
    by (simp add: power_add power_mult power_mod mod_mult_right_eq
        mod_mult_cong [OF refl power_mod] del: power_numeral)
  also have "7 + nat s * 3 = 11 * (?e div 11) + ?e mod 11"
    using assms by (simp add: nat_add_distrib nat_mult_distrib)
  also have "5 ^ \<dots> mod (23 :: int) =
      (if even (?e div 11) then 5 ^ (?e mod 11) else - (5 ^ (?e mod 11))) mod 23"
    by (rule pow5_split)
  finally have right: "(5 :: int) ^ 7 * (5 ^ nat s mod 23) ^ 3 mod 23 = \<dots>" .
  have "nat ((3 * s + 7) mod 11) = ?e mod 11" and "nat ((3 * s + 7) div 11) = ?e div 11"
    using assms by (simp_all add: nat_mod_distrib nat_div_distrib)
  moreover have "0 \<le> (3 * s + 7) div 11" using assms by simp
  from even_nat_iff [OF this] have "even (nat ((3 * s + 7) div 11)) = even ((3 * s + 7) div 11)" .
  ultimately have "nat ((3 * s + 7) mod 11) = ?e mod 11"
      and "even ((3 * s + 7) div 11) = even (?e div 11)"
    by (simp_all only:)
  note parity = this
  have pos: "0 < zk_Order NewZKPSystem" "0 < zk_Prime NewZKPSystem"
      and params: "zk_Prime NewZKPSystem = 23" "zk_Order NewZKPSystem = 11"
        "zk_Generator NewZKPSystem = 5"
    by (simp_all add: NewZKPSystem_def)
  have "zkp_VerifyProof NewZKPSystem (Some (zkp_GenerateProof NewZKPSystem s st)) (big_Exp 5 s 23) =
      Ok (5 ^ (?e mod 11) mod 23 = (5 :: int) ^ 7 * (5 ^ nat s mod 23) ^ 3 mod 23)"
    unfolding big_Exp_nonneg [OF assms] VerifyProof_generated [OF pos] params parity(1) ..
  also have "\<dots> = Ok (5 ^ (?e mod 11) mod 23 =
      (if even (?e div 11) then 5 ^ (?e mod 11) else - (5 ^ (?e mod 11))) mod (23 :: int))"
    unfolding right ..
  also have "\<dots> = Ok (even (?e div 11))"
    unfolding if_distrib [of "\<lambda>x. x mod (23 :: int)"]
    using odd_modulus_neg [of "5 ^ (?e mod 11)"] pow5_nonzero [of "?e mod 11"]
    by (cases "even (?e div 11)") (simp_all only: if_True if_False refl simp_thms)
  finally show ?thesis unfolding parity(2) .
qed

text \<open>
  With the parameters of \<open>NewZKPSystem\<close> (generator 5 of order 22, declared order 11) an
  honestly generated proof for a secret verifies exactly when \<open>(3 * secret + 7) div 11\<close> is even.
\<close>

theorem zkp_completeness_gap:
  assumes "0 \<le> s"
  shows "zkp_VerifyProof NewZKPSystem (Some (zkp_GenerateProof NewZKPSystem s st))
      (big_Exp 5 s 23) = Ok (even ((3 * s + 7) div 11))"
  using assms by (rule verify_own_group)

theorem zkp_completeness_gap_witness:
  "zkp_VerifyProof NewZKPSystem (Some (zkp_GenerateProof NewZKPSystem 1 0)) (big_Exp 5 1 23) =
     Ok True"
  using zkp_completeness_gap [of 1 0] by simp

text \<open>
  \<open>GenerateStateProof\<close> uses the secret 2, for which the check fails: \<open>VerifyStateProof\<close>
  rejects every state proof the system generates, for every state root.
\<close>

theorem state_proofs_always_rejected:
  "VerifyStateProof NewZKPSystem (GenerateStateProof NewZKPSystem root w now) = Ok False"
  using verify_own_group [of 2]
  by (simp add: VerifyStateProof_def GenerateStateProof_def NewZKPSystem_def Let_def)

text \<open>
  Neither soundness nor zero knowledge: for every modulus above 1 a fixed proof, made without
  any secret, is accepted for every statement (the challenge is taken from the proof), and a proof
  made by \<open>GenerateProof\<close> reveals the secret modulo the order.
\<close>

theorem zkp_forgery_and_leak:
  assumes "1 < zk_Prime ps"
  shows "zkp_VerifyProof ps
      (Some \<lparr>zk_Commitment = Some 1, zk_Challenge = Some 0, zk_Response = Some 0\<rparr>) (Some st) =
        Ok True \<and>
    (\<exists>resp. zk_Response (zkp_GenerateProof NewZKPSystem s st) = Some resp \<and>
       4 * (resp - 7) mod 11 = s mod 11)"
proof
  show "zkp_VerifyProof ps
      (Some \<lparr>zk_Commitment = Some 1, zk_Challenge = Some 0, zk_Response = Some 0\<rparr>) (Some st) =
        Ok True"
    using assms by (simp add: zkp_VerifyProof_def big_Exp_def)
  have "4 * ((3 * s + 7) mod 11 - 7) mod 11 = 4 * (3 * s + 7 - 7) mod 11"
    by (metis mod_mult_right_eq mod_diff_left_eq)
  also have "4 * (3 * s + 7 - 7) = s + 11 * s" by simp
  also have "(s + 11 * s) mod 11 = s mod 11" by (rule mod_mult_self2)
  finally have "4 * ((3 * s + 7) mod 11 - 7) mod 11 = s mod 11" .
  then show "\<exists>resp. zk_Response (zkp_GenerateProof NewZKPSystem s st) = Some resp \<and>
      4 * (resp - 7) mod 11 = s mod 11"
    by (simp add: zkp_GenerateProof_def NewZKPSystem_def Let_def)
qed

theorem zkp_forgery_and_leak_witness:
  "zkp_VerifyProof NewZKPSystem
     (Some \<lparr>zk_Commitment = Some 1, zk_Challenge = Some 0, zk_Response = Some 0\<rparr>) (Some 100) =
   Ok True"
  using zkp_forgery_and_leak [of NewZKPSystem 100 0] by (simp add: NewZKPSystem_def)

end
