(* ===== verification/Spec2Isabelle.thy ===== *)
theory Spec2Isabelle
  imports Node_Solo Node_Serving Crypto_ZKP
begin

text \<open>
  A blockchain node in Go, modelled file by file and verified.

  The program. A \<open>Node\<close> (\<open>network/node.go\<close>) owns a \<open>Blockchain\<close> (\<open>core/\<close>), an
  \<open>AdaptiveMerkleForest\<close> (\<open>merkle/\<close>), a \<open>HybridConsensus\<close> (\<open>consensus/\<close>), a \<open>StateManager\<close>
  (\<open>state/\<close>), a \<open>CAPOrchestrator\<close> (\<open>cap/\<close>), a mempool, a peer table and a synchronization manager.
  Peers send it JSON messages. A block goes through the (empty) consensus checks, \<open>AddBlock\<close>,
  \<open>UpdateState\<close> and the mempool, and is then broadcast; a transaction is checked against the state and
  pooled; consensus messages go to \<open>ProcessConsensusMessage\<close>; block requests are answered from the height
  index. Tickers drop silent peers, rebalance the forest, build a block from the mempool, run a consensus
  round and ask peers for blocks. \<open>main.go\<close> creates the parts, starts the node, waits for a signal and
  stops it; every connection, ticker and broadcast has a goroutine of its own.

  Theories, bottom up.
  \<^item> \<open>Prelude\<close>, \<open>Interfaces\<close>: machine types, errors and panics as values (\<open>'a res\<close>), Go maps as finite maps
    and the orders of a range over them; the contracts between components as locales
    (\<open>keyed_store\<close>, \<open>keyed_store_del\<close>, \<open>kv_store\<close>, \<open>kv_store_del\<close>, \<open>membership_filter\<close>), each interpreted
    on the operations of the model: the chain's block store, the prepared and committed blocks, the
    mempool, the peer table, the state database and the AMQ filter.
  \<^item> \<open>Go_Float\<close>: \<open>float64\<close> as rationals rounded to nearest even after every operation, infinities and NaN;
    no fused operations, as on amd64.
  \<^item> \<open>Core_Types\<close>, \<open>Core_Chain\<close> (\<open>core/\<close>): blocks and their hashed bytes; validation, the orphan pool, the
    mutual recursion of \<open>addBlock\<close> and \<open>processOrphanBlocks\<close> and its specification as a fold over the
    chain of orphans, reachable chains and their index invariant.
  \<^item> \<open>Crypto_Accumulator\<close>, \<open>Crypto_ZKP\<close>, \<open>Crypto_Utils\<close>, \<open>Crypto_VRF\<close> (\<open>crypto/\<close>): the accumulator modulo
    257, the proof system over a fixed small group, signatures, commitments and the AMQ filter, the VRF.
  \<^item> \<open>Merkle_Tree\<close>, \<open>Merkle_Proof\<close>, \<open>Shard_Tree\<close>, \<open>Merkle_Forest\<close> (\<open>merkle/\<close>): trees of pointer-linked
    heap cells and their refinement of a functional root, proofs and their compression, the shard
    hierarchy, the rebalancer and the forest with its reachable states.
  \<^item> \<open>State_Store\<close>, \<open>State_Manager\<close> (\<open>state/\<close>): database, compression, archive, pruning; transactions,
    supply and nonces, roots, \<open>UpdateState\<close>.
  \<^item> \<open>Consensus_Byzantine\<close>, \<open>Hybrid_Consensus\<close> (\<open>consensus/\<close>): scores, bans, thresholds and the reputation
    counter; leader selection, messages, prepared and committed blocks.
  \<^item> \<open>Conflict_Resolver\<close>, \<open>CAP_Orchestrator\<close> (\<open>cap/\<close>): vector clocks and conflicting states; the CAP profile
    and its step relation.
  \<^item> \<open>Network_Pool\<close>, \<open>Network_Node\<close>, \<open>Node_Invariant\<close> (\<open>network/\<close>): mempool, peer-to-peer network and
    synchronization manager; the node, one definition per handler, and its runs with atomic handlers
    (\<open>node_step\<close>, \<open>node_run\<close>); the invariants of the components inside a run.
  \<^item> \<open>Node_Threads\<close> (\<open>main.go\<close>, the loops of \<open>network/\<close>, \<open>consensus/\<close> and \<open>cap/\<close>): the goroutines, each a
    \<open>thread\<close> that stands between two critical sections, their steps, and the process \<open>main\<close> creates as the
    interleaving of all of them (\<open>sys_step\<close>, \<open>sys_run\<close>); how a goroutine ends the process (\<open>sys_crash\<close>): a
    panic, or the abort of the runtime when the range over \<open>peers\<close> in \<open>sync.go\<close>, which takes no lock and
    is therefore one step for each entry, meets a write of that map; the locale \<open>process_invariant\<close>, by
    which most invariants of the process are proved.
  \<^item> \<open>Node_Interleaving\<close>, \<open>Node_Lifecycle\<close>: its interpretations. Components stay well formed, nothing is
    confirmed, peers and their goroutines belong together; what never happens, how starting and stopping
    go, where a crash comes from, which listeners a stop leaves behind.
  \<^item> \<open>Node_Serving\<close>: the chain only grows, and what is sent is stored.
  \<^item> \<open>Node_Solo\<close>: a handler's goroutine that runs without interruption computes the atomic handler.
  This theory states what spans components.

  Correspondence. A struct is a record whose fields keep the names of the source behind a prefix, a
  method is a function of the same name (prefixed where several types share it) that returns the new
  state and, where it can fail, a result: \<open>Ok\<close>, \<open>Fail\<close> for an error, \<open>Panic\<close> for a nil dereference, an
  index out of range, a failed conversion or the close of a closed channel. Integers are words of the
  source's width, \<open>int64\<close> read by \<open>sint\<close>; \<open>time.Time\<close> is a number of nanoseconds; every \<open>time.Now()\<close> is an
  argument. Pointers that matter are indices into a list. Every method that takes a mutex for its whole
  body is one atomic step. A handler of the node, which takes several locks one after the other, exists
  twice: as one function in \<open>Network_Node\<close>, and in \<open>Node_Threads\<close> as steps from one critical section, read
  of shared state, write to a connection or wait to the next, where \<open>go f(x)\<close> adds a thread, a panic
  ends the process (nothing recovers) and \<open>log.Fatalf\<close> exits.

  Parameters, each with its documented behaviour as a hypothesis where a theorem needs one: SHA-256
  (any function), ECDSA, the elliptic curve and its modular square roots, JSON and gzip codecs, sorting
  (\<open>sort.Slice\<close>), the order of each range over a map, the clock, random bytes, results of
  network calls (\<open>Accept\<close> fails on a closed listener: \<open>net_ok\<close>). \<open>json.Marshal\<close> is written out where its failure is fixed by the types.

  Termination. All loops over data are structural or have a measure. Three may not end and are
  partial functions into \<open>option\<close>: the climb in a Merkle tree (ends on every tree \<open>AddLeaf\<close> builds), the
  search for a curve point (ends as soon as the curve has a point) and the loop of
  \<open>handleGetBlocks\<close> (ends below the largest height, and runs for ever there).

  Not modelled: printing and logging; \<open>receiveMessage\<close> and the other library calls on sockets (decoders
  and encoders, whose results are arguments); torn reads and writes of single variables that no lock
  orders, such as \<open>LastSeen\<close>: each is one step here; exhausted memory; declared types and
  constructors without fields or uses (\<open>ConsistencyModel\<close>, \<open>AvailabilityManager\<close>, \<open>PartitionDetector\<close>,
  \<open>DefenseStrategy\<close>, \<open>StateProof\<close>, \<open>ConsensusConfig\<close>).
\<close>

section \<open>Properties of the whole node\<close>

text \<open>
  The components keep their promises inside the node. In every state that a new node over a new
  chain, forest and consensus engine reaches, through any messages, connections, ticks, submissions,
  forest operations, starts and stops, the chain is one that \<open>AddBlock\<close> calls produce and the forest
  one that forest operations produce, every prepared or committed block sits under its own hash, and the
  mempool holds at most 10000 transactions, each under its ID.
\<close>

theorem node_invariant:
  assumes "node_run sha (NewNode config (NewBlockchain sha t) (NewAdaptiveMerkleForest t')
      (NewHybridConsensus oracle) sm) n"
  shows "reachable_chain sha (nd_blockchain n) \<and> forest_reachable sha (nd_merkleForest n) \<and>
    (\<forall>h pb. preparedBlock (nd_consensus n) h = Some pb \<longrightarrow> h = header_hash sha (blk_Header (pb_Block pb))) \<and>
    (\<forall>h cb. committedBlock (nd_consensus n) h = Some cb \<longrightarrow> h = header_hash sha (blk_Header (cb_Block cb))) \<and>
    int (fmlen (mp_transactions (nd_mempool n))) \<le> 10000 \<and>
    (\<forall>h tx. pooled (nd_mempool n) h = Some tx \<longrightarrow> tx_ID tx = h)"
proof -
  from well_formed_run [OF assms well_formed_new] show ?thesis
    unfolding well_formed_def hc_ok_def pool_ok_def block_key_def by fastforce
qed

theorem node_invariant_witness:
  "reachable_chain height_digest (nd_blockchain (handleNewConnection demo_node_env 3 demo_version demo_node))"
proof -
  have "node_run height_digest demo_node (handleNewConnection demo_node_env 3 demo_version demo_node)"
    by (rule node_run.step [OF node_run.refl node_step.accept]) (simp add: demo_node_env_def)
  from node_invariant [OF this [unfolded demo_node_def demo_hc_def]] show ?thesis
    by (simp add: demo_node_def demo_hc_def)
qed

text \<open>
  C10: a block that the chain accepts from a peer's message stays in the chain, but the state never
  follows: when some transaction of the block does not apply, the error is dropped and chain and
  state have parted; when all apply, as in a block without transactions, the handler panics, and since
  nothing recovers from it the process ends.
\<close>

theorem accepted_block_splits_or_crashes:
  fixes env p msg n b
  defines "h \<equiv> header_hash (ne_sha env) (blk_Header b)"
    and "applied \<equiv> applyTransactions (blk_Transactions b) (copyState (sm_currentState (nd_stateManager n)))"
  assumes "msg_Type msg = ''block''" and "ne_block env (msg_Payload msg) = Ok b"
    and "snd (AddBlock (ne_sha env) (Unix (ne_now env)) b (nd_blockchain n)) = Ok ()"
  shows "\<exists>n'. handlePeer env p (Ok msg) n = Some (n', if is_Ok applied then Panic SliceToArray else Ok ()) \<and>
    (\<exists>b'. GetBlock h (nd_blockchain n') = Ok b') \<and>
    nd_stateManager n' = nd_stateManager n \<and> nd_mempool n' = nd_mempool n \<and> nd_sent n' = nd_sent n"
proof -
  let ?m = "set_peer p ((peer_at n p)\<lparr>pr_LastSeen := ne_now env\<rparr>) n"
  have parts: "nd_blockchain ?m = nd_blockchain n" "nd_stateManager ?m = nd_stateManager n"
      "nd_mempool ?m = nd_mempool n" "nd_sent ?m = nd_sent n" by (simp_all add: set_peer_def)
  obtain bc where bc: "AddBlock (ne_sha env) (Unix (ne_now env)) b (nd_blockchain n) = (bc, Ok ())"
    using assms(5) by (metis prod.collapse)
  let ?n = "?m\<lparr>nd_blockchain := bc\<rparr>"
  obtain r where r: "ProcessBlock env b ?m = (?n, r)" "drop_error r = (if is_Ok applied then Panic SliceToArray else Ok ())"
    using applyTransactions_no_panic [of "blk_Transactions b" "copyState (sm_currentState (nd_stateManager n))"]
    by (cases applied) (simp_all add: ProcessBlock_eq parts bc applied_def)
  then have "handlePeer env p (Ok msg) n = Some (?n, if is_Ok applied then Panic SliceToArray else Ok ())"
    by (simp add: handlePeer_def handleMessage_def assms(3,4) decoded_def)
  then show ?thesis
    using AddBlock_stores [OF bc] parts by (simp add: h_def)
qed

definition demo_block_env :: node_env where
  "demo_block_env = demo_node_env\<lparr>ne_block := \<lambda>_. Ok (demo_block 1 1 0)\<rparr>"

theorem accepted_block_splits_or_crashes_witness:
  "\<exists>n'. handlePeer demo_block_env 0 (Ok \<lparr>msg_Type = ''block'', msg_Payload = []\<rparr>) demo_node =
     Some (n', Panic SliceToArray) \<and> (\<exists>b'. GetBlock 1 (nd_blockchain n') = Ok b')"
proof -
  have "snd (AddBlock (ne_sha demo_block_env) (Unix (ne_now demo_block_env)) (demo_block 1 1 0)
      (nd_blockchain demo_node)) = Ok ()"
    by (simp add: AddBlock_def validateBlock_def validateBlockHeader_def demo_defs demo_block_env_def
        demo_node_env_def demo_node_def NewNode_def Unix_def)
  moreover have "ne_block demo_block_env [] = Ok (demo_block 1 1 0)" "ne_sha demo_block_env = height_digest"
    by (simp_all add: demo_block_env_def demo_node_env_def)
  moreover have "header_hash height_digest (blk_Header (demo_block 1 1 0)) = 1"
    "blk_Transactions (demo_block 1 1 0) = []" by (simp_all add: demo_block_def)
  ultimately show ?thesis
    using accepted_block_splits_or_crashes [of "\<lparr>msg_Type = ''block'', msg_Payload = []\<rparr>" demo_block_env
        "demo_block 1 1 0" demo_node 0] by auto
qed

text \<open>
  What a node in a run serves is what it stores: below the largest height, a request for blocks is
  answered with one message to the asking peer that holds no nil block, and each block in it can
  be fetched from the chain under its own hash.
\<close>

theorem served_blocks_are_stored:
  assumes "node_run sha (NewNode config (NewBlockchain sha t) (NewAdaptiveMerkleForest t')
      (NewHybridConsensus oracle) sm) n"
    and "ne_getblocks env payload = Ok request" and "gb_ToHeight request < - 1"
  shows "\<exists>bs. handleGetBlocks env p payload n = Some (n\<lparr>nd_sent := nd_sent n @
        [(pr_Connection (peer_at n p), PBlocks (map Some bs))]\<rparr>,
      ne_send env (pr_Connection (peer_at n p)) (PBlocks (map Some bs))) \<and>
    (\<forall>b \<in> set bs. GetBlock (header_hash sha (blk_Header b)) (nd_blockchain n) = Ok b)"
proof -
  let ?bc = "nd_blockchain n"
  let ?m = "min (gb_ToHeight request) (GetCurrentHeight ?bc)"
  let ?l = "concat (map (blocks_at ?bc) [unat (gb_FromHeight request)..<Suc (unat ?m)])"
  have inv: "chain_inv sha ?bc"
    using well_formed_run [OF assms(1) well_formed_new] by (simp add: well_formed_def reachable_chain_inv)
  have "?m < - 1" using assms(3) by (rule min.strict_coboundedI1)
  then have get: "handleGetBlocks env p payload n = Some (sendMessage env p (PBlocks ?l) n)"
    by (simp only: handleGetBlocks_def assms(2) res.case get_blocks_ends option.map append_Nil)
  have "\<forall>r \<in> set ?l. \<exists>b. r = Some b \<and> GetBlock (header_hash sha (blk_Header b)) ?bc = Ok b"
    using blocks_at_stored [OF inv] by (simp only: set_concat set_map) blast
  from all_Some [OF this] obtain bs where bs: "?l = map Some bs"
      "\<forall>b \<in> set bs. GetBlock (header_hash sha (blk_Header b)) ?bc = Ok b" by blast
  show ?thesis
    unfolding get bs(1) using bs(2) by (intro exI conjI) (simp_all add: sendMessage_def Let_def)
qed

theorem served_blocks_are_stored_witness:
  "\<exists>bs r. handleGetBlocks demo_node_env 0 [] demo_node = Some (demo_node\<lparr>nd_sent := nd_sent demo_node @
      [(pr_Connection (peer_at demo_node 0), PBlocks (map Some bs))]\<rparr>, r)"
proof -
  have "ne_getblocks demo_node_env [] = Ok \<lparr>gb_FromHeight = 0, gb_ToHeight = 7\<rparr>"
    by (simp add: demo_node_env_def)
  moreover have "node_run height_digest (NewNode (DefaultConfig []) (NewBlockchain height_digest 0)
      (NewAdaptiveMerkleForest 0) (NewHybridConsensus \<lparr>vrf_D = 1, vrf_publicKey = (1, 1)\<rparr>) (NewStateManager 0)) demo_node"
    by (simp add: demo_node_def demo_hc_def node_run.refl)
  moreover have "(7 :: u64) < - 1" by (simp add: word_less_nat_alt unsigned_minus_1_eq_mask mask_eq_exp_minus_1)
  ultimately show ?thesis
    using served_blocks_are_stored [of height_digest _ 0 0 _ _ demo_node demo_node_env "[]"] by fastforce
qed

section \<open>A run of the process\<close>

text \<open>
  The process used in the witnesses: created by \<open>createNode\<close>, started by \<open>main\<close>, with one peer that went
  through the handshake.
\<close>

definition demo_curve :: ec_curve where
  "demo_curve = \<lparr>ec_P = 7, ec_N = 5, ec_B = 1, ec_ScalarMult = \<lambda>p _. Ok p, ec_ScalarBaseMult = \<lambda>_. (1, 1),
     ec_ModSqrt = \<lambda>_ _. Some 1\<rparr>"

definition demo_new :: node where
  "demo_new = createNode height_digest demo_curve [] 1 0"

definition demo_process_env :: node_env where
  "demo_process_env = demo_block_env\<lparr>ne_forest_order := \<lambda>_. [(0, new_shard 0 (Fin 0) 0 0)],
     ne_shard_orders := \<lambda>_. [(0, new_shard 0 (Fin 0) 0 0)]\<rparr>"

definition demo_io :: "net_message res \<Rightarrow> io" where
  "demo_io received = \<lparr>io_tick = True, io_conn = Ok 9, io_message = received, io_signal = True,
     io_curve = demo_curve, io_random = 1, io_validators = \<lambda>_. [], io_created = []\<rparr>"

text \<open>The same, when no connection comes.\<close>

definition silent_io :: "net_message res \<Rightarrow> io" where
  "silent_io received = (demo_io received)\<lparr>io_conn := Fail (ErrorString ''use of closed network connection'')\<rparr>"

lemma silent_io_simps [simp]:
  "io_tick (silent_io received)" "\<not> is_Ok (io_conn (silent_io received))" "io_message (silent_io received) = received"
  "io_signal (silent_io received)" "listeners_open (silent_io received) n ts"
  by (simp_all add: silent_io_def demo_io_def listeners_open_def)

definition demo_started :: node where
  "demo_started = demo_new\<lparr>nd_running := True, nd_p2pNetwork := p2p_Start 9 (nd_p2pNetwork demo_new)\<rparr>"

definition demo_threads :: "thread list" where
  "demo_threads = engine_threads @ [TSyncStart]"

definition demo_met :: node where
  "demo_met = handleNewConnection demo_process_env 9 demo_version demo_started"

lemma demo_env_ok: "ne_sha demo_process_env = height_digest" "orders_ok demo_process_env 0"
    "library_ok demo_process_env inp"
proof -
  let ?s = "new_shard 0 (Fin 0) 0 0"
  have "mf_shards (NewAdaptiveMerkleForest 0) = fmupd 0 ?s fmempty"
    by (simp add: NewAdaptiveMerkleForest_def initializeRootShard_def)
  moreover have "range_order [(0, ?s)] (fmupd 0 ?s fmempty)" by (simp add: range_order_def fmap_ext)
  ultimately show "orders_ok demo_process_env 0"
    by (simp add: orders_ok_def forest_orders_def demo_process_env_def demo_block_env_def demo_node_env_def
        range_order_key_sorted)
  show "ne_sha demo_process_env = height_digest" "library_ok demo_process_env inp"
    by (simp_all add: demo_process_env_def demo_block_env_def demo_node_env_def library_ok_def)
qed

lemma demo_start_run:
  "sys_run height_digest open_api (demo_new, [TStart True]) (demo_started, demo_threads @ [TAccept 9, TMain, TWait])"
  "idle 0 demo_started"
proof -
  let ?inp = "demo_io demo_version" and ?r = "demo_new\<lparr>nd_running := True\<rparr>"
  have new: "nd_running demo_new = False" "nc_BootstrapPeers (nd_config demo_new) = []"
    by (simp_all add: demo_new_def createNode_def Let_def NewNode_def DefaultConfig_def)
  have turn: "thread_step demo_process_env ?inp (TStart True) demo_new = Next ?r [TListen True]"
    "thread_step demo_process_env ?inp (TListen True) ?r = Next demo_started (demo_threads @ [TAccept 9, TMain, TWait])"
    by (simp_all add: lifecycle_defs new demo_io_def demo_started_def demo_threads_def engine_threads_def Let_def connectToBootstrapPeers_def)
  have idle: "idle 0 demo_new" by (simp add: demo_new_def createNode_idle)
  have orders: "env_orders demo_process_env demo_new" by (rule env_orders_idle [OF idle demo_env_ok(2)])
  have idle': "idle 0 ?r" by (rule idle_thread [OF turn(1) idle orders])
  have orders': "env_orders demo_process_env ?r" by (rule env_orders_idle [OF idle' demo_env_ok(2)])
  have "sys_step height_digest open_api (demo_new, [] @ TStart True # []) (?r, [] @ [TListen True] @ [])"
    by (rule sys_step.run [OF demo_env_ok(1) orders turn(1)]) (simp add: net_ok_def)
  moreover have "sys_step height_digest open_api (?r, [] @ TListen True # [])
      (demo_started, [] @ (demo_threads @ [TAccept 9, TMain, TWait]) @ [])"
    by (rule sys_step.run [OF demo_env_ok(1) orders' turn(2)]) (simp add: net_ok_def)
  ultimately show "sys_run height_digest open_api (demo_new, [TStart True])
      (demo_started, demo_threads @ [TAccept 9, TMain, TWait])"
    by (auto intro: sys_run.step [OF sys_run.step [OF sys_run.refl]])
  show "idle 0 demo_started" by (rule idle_thread [OF turn(2) idle' orders'])
qed

lemma demo_meet_run:
  "sys_run height_digest open_api (demo_new, [TStart True])
     (demo_met, demo_threads @ [TAccept 9, TPeer 0, TMain, TWait])"
  "idle 0 demo_met"
proof -
  let ?inp = "demo_io demo_version"
  have new: "nd_stopClosed demo_started = False" "p2p_closed (nd_p2pNetwork demo_started) = []" "nd_heap demo_started = []" "nd_config demo_started = DefaultConfig []"
    by (simp_all add: demo_started_def demo_new_def createNode_def Let_def NewNode_def NewP2PNetwork_def p2p_Start_def)
  then have "listeners_open ?inp demo_started [TAccept 9]" by (simp add: listeners_open_def)
  note open_listener = this
  have turn: "thread_step demo_process_env ?inp (TAccept 9) demo_started = Next demo_started [TAccepting 9]"
    by (simp add: accept_loop_def new)
  have "served demo_process_env \<lparr>pr_ID = '''', pr_Address = '''', pr_Connection = 9, pr_Version = 0,
      pr_LastSeen = 0, pr_ReputationScore = Fin 0\<rparr> demo_version demo_started = [TPeer 0]"
    by (simp add: served_def handshake_defs sendMessage_def Let_def new demo_version_def demo_process_env_def
        demo_block_env_def demo_node_env_def DefaultConfig_def)
  with connection_run(1) [of ?inp demo_version 9 demo_process_env demo_started 9]
  have "own_run demo_process_env ?inp (demo_started, [TAccepting 9]) (demo_met, [TAccept 9, TPeer 0])"
    by (simp add: demo_io_def demo_met_def) (simp add: demo_process_env_def demo_block_env_def demo_node_env_def)
  from own_run_process [OF own_run_step [OF turn this] demo_env_ok(1,2) demo_start_run(2), of open_api _ demo_threads "[TMain, TWait]"]
    demo_start_run(1) open_listener
  show "sys_run height_digest open_api (demo_new, [TStart True]) (demo_met, demo_threads @ [TAccept 9, TPeer 0, TMain, TWait])"
    "idle 0 demo_met" by auto
qed

section \<open>Every interleaving\<close>

text \<open>
  C3: the components keep their promises in every interleaving of the goroutines of a process that \<open>main\<close>
  created and started, with any messages, connections, clocks and orders of map ranges, and any further
  calls of the exported methods. The chain is one that \<open>AddBlock\<close> calls produce, every prepared or
  committed block sits under its own hash, and the mempool holds at most 10000 transactions, each
  under its ID.
\<close>

theorem interleaved_invariant:
  assumes "sys_run sha open_api (createNode sha curve random d now, [TStart True]) (n, ts)"
  shows "reachable_chain sha (nd_blockchain n) \<and> chain_inv sha (nd_blockchain n) \<and>
    (\<forall>h pb. preparedBlock (nd_consensus n) h = Some pb \<longrightarrow> h = header_hash sha (blk_Header (pb_Block pb))) \<and>
    (\<forall>h cb. committedBlock (nd_consensus n) h = Some cb \<longrightarrow> h = header_hash sha (blk_Header (cb_Block cb))) \<and>
    int (fmlen (mp_transactions (nd_mempool n))) \<le> 10000 \<and>
    (\<forall>h tx. pooled (nd_mempool n) h = Some tx \<longrightarrow> tx_ID tx = h)"
proof -
  from run_well_formed [OF assms createNode_new(1)] have "well_formed sha n" .
  then show ?thesis
    unfolding well_formed_def hc_ok_def pool_ok_def block_key_def using reachable_chain_inv by fastforce
qed

theorem interleaved_invariant_witness:
  "reachable_chain height_digest (nd_blockchain demo_met) \<and> chain_inv height_digest (nd_blockchain demo_met)"
  using interleaved_invariant [OF demo_meet_run(1) [where open_api = True, unfolded demo_new_def]] by blast

text \<open>
  C20: a node confirms nothing in any interleaving, whatever chain, forest, consensus engine and state manager
  it was built from: the state manager stays as it was, a transaction once pooled stays pooled for ever, and
  no goroutine ever gets past \<open>UpdateState\<close>, to removing the transactions of a block from the mempool or
  to broadcasting a block.
\<close>

theorem nothing_confirmed_in_any_interleaving:
  assumes "sys_run sha open_api (NewNode config chain forest cons sm, [TStart main]) (n, ts)"
    and "sys_run sha open_api (n, ts) (n', ts')"
  shows "nd_stateManager n' = sm \<and>
    (\<forall>h. pooled (nd_mempool n) h \<noteq> None \<longrightarrow> pooled (nd_mempool n') h \<noteq> None) \<and>
    (\<forall>txs b k. TJob (JForget txs b) k \<notin> set ts' \<and> TJob (JCastBlock b) k \<notin> set ts')"
proof -
  have sm: "nd_stateManager (NewNode config chain forest cons sm) = sm" by (simp add: NewNode_def)
  from run_kept [OF assms(1)] have k: "kept (NewNode config chain forest cons sm) n" "\<forall>t \<in> set ts. \<not> confirming t"
    by simp_all
  from run_kept [OF assms(2) k(2)] have k': "kept n n'" "\<forall>t \<in> set ts'. \<not> confirming t" by simp_all
  have "TJob (JForget txs b) k \<notin> set ts' \<and> TJob (JCastBlock b) k \<notin> set ts'" for txs b k
    using k'(2) confirming.simps(1,2) by blast
  with k k' sm show ?thesis by (simp add: kept_def)
qed

theorem nothing_confirmed_in_any_interleaving_witness:
  "nd_stateManager demo_met = NewStateManager 0"
  using nothing_confirmed_in_any_interleaving
    [OF demo_meet_run(1) [where open_api = True, unfolded demo_new_def createNode_def Let_def] sys_run.refl] by blast

text \<open>
  C12: the node that \<open>main\<close> creates never accepts a transaction. Its state manager has no accounts and never
  changes, so in every interleaving the mempool is empty, every transaction from a peer or a caller is
  refused because its sender is unknown, and no goroutine ever adds, broadcasts or builds anything from
  transactions. Blocks of the consensus rounds do not come from the mempool: they are empty (C21).
\<close>

theorem no_transaction_is_ever_accepted:
  assumes "sys_run sha open_api (createNode sha curve random d now, [TStart True]) (n, ts)"
  shows "nd_mempool n = NewMempool 10000 \<and>
    (\<forall>env tx. ProcessTransaction env tx n = (n, Fail (ErrorString ''sender account not found''))) \<and>
    (\<forall>tx k txs. TJob (JPool tx) k \<notin> set ts \<and> TJob (JCastTx tx) k \<notin> set ts \<and> TBuild txs \<notin> set ts)"
proof -
  from run_barren [OF assms createNode_barren] have b: "barren now n" "\<forall>t \<in> set ts. \<not> advancing t" by simp_all
  have "TJob (JPool tx) k \<notin> set ts \<and> TJob (JCastTx tx) k \<notin> set ts \<and> TBuild txs \<notin> set ts" for tx k txs
    using b(2) advancing.simps(3,4,5) by blast
  with b(1) validate_barren [OF b(1)] show ?thesis by (simp add: barren_def ProcessTransaction_def)
qed

theorem no_transaction_is_ever_accepted_witness:
  "nd_mempool demo_met = NewMempool 10000 \<and>
   ProcessTransaction demo_process_env (demo_tx 5) demo_met =
     (demo_met, Fail (ErrorString ''sender account not found''))"
  using no_transaction_is_ever_accepted [OF demo_meet_run(1) [where open_api = True, unfolded demo_new_def]] by blast

text \<open>
  C13: in every interleaving each goroutine that holds a peer points to an allocated one, and every entry of
  the peer table belongs to a peer that claims the ID of the entry and that exactly one goroutine
  serves: one that greeted it, put it into the table and now reads and handles its messages.
\<close>

theorem every_peer_served_once:
  assumes "sys_run sha open_api (createNode sha curve random d now, [TStart True]) (n, ts)"
  shows "(\<forall>t p. t \<in> set ts \<longrightarrow> p \<in> set (pointers t) \<longrightarrow> p < length (nd_heap n)) \<and>
    (\<forall>i p. fmlookup (nd_peers n) i = Some p \<longrightarrow> p < length (nd_heap n) \<and> pr_ID (nd_heap n ! p) = i \<and>
      (\<exists>us t vs. ts = us @ t # vs \<and> serving t = [p] \<and> (\<forall>t' \<in> set (us @ vs). p \<notin> set (owner t'))))"
proof -
  have "peers_inv n ts"
    by (rule run_peers_inv [OF assms]) (simp add: peers_inv_def table_ok_def createNode_new)
  note inv = this [unfolded peers_inv_def]
  have one: "\<exists>us t vs. ts = us @ t # vs \<and> serving t = [p] \<and> (\<forall>t' \<in> set (us @ vs). p \<notin> set (owner t'))"
    if p: "p \<in> set (servers ts)" for p
  proof -
    from p obtain t where t: "t \<in> set ts" "p \<in> set (serving t)" by (auto simp: servers_def)
    then obtain us vs where ts: "ts = us @ t # vs" by (auto dest: split_list)
    have "serving t = [p]" by (rule serving_single [OF t(2)])
    moreover have "p \<notin> set (owner t')" if "t' \<in> set (us @ vs)" for t'
      using inv that serving_owner [OF t(2)] by (auto simp: ts owners_def)
    ultimately show ?thesis using ts by blast
  qed
  with inv show ?thesis by (auto simp: table_ok_def peer_at_def)
qed

theorem every_peer_served_once_witness:
  "pr_ID (nd_heap demo_met ! 0) = ''peer''"
proof -
  have "fmlookup (nd_peers demo_met) ''peer'' = Some 0"
    by (simp add: demo_met_def handleNewConnection_def greet_peer_def handshake_defs sendMessage_def Let_def peer_at_def
        set_peer_def demo_started_def demo_new_def createNode_def NewNode_def demo_version_def demo_process_env_def
        demo_block_env_def demo_node_env_def DefaultConfig_def)
  with every_peer_served_once [OF demo_meet_run(1) [where open_api = True, unfolded demo_new_def]] show ?thesis by blast
qed

text \<open>
  C32: the chain of a process only grows, and what it sends is its chain. In every interleaving no stored
  hash disappears and the current height never goes down; and every block that was written to a
  connection, as an answer to a request or in a broadcast, is not nil and has its hash in the chain.
\<close>

theorem chain_grows_and_is_served:
  assumes "sys_run sha open_api (NewNode config (NewBlockchain sha t) (NewAdaptiveMerkleForest t')
      (NewHybridConsensus oracle) sm, [TStart main]) (n, ts)"
    and "sys_run sha open_api (n, ts) (n', ts')"
  shows "GetCurrentHeight (nd_blockchain n) \<le> GetCurrentHeight (nd_blockchain n') \<and>
    (\<forall>h. is_Ok (GetBlock h (nd_blockchain n)) \<longrightarrow> is_Ok (GetBlock h (nd_blockchain n'))) \<and>
    (\<forall>c bs. (c, PBlocks bs) \<in> set (nd_sent n) \<longrightarrow> (\<forall>x \<in> set bs. \<exists>b. x = Some b \<and>
       is_Ok (GetBlock (header_hash sha (blk_Header b)) (nd_blockchain n)))) \<and>
    (\<forall>c b. (c, PBlock b) \<in> set (nd_sent n) \<longrightarrow> is_Ok (GetBlock (header_hash sha (blk_Header b)) (nd_blockchain n)))"
proof -
  have wf: "well_formed sha n" by (rule run_well_formed [OF assms(1) well_formed_new])
  have le: "chain_le n n'" using growing.run [OF assms(2), of n] wf chain_le_refl by simp
  have serve: "serve_inv sha n ts"
    by (rule run_serve_inv [OF assms(1) well_formed_new]) (simp add: serve_inv_def NewNode_def)
  have sent: "stored sha n x" if "(c, payload) \<in> set (nd_sent n)" "x \<in> set (payload_blocks payload)" for c payload x
    using that serve by (fastforce simp: serve_inv_def)
  have ok: "is_Ok (GetBlock h bc) \<longleftrightarrow> fmlookup (bc_blocks bc) h \<noteq> None" for h bc
    by (simp add: GetBlock_def split: option.split)
  show ?thesis
    using le sent [where payload = "PBlocks _"] sent [where payload = "PBlock _"]
    by (simp add: chain_le_def ok GetCurrentHeight_def stored_def)
qed

definition demo_request :: net_message where
  "demo_request = \<lparr>msg_Type = ''getblocks'', msg_Payload = []\<rparr>"

lemma demo_chain: "nd_blockchain demo_met = NewBlockchain height_digest 0" "pr_Connection (peer_at demo_met 0) = 9"
  "0 < length (nd_heap demo_met)"
  by (simp_all add: demo_met_def handleNewConnection_def greet_peer_def handshake_defs sendMessage_def Let_def peer_at_def
      set_peer_def demo_started_def demo_new_def createNode_def NewNode_def demo_version_def demo_process_env_def
      demo_block_env_def demo_node_env_def DefaultConfig_def Unix_def)

text \<open>The peer asks for the blocks from 0 to 7 and gets the genesis block.\<close>

lemma demo_serve_run:
  "\<exists>n. sys_run height_digest open_api (demo_new, [TStart True])
      (n, demo_threads @ [TAccept 9, TPeer 0, TMain, TWait]) \<and>
    (9, PBlocks [Some (genesisBlock height_digest 0)]) \<in> set (nd_sent n)"
proof -
  let ?bc = "NewBlockchain height_digest 0" and ?g = "genesisBlock height_digest 0"
    and ?inp = "silent_io (Ok demo_request)"
    and ?m = "set_peer 0 ((peer_at demo_met 0)\<lparr>pr_LastSeen := ne_now demo_process_env\<rparr>) demo_met"
  have bc: "GetCurrentHeight ?bc = 0" "GetBlockByHeight 0 ?bc = Ok (Some ?g)"
    by (simp_all add: NewBlockchain_eq Let_def GetCurrentHeight_def GetBlockByHeight_def)
  have "get_blocks ?bc 7 0 [] = Some [Some ?g]"
    by (subst get_blocks.simps, subst get_blocks.simps) (simp add: bc)
  moreover have "ne_getblocks demo_process_env [] = Ok \<lparr>gb_FromHeight = 0, gb_ToHeight = 7\<rparr>"
    "ne_send demo_process_env c payload = Ok ()" for c payload
    by (simp_all add: demo_process_env_def demo_block_env_def demo_node_env_def)
  moreover have "nd_blockchain ?m = ?bc" "pr_Connection (peer_at ?m 0) = 9"
    using demo_chain by (simp_all add: set_peer_def peer_at_def)
  ultimately have h: "handlePeer demo_process_env 0 (Ok demo_request) demo_met =
      Some (?m\<lparr>nd_sent := nd_sent ?m @ [(9, PBlocks [Some ?g])]\<rparr>, Ok ())"
    by (simp add: handlePeer_def handleMessage_def demo_request_def handleGetBlocks_def sendMessage_def Let_def)
  let ?n = "?m\<lparr>nd_sent := nd_sent ?m @ [(9, PBlocks [Some ?g])]\<rparr>"
  have "own_votes demo_met ?n = []" by (simp add: own_votes_def set_peer_def)
  with handlePeer_run [OF h, of ?inp] have "own_run demo_process_env ?inp (demo_met, [TPeer 0]) (?n, [TPeer 0])"
    by (simp add: ends_def)
  from own_run_process [OF this demo_env_ok(1,2) demo_meet_run(2), of open_api _ "demo_threads @ [TAccept 9]" "[TMain, TWait]"]
    demo_meet_run(1) [of open_api]
  have "sys_run height_digest open_api (demo_new, [TStart True]) (?n, demo_threads @ [TAccept 9, TPeer 0, TMain, TWait])"
    by auto
  then show ?thesis by (intro exI [of _ ?n]) simp
qed

theorem chain_grows_and_is_served_witness:
  "is_Ok (GetBlock (header_hash height_digest (blk_Header (genesisBlock height_digest 0))) (NewBlockchain height_digest 0)) \<and>
   (\<exists>n :: node. (9, PBlocks [Some (genesisBlock height_digest 0)]) \<in> set (nd_sent n) \<and>
     is_Ok (GetBlock (header_hash height_digest (blk_Header (genesisBlock height_digest 0))) (nd_blockchain n)))"
proof -
  let ?h = "header_hash height_digest (blk_Header (genesisBlock height_digest 0))"
  obtain n where n: "sys_run height_digest True (demo_new, [TStart True])
      (n, demo_threads @ [TAccept 9, TPeer 0, TMain, TWait])"
      "(9, PBlocks [Some (genesisBlock height_digest 0)]) \<in> set (nd_sent n)"
    using demo_serve_run [of True] by blast
  note new = demo_new_def createNode_def Let_def Unix_def
  have "is_Ok (GetBlock ?h (nd_blockchain n))"
    using chain_grows_and_is_served [OF n(1) [unfolded new] sys_run.refl] n(2) by fastforce
  moreover have "is_Ok (GetBlock ?h (NewBlockchain height_digest 0))"
    by (simp add: NewBlockchain_eq GetBlock_def Let_def)
  ultimately show ?thesis using n(2) by blast
qed

text \<open>
  C11: how the process can end other than by an exit of \<open>main\<close>. While only \<open>main\<close> starts and stops the node and
  the codecs and sockets do not panic, a goroutine that crashes is updating the state after an accepted
  block without transactions, or handles a proposal or commit of a peer whose bytes hold no block, or
  is in a consensus round whose curve operation panics, or ranges over the peers in \<open>synchronize\<close>,
  without the lock, while another goroutine inserts a peer, deletes one, or drops a silent one.
  Starting, stopping, connections, other messages, the rebalancing and the votes the node sends itself
  never crash. Exhausted memory is left out.
\<close>

theorem crash_sources:
  assumes "sys_run sha False (createNode sha curve random d now, [TStart True]) (n, ts)"
    and "env_orders env n" and "library_ok env inp" and "sys_crash env inp (n, ts) t c"
  shows "(\<exists>b k. t = TJob (JUpdate b) k \<and> blk_Transactions b = [] \<and> c = GoPanic SliceToArray) \<or>
    (\<exists>msg k. t = TJob (JConsensus msg) k \<and> blockless (ne_codec env) msg \<and> c = GoPanic NilDereference) \<or>
    (\<exists>q point scalar. t = TRound \<and> ec_ScalarMult (io_curve inp) point scalar = Panic q \<and> c = GoPanic q) \<or>
    (t = TIter \<or> (\<exists>r. t = TNext r)) \<and> c = MapRace \<and>
      ((\<exists>p. TInsert p \<in> set ts \<or> TDisconnect p \<in> set ts) \<or> TMain \<in> set ts \<and>
         (\<exists>i p. fmlookup (nd_peers n) i = Some p \<and> inactive (ne_now env) (peer_at n p)))"
  using assms(4)
proof cases
  case (panic q)
  have barren: "barren now n" using run_barren [OF assms(1) createNode_barren] by simp
  have flags: "flags_ok t (chans n)"
    using run_control_inv [OF assms(1) createNode_control] panic(3) by (simp add: control_inv_def)
  have idle: "idle now n" by (rule run_idle [OF assms(1) createNode_idle])
  have "votes_inv ts"
    by (rule run_votes_inv [OF assms(1) createNode_new(1)]) (simp add: votes_inv_def)
  then have votes: "t = TVote msg \<Longrightarrow> cm_Sender msg = 0" for msg using panic(3) by (auto simp: votes_inv_def)
  from thread_Crash [OF panic(2) assms(3) flags idle assms(2) votes] show ?thesis
    unfolding apply_barren [OF barren] panic(1) by blast
next
  case (race t')
  then have "t = TIter \<or> (\<exists>r. t = TNext r)" by (cases t) auto
  moreover have "(\<exists>p. t' = TInsert p \<or> t' = TDisconnect p) \<or> t' = TMain \<and>
      (\<exists>i p. fmlookup (nd_peers n) i = Some p \<and> inactive (ne_now env) (peer_at n p))"
    using table_writers [OF race(5)] assms(2) by (simp add: env_orders_def)
  ultimately show ?thesis using race by blast
qed

definition demo_block_message :: net_message where
  "demo_block_message = \<lparr>msg_Type = ''block'', msg_Payload = []\<rparr>"

definition demo_accepted :: node where
  "demo_accepted = (set_peer 0 ((peer_at demo_met 0)\<lparr>pr_LastSeen := 0\<rparr>) demo_met)
     \<lparr>nd_blockchain := fst (AddBlock height_digest 0 (demo_block 1 1 0) (nd_blockchain demo_met))\<rparr>"

lemma demo_accept_run:
  "sys_run height_digest open_api (demo_new, [TStart True])
     (demo_accepted, (demo_threads @ [TAccept 9]) @ TJob (JUpdate (demo_block 1 1 0)) (CPeer 0) # [TMain, TWait])"
  "idle 0 demo_accepted"
proof -
  let ?inp = "silent_io (Ok demo_block_message)" and ?b = "demo_block 1 1 0"
  let ?n = "set_peer 0 ((peer_at demo_met 0)\<lparr>pr_LastSeen := 0\<rparr>) demo_met"
  note chain = demo_chain(1)
  have env: "ne_now demo_process_env = 0" "ne_sha demo_process_env = height_digest" "ne_block demo_process_env [] = Ok ?b"
    by (simp_all add: demo_process_env_def demo_block_env_def demo_node_env_def)
  have "snd (AddBlock height_digest 0 ?b (NewBlockchain height_digest 0)) = Ok ()"
    by (simp add: AddBlock_def validateBlock_def validateBlockHeader_def demo_defs)
  then obtain bc where bc: "AddBlock height_digest 0 ?b (NewBlockchain height_digest 0) = (bc, Ok ())"
    by (metis prod.collapse)
  have turn: "thread_step demo_process_env ?inp (TPeer 0) demo_met = Next ?n [THandle 0 demo_block_message]"
    "thread_step demo_process_env ?inp (THandle 0 demo_block_message) ?n = Next ?n [TJob (JCheck ?b) (CPeer 0)]"
    "thread_step demo_process_env ?inp (TJob (JCheck ?b) (CPeer 0)) ?n = Next ?n [TJob (JAdd ?b) (CPeer 0)]"
    "thread_step demo_process_env ?inp (TJob (JAdd ?b) (CPeer 0)) ?n = Next demo_accepted [TJob (JUpdate ?b) (CPeer 0)]"
    by (simp_all add: peer_step_def env handle_step_def dispatch_def demo_block_message_def
        hc_ValidateBlock_eq demo_accepted_def chain bc Unix_def set_peer_def)
  have "own_run demo_process_env ?inp (demo_met, [TPeer 0]) (demo_accepted, [TJob (JUpdate ?b) (CPeer 0)])"
    by (rule own_run_step [OF turn(1) own_run_step [OF turn(2) own_run_step [OF turn(3) own_run_step [OF turn(4)]]]]) simp
  from own_run_process [OF this demo_env_ok(1,2) demo_meet_run(2), of open_api _ "demo_threads @ [TAccept 9]" "[TMain, TWait]"]
    demo_meet_run(1)
  show "sys_run height_digest open_api (demo_new, [TStart True])
      (demo_accepted, (demo_threads @ [TAccept 9]) @ TJob (JUpdate ?b) (CPeer 0) # [TMain, TWait])"
    "idle 0 demo_accepted" by auto
qed

theorem crash_sources_witness:
  "blk_Transactions (demo_block 1 1 0) = [] \<and>
   sys_crash demo_process_env (silent_io (Ok demo_block_message))
     (demo_accepted, (demo_threads @ [TAccept 9]) @ TJob (JUpdate (demo_block 1 1 0)) (CPeer 0) # [TMain, TWait])
     (TJob (JUpdate (demo_block 1 1 0)) (CPeer 0)) (GoPanic SliceToArray)"
proof -
  let ?t = "TJob (JUpdate (demo_block 1 1 0)) (CPeer 0)"
  have "blk_Transactions (demo_block 1 1 0) = []" by (simp add: demo_block_def)
  then have "thread_step demo_process_env (silent_io (Ok demo_block_message)) ?t demo_accepted = Crash SliceToArray"
    by (simp add: UpdateState_eq)
  then have c: "sys_crash demo_process_env (silent_io (Ok demo_block_message))
      (demo_accepted, (demo_threads @ [TAccept 9]) @ ?t # [TMain, TWait]) ?t (GoPanic SliceToArray)"
    by (rule sys_crash.panic) simp
  from crash_sources [OF demo_accept_run(1) [unfolded demo_new_def]
      env_orders_idle [OF demo_accept_run(2) demo_env_ok(2)] demo_env_ok(3) c] c
  show ?thesis by simp
qed

text \<open>
  The race is real: the synchronization goroutine gets to its range while the goroutine of a peer whose
  connection failed deletes the peer.
\<close>

lemma sync_range_races:
  "\<exists>n ts. sys_run height_digest False (demo_new, [TStart True]) (n, ts) \<and>
     sys_crash demo_process_env (silent_io (Fail e)) (n, ts) TIter MapRace"
proof -
  let ?inp = "silent_io (Fail e)"
  let ?s = "demo_met\<lparr>nd_syncManager := sync_Start (nd_syncManager demo_met)\<rparr>"
  let ?n = "?s\<lparr>nd_syncManager := (nd_syncManager ?s)\<lparr>sy_syncing := True\<rparr>\<rparr>"
  have idle: "\<not> sy_syncing (nd_syncManager ?s)"
    by (simp add: demo_met_def handleNewConnection_def greet_peer_def handshake_defs sendMessage_def Let_def peer_at_def
        set_peer_def demo_started_def demo_new_def createNode_def NewNode_def NewSyncManager_def sync_Start_def
        demo_version_def demo_process_env_def demo_block_env_def demo_node_env_def DefaultConfig_def)
  have turn: "thread_step demo_process_env ?inp TSyncStart demo_met = Next ?s [TSync]"
    "thread_step demo_process_env ?inp TSync ?s = Next ?s [TRange]"
    "thread_step demo_process_env ?inp TRange ?s = Next ?n [TIter]"
    "thread_step demo_process_env ?inp (TPeer 0) ?n = Next ?n [TDisconnect 0]"
    using idle by (simp_all add: sync_start_step_def loop_defs sync_range_def peer_step_def)
  have run: "own_run demo_process_env ?inp (demo_met, [TSyncStart]) (?n, [TIter])"
    by (rule own_run_step [OF turn(1) own_run_step [OF turn(2) own_run_step [OF turn(3)]]]) simp
  have "sys_run height_digest False (demo_new, [TStart True])
      (demo_met, engine_threads @ [TSyncStart] @ [TAccept 9, TPeer 0, TMain, TWait])"
    using demo_meet_run(1) by (simp add: demo_threads_def)
  from own_run_process [OF run demo_env_ok(1,2) demo_meet_run(2) this]
  have s: "sys_run height_digest False (demo_new, [TStart True])
      (?n, engine_threads @ [TIter] @ [TAccept 9, TPeer 0, TMain, TWait])" "idle 0 ?n" by simp_all
  have "own_run demo_process_env ?inp (?n, [TPeer 0]) (?n, [TDisconnect 0])"
    by (rule own_run_step [OF turn(4)]) simp
  from own_run_process [OF this demo_env_ok(1,2) s(2), of False _ "engine_threads @ [TIter, TAccept 9]" "[TMain, TWait]"] s(1)
  have "sys_run height_digest False (demo_new, [TStart True])
      (?n, engine_threads @ [TIter, TAccept 9, TDisconnect 0, TMain, TWait])" by simp
  moreover have "sys_crash demo_process_env ?inp (?n, engine_threads @ [TIter, TAccept 9, TDisconnect 0, TMain, TWait]) TIter MapRace"
    by (rule sys_crash.race [where t' = "TDisconnect 0"]) simp_all
  ultimately show ?thesis by blast
qed

text \<open>
  C18: when the signal arrives, the process shuts down: from every state of it in which \<open>main\<close> waits, with only
  \<open>main\<close> starting and stopping the node, the steps of \<open>main\<close> alone, with any clock and order of the peers,
  run through \<open>Stop\<close> and exit with status 0; no channel is closed twice.
\<close>

theorem signal_ends_process:
  assumes "sys_run sha False (createNode sha curve random d now, [TStart True]) (n, us @ TWait # vs)"
    and "io_signal inp"
  shows "\<exists>m t. own_run env inp (n, [TWait]) (m, [t]) \<and> thread_step env inp t m = Exit 0"
proof -
  have "chans n = (False, False, False)"
    using run_control_inv [OF assms(1) createNode_control] by (simp add: control_inv_def)
  then show ?thesis by (intro shutdown_run assms(2)) simp
qed

theorem signal_ends_process_witness:
  "\<exists>m t. own_run demo_process_env (demo_io demo_version) (demo_met, [TWait]) (m, [t]) \<and>
     thread_step demo_process_env (demo_io demo_version) t m = Exit 0"
proof -
  have "sys_run height_digest False (demo_new, [TStart True])
      (demo_met, (demo_threads @ [TAccept 9, TPeer 0, TMain]) @ TWait # [])"
    using demo_meet_run(1) by simp
  from signal_ends_process [OF this [unfolded demo_new_def]] show ?thesis by (simp add: demo_io_def)
qed

text \<open>
  C19: a node that was stopped can be started again, but accepts no connection any more. Some caller starts a
  new node once and later calls \<open>Stop\<close>, the goroutines of the node interleaved with both; as soon as that
  call has closed the listener and the channel of the peer-to-peer network, the node is not running and
  \<open>Start\<close> succeeds, but in every interleaving from there on, further starts, stops and submissions
  included, an accept loop that is still in \<open>Accept\<close> gets an error (the documented answer of a closed
  listener), and every accept loop, old or new, ends at its next look at the stop channel.
\<close>

theorem restarted_node_accepts_nothing:
  assumes "sys_run sha False (createNode sha curve random d now, [TStart main]) (n0, ts0)"
    and "sys_run sha False (n0, TStop False # ts0) (n1, ts1)" and "p2p_stopClosed (nd_p2pNetwork n1)"
    and "sys_run sha open_api (n1, ts1) (n, ts)"
  shows "\<not> nd_running n1 \<and> snd (node_Start (Ok l) n1) = Ok () \<and>
    (\<forall>env inp l. TAccepting l \<in> set ts \<longrightarrow> net_ok inp (TAccepting l) n \<longrightarrow>
      thread_step env inp (TAccepting l) n = Next n [TAccept l]) \<and>
    (\<forall>env inp l. thread_step env inp (TAccept l) n = Next n [])"
proof -
  have "started_once n0 ts0 \<and> stop_order n0 ts0"
    using run_stop_order [OF assms(1)] createNode_stop_order by blast
  then have "started_once n1 ts1 \<and> stop_order n1 ts1"
    using run_stop_order [OF assms(2)] stop_order_call by blast
  with assms(3) have n1: "\<not> nd_running n1" "deaf n1 ts1" by (auto simp: stop_order_def)
  have "nd_stopClosed n" "\<forall>l. TAccepting l \<in> set ts \<longrightarrow> l \<in> set (p2p_closed (nd_p2pNetwork n))"
    using run_deaf [OF assms(4) n1(2)] by (simp_all add: deaf_def)
  moreover have "thread_step env inp (TAccepting l) n = Next n [TAccept l]" if "\<not> is_Ok (io_conn inp)" for env inp l
    using that by (cases "io_conn inp") (simp_all add: accept_step_def)
  ultimately show ?thesis using n1(1) by (simp add: net_ok_def accept_loop_def node_Start_def Let_def)
qed

text \<open>The node with one peer is stopped while its accept loop waits in \<open>Accept\<close>.\<close>

theorem restarted_node_accepts_nothing_witness:
  "\<exists>n ts. sys_run height_digest False (demo_met, TStop False # demo_threads @ [TAccepting 9, TPeer 0, TMain, TWait]) (n, ts) \<and>
     TAccepting 9 \<in> set ts \<and> \<not> nd_running n \<and>
     thread_step demo_process_env (silent_io demo_version) (TAccepting 9) n = Next n [TAccept 9] \<and>
     thread_step demo_process_env (silent_io demo_version) (TAccept 9) n = Next n []"
proof -
  let ?inp = "silent_io demo_version" and ?ts = "demo_threads @ [TAccepting 9, TPeer 0, TMain, TWait]"
  have met: "\<not> nd_stopClosed demo_met" "nd_running demo_met" "p2p_stopClosed (nd_p2pNetwork demo_met) = False"
      "sy_stopClosed (nd_syncManager demo_met) = False"
    by (simp_all add: demo_met_def handleNewConnection_def greet_peer_def handshake_defs sendMessage_def Let_def peer_at_def
        set_peer_def demo_started_def demo_new_def createNode_def NewNode_def NewSyncManager_def NewP2PNetwork_def
        p2p_Start_def demo_version_def demo_process_env_def demo_block_env_def demo_node_env_def DefaultConfig_def)
  have turn: "thread_step demo_process_env ?inp (TAccept 9) demo_met = Next demo_met [TAccepting 9]"
    by (simp add: accept_loop_def met)
  have "own_run demo_process_env ?inp (demo_met, [TAccept 9]) (demo_met, [TAccepting 9])"
    by (rule own_run_step [OF turn]) simp
  from own_run_process [OF this demo_env_ok(1,2) demo_meet_run(2), of False _ demo_threads "[TPeer 0, TMain, TWait]"]
  have start: "sys_run height_digest False (demo_new, [TStart True]) (demo_met, ?ts)" using demo_meet_run(1) by simp
  obtain n r where n: "node_Stop demo_process_env demo_met = (n, r)" by fastforce
  from n met have r: "r = Ok ()" "p2p_stopClosed (nd_p2pNetwork n)"
    by (auto simp: node_Stop_def Let_def close_channel_def p2p_Stop_def sync_Stop_def fold_close_rest)
  have "own_run demo_process_env ?inp (demo_met, [TStop False]) (n, [])"
    using stop_run [of demo_process_env ?inp demo_met] by (simp add: ends_def n r)
  from own_run_process [OF this demo_env_ok(1,2) demo_meet_run(2), of False _ "[]" ?ts]
  have stop: "sys_run height_digest False (demo_met, TStop False # ?ts) (n, ?ts)" by (simp add: sys_run.refl)
  from restarted_node_accepts_nothing [OF start [unfolded demo_new_def] stop r(2) sys_run.refl]
  have "\<not> nd_running n" "net_ok ?inp (TAccepting 9) n \<longrightarrow> thread_step demo_process_env ?inp (TAccepting 9) n = Next n [TAccept 9]"
    "thread_step demo_process_env ?inp (TAccept 9) n = Next n []" by auto
  with stop show ?thesis by (intro exI [of _ n] exI [of _ ?ts]) (simp add: net_ok_def)
qed

text \<open>
  C21: what a running process never does: split, merge or fill a shard, learn of a validator, change its
  consistency profile. In every interleaving the forest is the new one, so each rebalancing of the routine
  tasks succeeds without effect, and every consensus round that ends makes the zero address the leader and
  proposes an empty block of height 0, which nobody receives.
\<close>

theorem sharding_and_voting_are_inert:
  assumes "sys_run sha open_api (createNode sha curve random d now, [TStart True]) (n, ts)"
    and "env_orders env n" and "key_order (ord 4) (hc_validators (nd_consensus n))"
  shows "nd_merkleForest n = NewAdaptiveMerkleForest now \<and>
    DynamicShardRebalancing (ne_sha env) (ne_now env) (ne_forest_order env 0) (ne_forest_order env 1)
      (ne_shard_orders env) (nd_merkleForest n) = (nd_merkleForest n, Ok ()) \<and>
    hc_validators (nd_consensus n) = fmempty \<and>
    co_currentProfile (nd_capOrchestrator n) = co_currentProfile NewCAPOrchestrator \<and>
    (runConsensusRound sha curve' k ord t (nd_consensus n) = Some (Ok (hc, proposal)) \<longrightarrow>
      cs_CurrentLeader (hc_consensusState hc) = 0 \<and> proposal = Some (createBlockProposal t) \<and>
      hdr_Height (blk_Header (createBlockProposal t)) = 0 \<and> blk_Transactions (createBlockProposal t) = [])"
proof -
  have idle: "idle now n" by (rule run_idle [OF assms(1) createNode_idle])
  then have n: "nd_merkleForest n = NewAdaptiveMerkleForest now" "hc_validators (nd_consensus n) = fmempty"
      "cap_reachable (nd_capOrchestrator n)" by (simp_all add: idle_def)
  have re: "DynamicShardRebalancing (ne_sha env) (ne_now env) (ne_forest_order env 0) (ne_forest_order env 1)
      (ne_shard_orders env) (nd_merkleForest n) = (nd_merkleForest n, Ok ())"
    using assms(2) unfolding n(1) env_orders_def forest_orders_def by (intro rebalancing_idle) auto
  have "ord 4 = []" using assms(3) by (simp add: n(2) key_order_def)
  then have "cs_CurrentLeader (hc_consensusState hc) = 0 \<and> proposal = Some (createBlockProposal t)"
    if "runConsensusRound sha curve' k ord t (nd_consensus n) = Some (Ok (hc, proposal))"
    using that n(2) by (auto simp: runConsensusRound_def selectLeader_def selectValidatorByVRF_def Let_def
        bind_res_Ok_iff fmlen_eq_0 getSelfAddress_def split: option.splits)
  moreover have "hdr_Height (blk_Header (createBlockProposal t)) = 0" "blk_Transactions (createBlockProposal t) = []"
    by (simp_all add: createBlockProposal_def Let_def signBlock_def getNextHeight_def selectTransactions_def)
  ultimately show ?thesis using n re level_never_adapts [OF n(3)] by blast
qed

theorem sharding_and_voting_are_inert_witness:
  "nd_merkleForest demo_met = NewAdaptiveMerkleForest 0 \<and> hc_validators (nd_consensus demo_met) = fmempty \<and>
   (\<exists>hc. runConsensusRound height_digest demo_curve 1 (\<lambda>_. []) 0 (nd_consensus demo_met) =
      Some (Ok (hc, Some (createBlockProposal 0))) \<and> cs_CurrentLeader (hc_consensusState hc) = 0)"
proof -
  have none: "hc_validators (nd_consensus demo_met) = fmempty" using demo_meet_run(2) by (simp add: idle_def)
  then have order: "key_order ((\<lambda>_. []) (4 :: nat)) (hc_validators (nd_consensus demo_met))" by (simp add: key_order_def)
  have "hashToCurve height_digest demo_curve bs = Some (be_nat (be_bytes (height_digest bs)), 1)" for bs
    by (subst hashToCurve_def, subst curve_search.simps) (simp add: demo_curve_def)
  moreover have "ec_ScalarMult demo_curve p bs = Ok p" for p bs by (simp add: demo_curve_def)
  ultimately have "\<exists>out. vrf_Generate height_digest demo_curve 1 vrf e = Some (Ok out)" for vrf e
    by (simp add: vrf_Generate_def generateProof_def Let_def)
  then obtain out bs where "vrf_Generate height_digest demo_curve 1 (hc_vrfOracle (nd_consensus demo_met))
      (hc_currentEpoch (nd_consensus demo_met)) = Some (Ok (out, bs))" by fast
  with none obtain hc proposal where "runConsensusRound height_digest demo_curve 1 (\<lambda>_. []) 0 (nd_consensus demo_met) =
      Some (Ok (hc, proposal))"
    by (simp add: runConsensusRound_def selectLeader_def selectValidatorByVRF_def fmlen_eq_0 Let_def)
  with sharding_and_voting_are_inert [OF demo_meet_run(1) [where open_api = True, unfolded demo_new_def]
      env_orders_idle [OF demo_meet_run(2) demo_env_ok(2)] order, where curve' = demo_curve and k = 1 and t = 0]
  show ?thesis by blast
qed

section \<open>Handlers and goroutines\<close>

text \<open>
  C14: a goroutine that handles one message of its peer without being interrupted does what \<open>handlePeer\<close> says:
  the node it leaves is the handler's and the goroutine reads the next message, next to one goroutine for
  each own vote; if the connection failed it has ended; if the handler panics, one of its steps
  crashes; and if the handler does not return, the goroutine never reads again and sends nothing.
\<close>

theorem handlePeer_is_uninterrupted_run:
  assumes "io_message inp = received"
  shows "case handlePeer env p received n of
      Some (n', Panic q) \<Rightarrow> crashes env inp (n, [TPeer p]) q
    | Some (n', _) \<Rightarrow>
        own_run env inp (n, [TPeer p]) (n', own_votes n n' @ (if is_Ok received then [TPeer p] else []))
    | None \<Rightarrow> \<forall>m ts. (own_step env inp)\<^sup>+\<^sup>+ (n, [TPeer p]) (m, ts) \<longrightarrow>
        TPeer p \<notin> set ts \<and> nd_sent m = nd_sent n"
proof (cases "handlePeer env p received n")
  case None
  with handlePeer_stuck [OF None assms] show ?thesis by simp
next
  case (Some nr)
  then obtain n' r where nr: "handlePeer env p received n = Some (n', r)" by (cases nr) simp
  from handlePeer_run [OF nr assms] show ?thesis by (cases r) (simp_all add: nr ends_def)
qed

theorem handlePeer_is_uninterrupted_run_witness:
  "own_run demo_process_env (demo_io (Ok \<lparr>msg_Type = ''nonsense'', msg_Payload = []\<rparr>)) (demo_met, [TPeer 0])
     (set_peer 0 ((peer_at demo_met 0)\<lparr>pr_LastSeen := ne_now demo_process_env\<rparr>) demo_met, [TPeer 0])"
proof -
  let ?msg = "\<lparr>msg_Type = ''nonsense'', msg_Payload = []\<rparr> :: net_message"
    and ?n = "set_peer 0 ((peer_at demo_met 0)\<lparr>pr_LastSeen := ne_now demo_process_env\<rparr>) demo_met"
  have h: "handlePeer demo_process_env 0 (Ok ?msg) demo_met = Some (?n, Ok ())"
    by (simp add: handlePeer_def handleMessage_def)
  have io: "io_message (demo_io (Ok ?msg)) = Ok ?msg" by (simp add: demo_io_def)
  have "own_votes demo_met ?n = []" by (simp add: own_votes_def set_peer_def)
  with handlePeer_is_uninterrupted_run [OF io, where env = demo_process_env and p = 0 and n = demo_met] show ?thesis unfolding h by simp
qed

text \<open>
  C15: the other goroutines, run without interruption, do what their handlers say: accepting and dialling with
  the handshake and the goroutine that serves the peer, the routine tasks (a panic of which is a crash),
  the synchronization, \<open>Start\<close> with the goroutines it launches, and \<open>Stop\<close> with its panics.
\<close>

theorem goroutines_run_as_handlers:
  fixes env conn addr now
  defines "q \<equiv> \<lambda>addr. \<lparr>pr_ID = '''', pr_Address = addr, pr_Connection = conn, pr_Version = 0,
    pr_LastSeen = ne_now env, pr_ReputationScore = Fin 0\<rparr>"
  assumes "io_message inp = received" and "io_conn inp = Ok conn" and "io_tick inp"
  shows "own_run env inp (n, [TAccepting l]) (handleNewConnection env conn received n, TAccept l # served env (q '''') received n) \<and>
    own_run env inp (n, [TDial addr]) (connectToPeer env addr (Ok conn) received n, served env (q addr) received n) \<and>
    ends env inp TMain n (processRoutineTasks env n) [TMain] \<and>
    own_run env inp (n, [TSync]) (synchronize env n, [TSync]) \<and>
    own_run env inp (n, [TStart False]) (fst (node_Start (Ok conn) n), if nd_running n then []
      else engine_threads @ [TSync, TAccept conn, TMain] @ connectToBootstrapPeers n) \<and>
    ends env inp (TStop False) n (node_Stop env n) []"
  using connection_run [OF assms(2,3), of env n] routine_run [OF assms(4)] sync_run [OF assms(4)]
    start_run [OF assms(3), of env n] stop_run
  by (simp add: q_def)

theorem goroutines_run_as_handlers_witness:
  "own_run demo_process_env (demo_io demo_version) (demo_met, [TSync]) (synchronize demo_process_env demo_met, [TSync])"
proof -
  have io: "io_message (demo_io demo_version) = demo_version" "io_conn (demo_io demo_version) = Ok 9"
    "io_tick (demo_io demo_version)" by (simp_all add: demo_io_def)
  show ?thesis using goroutines_run_as_handlers [OF io, where env = demo_process_env and n = demo_met] by blast
qed

end
